(* ===== verification/Prelude.thy ===== *)
theory Prelude
  imports Main "HOL-Library.Word" "HOL-Library.Signed_Division"
begin

text \<open>
  Shared vocabulary of the development: C return codes (\<open>server/inc/error_codes.h\<close>),
  the ways a C function can go wrong as values of a sum type, checked array and heap
  accesses, C's truncating remainder, decimal printing and \<open>atoi\<close>, and the list view of
  a ring of slots that the event buffers and the handshake queues share.
  Collections: \<open>res_simps\<close> (stepping through \<open>and_then\<close>), \<open>ring_simps\<close> (rings as
  lists), \<open>wrap_simps\<close> (C remainders of non-negative operands).
\<close>

named_theorems res_simps \<open>equations that step through sequenced C statements\<close>
named_theorems ring_simps \<open>rings of slots read as lists\<close>
named_theorems wrap_simps \<open>C remainders with non-negative operands\<close>

section \<open>Outcomes of C code\<close>

text \<open>
  A C function either returns or runs into one of these: a NULL or freed pointer is
  dereferenced, an array is accessed outside its bounds, a division by zero, or (for the
  loops whose termination is a claim) the fuel given to the model is used up.
\<close>

datatype error = Null_Deref | Use_After_Free | Out_Of_Bounds | Div_By_Zero | Out_Of_Fuel

type_synonym 'a res = "error + 'a"

definition and_then :: "'a res \<Rightarrow> ('a \<Rightarrow> 'b res) \<Rightarrow> 'b res" where
  "and_then m f = (case m of Inl e \<Rightarrow> Inl e | Inr x \<Rightarrow> f x)"

lemma and_then_Inl [simp, res_simps]: "and_then (Inl e) f = Inl e"
  by (simp add: and_then_def)

lemma and_then_Inr [simp, res_simps]: "and_then (Inr x) f = f x"
  by (simp add: and_then_def)

lemma and_then_eq_Inr: "and_then m f = Inr y \<longleftrightarrow> (\<exists>x. m = Inr x \<and> f x = Inr y)"
  by (cases m) auto

lemma and_then_eq_Inl:
  "and_then m f = Inl e \<longleftrightarrow> m = Inl e \<or> (\<exists>x. m = Inr x \<and> f x = Inl e)"
  by (cases m) auto

lemma and_then_cong [fundef_cong]:
  "m = m' \<Longrightarrow> (\<And>x. m' = Inr x \<Longrightarrow> f x = g x) \<Longrightarrow> and_then m f = and_then m' g"
  by (cases m') auto

lemma and_then_assoc: "and_then (and_then m f) g = and_then m (\<lambda>x. and_then (f x) g)"
  by (cases m) auto

lemma and_thenE:
  assumes "and_then m f = Inr y"
  obtains x where "m = Inr x" and "f x = Inr y"
  using assms by (auto simp: and_then_eq_Inr)

text \<open>A loop whose body may go wrong, collecting a result or threading a state.\<close>

fun traverse :: "('a \<Rightarrow> 'b res) \<Rightarrow> 'a list \<Rightarrow> 'b list res" where
  "traverse f [] = Inr []"
| "traverse f (x # xs) = and_then (f x) (\<lambda>y. and_then (traverse f xs) (\<lambda>ys. Inr (y # ys)))"

fun for_each :: "'a list \<Rightarrow> ('a \<Rightarrow> 's \<Rightarrow> 's res) \<Rightarrow> 's \<Rightarrow> 's res" where
  "for_each [] f s = Inr s"
| "for_each (x # xs) f s = and_then (f x s) (for_each xs f)"

lemma traverse_map:
  "(\<And>x. x \<in> set xs \<Longrightarrow> f x = Inr (g x)) \<Longrightarrow> traverse f xs = Inr (map g xs)"
  by (induction xs) auto

lemma traverse_ok:
  "(\<And>x. x \<in> set xs \<Longrightarrow> \<exists>y. f x = Inr y) \<Longrightarrow> \<exists>ys. traverse f xs = Inr ys"
proof (induction xs)
  case (Cons x xs)
  then obtain y ys where "f x = Inr y" "traverse f xs = Inr ys" by force
  then show ?case by simp
qed simp

lemma traverse_cong [fundef_cong]:
  "xs = ys \<Longrightarrow> (\<And>x. x \<in> set ys \<Longrightarrow> f x = g x) \<Longrightarrow> traverse f xs = traverse g ys"
  by (induction ys arbitrary: xs) auto

text \<open>A body that keeps an invariant and does not fail makes a loop that does so.\<close>

lemma for_each_inv:
  assumes "P s" "\<And>x s. x \<in> set xs \<Longrightarrow> P s \<Longrightarrow> \<exists>s'. f x s = Inr s' \<and> P s'"
  shows "\<exists>s'. for_each xs f s = Inr s' \<and> P s'"
  using assms
proof (induction xs arbitrary: s)
  case Nil
  then show ?case by simp
next
  case (Cons x xs)
  obtain s1 where s1: "f x s = Inr s1" "P s1"
    using Cons.prems(2) [of x s] Cons.prems(1) by auto
  from Cons.IH [OF s1(2)] Cons.prems(2) s1(1) show ?case by auto
qed

lemma for_each_append:
  "for_each (xs @ ys) f s = and_then (for_each xs f s) (for_each ys f)"
  by (induction xs arbitrary: s) (auto simp: and_then_assoc intro!: and_then_cong)

section \<open>Return codes\<close>

abbreviation (input) SUCCESS :: int where
  "SUCCESS \<equiv> 0"

abbreviation (input) OK :: int where
  "OK \<equiv> 1"

abbreviation (input) ERROR :: int where
  "ERROR \<equiv> - 1"

abbreviation (input) FAILURE :: int where
  "FAILURE \<equiv> - 1"

abbreviation (input) INVALID_ARGS :: int where
  "INVALID_ARGS \<equiv> - 2"

abbreviation (input) INVALID_FILE :: int where
  "INVALID_FILE \<equiv> - 3"

section \<open>Machine integers\<close>

type_synonym u64 = "64 word"
type_synonym u32 = "32 word"
type_synonym byte = "8 word"

lemma smod_nonneg [wrap_simps]:
  fixes a b :: int
  assumes "0 \<le> a" and "0 \<le> b"
  shows "a smod b = a mod b"
  using assms by (simp add: smod_int_alt_def sgn_if)

lemma sdiv_nonneg [wrap_simps]:
  fixes a b :: int
  assumes "0 \<le> a" and "0 \<le> b"
  shows "a sdiv b = a div b"
  using assms by (auto simp: signed_divide_int_def sgn_if)

text \<open>C's \<open>%\<close> and \<open>/\<close> on \<open>int\<close>.\<close>

definition c_rem :: "int \<Rightarrow> int \<Rightarrow> int res" where
  "c_rem a b = (if b = 0 then Inl Div_By_Zero else Inr (a smod b))"

definition c_div :: "int \<Rightarrow> int \<Rightarrow> int res" where
  "c_div a b = (if b = 0 then Inl Div_By_Zero else Inr (a sdiv b))"

lemma c_rem_nonneg [wrap_simps]: "0 \<le> a \<Longrightarrow> 0 < b \<Longrightarrow> c_rem a b = Inr (a mod b)"
  by (simp add: c_rem_def smod_nonneg)

lemma c_div_nonneg [wrap_simps]: "0 \<le> a \<Longrightarrow> 0 < b \<Longrightarrow> c_div a b = Inr (a div b)"
  by (simp add: c_div_def sdiv_nonneg)

section \<open>Arrays and the heap\<close>

definition arr_get :: "'a list \<Rightarrow> int \<Rightarrow> 'a res" where
  "arr_get xs i =
     (if 0 \<le> i \<and> i < int (length xs) then Inr (xs ! nat i) else Inl Out_Of_Bounds)"

definition arr_set :: "'a list \<Rightarrow> int \<Rightarrow> 'a \<Rightarrow> 'a list res" where
  "arr_set xs i x =
     (if 0 \<le> i \<and> i < int (length xs) then Inr (xs[nat i := x]) else Inl Out_Of_Bounds)"

text \<open>A pointer is \<open>None\<close> (NULL) or an address; a heap knows the addresses still allocated.\<close>

definition deref :: "('a \<rightharpoonup> 'b) \<Rightarrow> 'a option \<Rightarrow> 'b res" where
  "deref h p =
     (case p of
        None \<Rightarrow> Inl Null_Deref
      | Some a \<Rightarrow> (case h a of None \<Rightarrow> Inl Use_After_Free | Some x \<Rightarrow> Inr x))"

definition update_ref :: "('a \<rightharpoonup> 'b) \<Rightarrow> 'a option \<Rightarrow> ('b \<Rightarrow> 'b) \<Rightarrow> ('a \<rightharpoonup> 'b) res" where
  "update_ref h p f =
     (case p of
        None \<Rightarrow> Inl Null_Deref
      | Some a \<Rightarrow> (case h a of None \<Rightarrow> Inl Use_After_Free | Some x \<Rightarrow> Inr (h(a \<mapsto> f x))))"

lemma update_ref_None [simp]: "update_ref h None f = Inl Null_Deref"
  by (simp add: update_ref_def)

lemma update_ref_Some: "h a = Some x \<Longrightarrow> update_ref h (Some a) f = Inr (h(a \<mapsto> f x))"
  by (simp add: update_ref_def)

lemma update_ref_eq_Inr:
  "update_ref h p f = Inr h' \<longleftrightarrow> (\<exists>a x. p = Some a \<and> h a = Some x \<and> h' = h(a \<mapsto> f x))"
  by (auto simp: update_ref_def split: option.splits)

lemma deref_None [simp]: "deref h None = Inl Null_Deref"
  by (simp add: deref_def)

lemma deref_Some: "h a = Some x \<Longrightarrow> deref h (Some a) = Inr x"
  by (simp add: deref_def)

lemma deref_eq_Inr: "deref h p = Inr x \<longleftrightarrow> (\<exists>a. p = Some a \<and> h a = Some x)"
  by (auto simp: deref_def split: option.splits)

lemma arr_get_eq_Inr:
  "arr_get xs i = Inr x \<longleftrightarrow> 0 \<le> i \<and> i < int (length xs) \<and> x = xs ! nat i"
  by (auto simp: arr_get_def)

lemma arr_set_eq_Inr:
  "arr_set xs i x = Inr ys \<longleftrightarrow> 0 \<le> i \<and> i < int (length xs) \<and> ys = xs[nat i := x]"
  by (auto simp: arr_set_def)

lemma arr_get_in [simp]:
  "0 \<le> i \<Longrightarrow> i < int (length xs) \<Longrightarrow> arr_get xs i = Inr (xs ! nat i)"
  by (simp add: arr_get_def)

lemma arr_set_in [simp]:
  "0 \<le> i \<Longrightarrow> i < int (length xs) \<Longrightarrow> arr_set xs i x = Inr (xs[nat i := x])"
  by (simp add: arr_set_def)

section \<open>Decimal numbers\<close>

text \<open>
  \<open>snprintf (\<dots>, "%d", n)\<close> and \<open>atoi\<close>. A value that does not fit an \<open>int\<close> makes
  \<open>atoi\<close> undefined in C; the model gives the mathematical value there.
\<close>

definition digit_char :: "nat \<Rightarrow> char" where
  "digit_char d = char_of (48 + d)"

fun show_nat :: "nat \<Rightarrow> string" where
  "show_nat n =
     (if n < 10 then [digit_char n] else show_nat (n div 10) @ [digit_char (n mod 10)])"

declare show_nat.simps [simp del]

definition show_int :: "int \<Rightarrow> string" where
  "show_int n = (if n < 0 then CHR ''-'' # show_nat (nat (- n)) else show_nat (nat n))"

definition snprintf_d :: "nat \<Rightarrow> int \<Rightarrow> string" where
  "snprintf_d sz n = take (sz - 1) (show_int n)"

definition isspace :: "char \<Rightarrow> bool" where
  "isspace c \<longleftrightarrow> c = CHR '' '' \<or> (9 \<le> (of_char c :: nat) \<and> (of_char c :: nat) \<le> 13)"

definition isdigit :: "char \<Rightarrow> bool" where
  "isdigit c \<longleftrightarrow> 48 \<le> (of_char c :: nat) \<and> (of_char c :: nat) \<le> 57"

fun atoi_digits :: "int \<Rightarrow> string \<Rightarrow> int" where
  "atoi_digits acc [] = acc"
| "atoi_digits acc (c # cs) =
     (if isdigit c then atoi_digits (10 * acc + int (of_char c - 48)) cs else acc)"

fun atoi_sign :: "string \<Rightarrow> int" where
  "atoi_sign [] = 0"
| "atoi_sign (c # cs) =
     (if c = CHR ''-'' then - atoi_digits 0 cs
      else if c = CHR ''+'' then atoi_digits 0 cs
      else atoi_digits 0 (c # cs))"

definition atoi :: "string \<Rightarrow> int" where
  "atoi s = atoi_sign (dropWhile isspace s)"

lemma of_char_digit: "d < 10 \<Longrightarrow> (of_char (digit_char d) :: nat) = 48 + d"
  by (simp add: digit_char_def)

lemma isdigit_digit [simp]: "d < 10 \<Longrightarrow> isdigit (digit_char d)"
  by (simp add: isdigit_def of_char_digit)

lemma digit_char_not_special:
  assumes "d < 10"
  shows "digit_char d \<noteq> CHR ''-''" "digit_char d \<noteq> CHR ''+''" "\<not> isspace (digit_char d)"
proof -
  have o: "(of_char (digit_char d) :: nat) = 48 + d"
    using assms by (rule of_char_digit)
  show "digit_char d \<noteq> CHR ''-''"
    using o by (auto dest: arg_cong [where f = "of_char :: char \<Rightarrow> nat"])
  show "digit_char d \<noteq> CHR ''+''"
    using o by (auto dest: arg_cong [where f = "of_char :: char \<Rightarrow> nat"])
  show "\<not> isspace (digit_char d)"
    using o by (auto simp: isspace_def dest: arg_cong [where f = "of_char :: char \<Rightarrow> nat"])
qed

lemma show_nat_nonempty [simp]: "show_nat n \<noteq> []"
  by (subst show_nat.simps) simp

lemma show_nat_digits: "c \<in> set (show_nat n) \<Longrightarrow> \<exists>d < 10. c = digit_char d"
proof (induction n rule: show_nat.induct)
  case (1 n)
  show ?case
  proof (cases "n < 10")
    case True
    with "1.prems" show ?thesis by (subst (asm) show_nat.simps) auto
  next
    case False
    with "1.prems" have "c \<in> set (show_nat (n div 10)) \<or> c = digit_char (n mod 10)"
      by (subst (asm) show_nat.simps) auto
    with "1.IH" False show ?thesis by (metis mod_less_divisor zero_less_numeral)
  qed
qed

lemma atoi_digits_append:
  "(\<And>c. c \<in> set xs \<Longrightarrow> isdigit c) \<Longrightarrow>
   atoi_digits acc (xs @ ys) = atoi_digits (atoi_digits acc xs) ys"
  by (induction xs arbitrary: acc) auto

lemma atoi_digits_show_nat: "atoi_digits 0 (show_nat n) = int n"
proof (induction n rule: show_nat.induct)
  case (1 n)
  show ?case
  proof (cases "n < 10")
    case True
    then show ?thesis by (subst show_nat.simps) (simp add: of_char_digit)
  next
    case False
    have digits: "isdigit c" if "c \<in> set (show_nat (n div 10))" for c
      using show_nat_digits [OF that] by auto
    have "atoi_digits 0 (show_nat n) = 10 * int (n div 10) + int (n mod 10)"
      using False "1.IH" digits
      by (subst show_nat.simps) (simp add: atoi_digits_append of_char_digit)
    also have "\<dots> = int (10 * (n div 10) + n mod 10)"
      by (simp only: of_nat_add of_nat_mult of_nat_numeral)
    finally show ?thesis
      by (simp only: mult_div_mod_eq)
  qed
qed

lemma show_nat_Cons: "\<exists>d cs. d < 10 \<and> show_nat n = digit_char d # cs"
  using show_nat_digits [of "hd (show_nat n)" n]
  by (metis list.exhaust_sel list.set_sel(1) show_nat_nonempty)

lemma atoi_show_int: "atoi (show_int n) = n"
proof (cases "n < 0")
  case True
  have "\<not> isspace CHR ''-''"
    by (simp add: isspace_def)
  with True show ?thesis
    by (simp add: atoi_def show_int_def atoi_digits_show_nat)
next
  case False
  obtain d cs where d: "d < 10" "show_nat (nat n) = digit_char d # cs"
    using show_nat_Cons by blast
  have "atoi (show_int n) = atoi_sign (show_nat (nat n))"
    using False d digit_char_not_special(3) [OF d(1)] by (simp add: atoi_def show_int_def)
  also have "\<dots> = atoi_digits 0 (show_nat (nat n))"
    using d digit_char_not_special(1,2) [OF d(1)] by simp
  finally show ?thesis
    using False by (simp add: atoi_digits_show_nat)
qed

section \<open>Rings of slots\<close>

text \<open>
  The \<open>n\<close> slots of a ring from slot \<open>h\<close> on, as a list. Both the event buffers
  (\<open>MAX_EVENTS\<close> slots) and the handshake queues (1024 slots) are read this way.
\<close>

definition ring_list :: "'a list \<Rightarrow> int \<Rightarrow> nat \<Rightarrow> 'a list" where
  "ring_list xs h n = map (\<lambda>k. xs ! nat ((h + int k) mod int (length xs))) [0..<n]"

lemma length_ring_list [simp]: "length (ring_list xs h n) = n"
  by (simp add: ring_list_def)

lemma ring_list_0 [simp]: "ring_list xs h 0 = []"
  by (simp add: ring_list_def)

lemma ring_index_inj:
  fixes h L :: int
  assumes "(h + int j) mod L = (h + int k) mod L" "int j < L" "int k < L"
  shows "j = k"
proof -
  from assms(1) have "L dvd (h + int j) - (h + int k)"
    by (rule mod_eq_dvd_iff [THEN iffD1])
  then have "L dvd int j - int k" by simp
  moreover have "\<bar>int j - int k\<bar> < L" using assms(2,3) by simp
  ultimately have "int j - int k = 0"
    by (metis zero_less_abs_iff dvd_abs_iff zdvd_not_zless)
  then show ?thesis by simp
qed

lemma nat_mod_eq_iff:
  fixes L :: int
  assumes "0 < L"
  shows "nat (a mod L) = nat (b mod L) \<longleftrightarrow> a mod L = b mod L"
  using assms by (simp add: nat_eq_iff)

lemma ring_index_less: "0 < length xs \<Longrightarrow> nat (a mod int (length xs)) < length xs"
  using pos_mod_bound [of "int (length xs)" a] by linarith

lemma ring_list_Suc [ring_simps]:
  "ring_list xs h (Suc n) = ring_list xs h n @ [xs ! nat ((h + int n) mod int (length xs))]"
  by (simp add: ring_list_def)

lemma ring_list_update_free [ring_simps]:
  assumes "n \<le> m" "m < length xs"
  shows "ring_list (xs[nat ((h + int m) mod int (length xs)) := x]) h n = ring_list xs h n"
proof -
  have "nat ((h + int m) mod int (length xs)) \<noteq> nat ((h + int k) mod int (length xs))"
    if "k < n" for k
  proof
    assume eq: "nat ((h + int m) mod int (length xs)) = nat ((h + int k) mod int (length xs))"
    have "0 < int (length xs)" using assms by (cases xs) auto
    with eq have "(h + int m) mod int (length xs) = (h + int k) mod int (length xs)"
      by (simp add: nat_mod_eq_iff)
    then have "m = k"
      by (rule ring_index_inj) (use assms that in auto)
    with that assms show False by simp
  qed
  then show ?thesis
    by (auto simp: ring_list_def nth_list_update)
qed

lemma ring_list_snoc:
  assumes "n < length xs"
  shows "ring_list (xs[nat ((h + int n) mod int (length xs)) := x]) h (Suc n)
         = ring_list xs h n @ [x]"
proof -
  have "nat ((h + int n) mod int (length xs)) < length xs"
    using assms by (intro ring_index_less) auto
  then show ?thesis
    using assms by (simp add: ring_list_Suc ring_list_update_free)
qed

lemma ring_list_shift:
  "ring_list xs h (Suc n) = xs ! nat (h mod int (length xs)) # ring_list xs ((h + 1) mod int (length xs)) n"
  by (simp add: ring_list_def upt_conv_Cons map_Suc_upt [symmetric] mod_simps algebra_simps
      del: upt_Suc)

lemma ring_list_mod [simp]: "ring_list xs (h mod int (length xs)) n = ring_list xs h n"
  by (simp add: ring_list_def mod_simps)

lemma ring_list_Cons:
  assumes "n < length xs"
  shows "ring_list (xs[nat ((h - 1) mod int (length xs)) := x]) ((h - 1) mod int (length xs)) (Suc n)
         = x # ring_list xs h n"
proof -
  let ?L = "int (length xs)"
  let ?i = "nat ((h - 1) mod ?L)"
  have i: "?i < length xs"
    using assms by (intro ring_index_less) auto
  have wrap: "(h - 1) mod ?L = (h + int (length xs - 1)) mod ?L"
  proof -
    have "h + int (length xs - 1) = (h - 1) + ?L"
      using assms by (simp add: of_nat_diff)
    then show ?thesis by (simp only: mod_add_self2)
  qed
  have "ring_list (xs[?i := x]) h n = ring_list xs h n"
    unfolding wrap using assms by (intro ring_list_update_free) auto
  with i show ?thesis
    by (subst ring_list_shift) (simp add: mod_simps, metis length_list_update ring_list_mod)
qed

end
