(* ===== verification/Queues.thy ===== *)
theory Queues
  imports Prelude
begin

text \<open>
  The queue contract two components rely on: the game on the per-client event buffers
  (\<open>TimeApi\<close>), the main thread on the handshake rings (\<open>Workers\<close>). A bounded FIFO has
  an invariant, the list of its items, a capacity, and the operations put / first /
  rest; the lemmas proved here once are about whole sequences of operations. A bounded
  deque also takes items at the front.
\<close>

locale bounded_fifo =
  fixes ok :: "'q \<Rightarrow> bool"
    and items :: "'q \<Rightarrow> 'e list"
    and cap :: nat
    and put :: "'e \<Rightarrow> 'q \<Rightarrow> 'q"
    and first :: "'q \<Rightarrow> 'e"
    and rest :: "'q \<Rightarrow> 'q"
  assumes ok_put: "ok q \<Longrightarrow> length (items q) < cap \<Longrightarrow> ok (put e q)"
    and items_put: "ok q \<Longrightarrow> length (items q) < cap \<Longrightarrow> items (put e q) = items q @ [e]"
    and ok_rest: "ok q \<Longrightarrow> items q \<noteq> [] \<Longrightarrow> ok (rest q)"
    and items_first_rest: "ok q \<Longrightarrow> items q \<noteq> [] \<Longrightarrow> items q = first q # items (rest q)"
begin

lemma first_hd: "ok q \<Longrightarrow> items q \<noteq> [] \<Longrightarrow> first q = hd (items q)"
  using items_first_rest [of q] by (metis list.sel(1))

lemma rest_tl: "ok q \<Longrightarrow> items q \<noteq> [] \<Longrightarrow> items (rest q) = tl (items q)"
  using items_first_rest [of q] by (metis list.sel(3))

lemma put_many:
  "ok q \<Longrightarrow> length (items q) + length es \<le> cap \<Longrightarrow>
   ok (fold put es q) \<and> items (fold put es q) = items q @ es"
proof (induction es arbitrary: q)
  case Nil
  then show ?case by simp
next
  case (Cons e es)
  then have "ok (put e q)" "items (put e q) = items q @ [e]"
    by (auto intro: ok_put items_put)
  with Cons.IH [of "put e q"] Cons.prems show ?case by simp
qed

lemma rest_many:
  "ok q \<Longrightarrow> n \<le> length (items q) \<Longrightarrow>
   ok ((rest ^^ n) q) \<and> items ((rest ^^ n) q) = drop n (items q)"
proof (induction n)
  case 0
  then show ?case by simp
next
  case (Suc n)
  then have ok: "ok ((rest ^^ n) q)" and it: "items ((rest ^^ n) q) = drop n (items q)"
    by auto
  have "items ((rest ^^ n) q) \<noteq> []"
    using it Suc.prems by simp
  with ok it show ?case
    by (simp add: ok_rest rest_tl drop_Suc tl_drop)
qed

text \<open>What went in comes out, in the order it went in.\<close>

lemma fifo_order:
  assumes "ok q" "items q = []" "length es \<le> cap" "n < length es"
  shows "first ((rest ^^ n) (fold put es q)) = es ! n"
proof -
  have filled: "ok (fold put es q)" "items (fold put es q) = es"
    using put_many [OF assms(1), of es] assms(2,3) by auto
  have "ok ((rest ^^ n) (fold put es q))" "items ((rest ^^ n) (fold put es q)) = drop n es"
    using rest_many [OF filled(1), of n] filled(2) assms(4) by auto
  then show ?thesis
    using assms(4) by (simp add: first_hd hd_drop_conv_nth)
qed

end

locale bounded_deque = bounded_fifo ok items cap put first rest
  for ok :: "'q \<Rightarrow> bool"
    and items :: "'q \<Rightarrow> 'e list"
    and cap :: nat
    and put :: "'e \<Rightarrow> 'q \<Rightarrow> 'q"
    and first :: "'q \<Rightarrow> 'e"
    and rest :: "'q \<Rightarrow> 'q" +
  fixes put_front :: "'e \<Rightarrow> 'q \<Rightarrow> 'q"
  assumes ok_put_front: "ok q \<Longrightarrow> length (items q) < cap \<Longrightarrow> ok (put_front e q)"
    and items_put_front: "ok q \<Longrightarrow> length (items q) < cap \<Longrightarrow> items (put_front e q) = e # items q"
begin

text \<open>An item put at the front is the next one out, and taking it out restores the rest.\<close>

lemma put_front_first:
  assumes "ok q" "length (items q) < cap"
  shows "first (put_front e q) = e" "items (rest (put_front e q)) = items q"
proof -
  have "ok (put_front e q)" "items (put_front e q) = e # items q"
    using assms by (auto intro: ok_put_front items_put_front)
  then show "first (put_front e q) = e" "items (rest (put_front e q)) = items q"
    by (simp_all add: first_hd rest_tl)
qed

end

end
