(* ===== verification/TimeApi.thy ===== *)
theory TimeApi
  imports Queues
begin

text \<open>
  The game clock and the per-client event buffers: \<open>server/srcs/time_api/time_api.c\<close>.
  An event buffer is a ring of \<open>MAX_EVENTS\<close> slots with \<open>head\<close>, \<open>tail\<close> and \<open>count\<close>;
  the pending events, in the order they will run, are the list \<open>pending\<close>. The theory
  shows that scheduling appends to that list, scheduling at the front conses, and
  processing pops: the buffers are an interpretation of the locale \<open>bounded_deque\<close>.
  Callbacks are left abstract (type \<open>'c\<close>, data pointer \<open>'d\<close>): the game supplies them. So is the
  type \<open>'a\<close> of arguments: the game's model carries strings as values, \<open>Arguments\<close> their addresses.
\<close>

section \<open>Data\<close>

abbreviation (input) MAX_EVENTS :: int where
  "MAX_EVENTS \<equiv> 10"

record ('c, 'd, 'a) event =
  exec_time :: u64
  ev_callback :: "'c option"
  ev_data :: 'd
  ev_arg :: "'a option"

record ('c, 'd, 'a) event_buffer =
  eb_events :: "('c, 'd, 'a) event list"
  eb_count :: int
  eb_head :: int
  eb_tail :: int

record time_api =
  t_divider :: int
  start_time_ms :: int
  current_time_units :: u64

section \<open>The clock\<close>

definition get_current_time_ms :: "int \<Rightarrow> int \<Rightarrow> int" where
  "get_current_time_ms tv_sec tv_nsec = tv_sec * 1000 + tv_nsec sdiv 1000000"

definition time_api_init :: "int \<Rightarrow> int \<Rightarrow> time_api" where
  "time_api_init t now =
     \<lparr>t_divider = t, start_time_ms = now, current_time_units = 0\<rparr>"

text \<open>\<open>_api\<close> when it is given, the process-wide \<open>m_time\<close> otherwise.\<close>

definition pick_api :: "time_api option \<Rightarrow> time_api option \<Rightarrow> time_api option" where
  "pick_api api m_time = (case api of Some a \<Rightarrow> Some a | None \<Rightarrow> m_time)"

definition time_get_current_time_units ::
  "time_api option \<Rightarrow> time_api option \<Rightarrow> int \<Rightarrow> u64" where
  "time_get_current_time_units api m_time now =
     (case pick_api api m_time of
        None \<Rightarrow> - 1
      | Some a \<Rightarrow> word_of_int (((now - start_time_ms a) * t_divider a) sdiv 1000))"

definition time_api_update :: "time_api option \<Rightarrow> int \<Rightarrow> int \<times> time_api option" where
  "time_api_update m_time now =
     (case m_time of
        None \<Rightarrow> (ERROR, None)
      | Some a \<Rightarrow>
          (SUCCESS, Some (a\<lparr>current_time_units := time_get_current_time_units (Some a) m_time now\<rparr>)))"

section \<open>Event buffers\<close>

definition m_is_event_buffer_full :: "('c, 'd, 'a) event_buffer \<Rightarrow> bool" where
  "m_is_event_buffer_full b \<longleftrightarrow> eb_count b = MAX_EVENTS"

definition time_api_schedule_client_event ::
  "time_api option \<Rightarrow> time_api option \<Rightarrow> ('c, 'd, 'a) event_buffer \<Rightarrow> int \<Rightarrow> 'c option \<Rightarrow> 'd \<Rightarrow>
   'a option \<Rightarrow> int \<times> ('c, 'd, 'a) event_buffer" where
  "time_api_schedule_client_event api m_time b delay cb d a =
     (case pick_api api m_time of
        None \<Rightarrow> (- 1, b)
      | Some tm \<Rightarrow>
          if eb_count b \<ge> MAX_EVENTS then (- 1, b)
          else
            let time = (if eb_count b > 0 then exec_time (eb_events b ! nat (eb_tail b)) + of_int delay
                        else current_time_units tm + of_int delay);
                new_event = \<lparr>exec_time = time, ev_callback = cb, ev_data = d, ev_arg = a\<rparr>
            in (0, b\<lparr>eb_events := (eb_events b)[nat (eb_tail b) := new_event],
                     eb_tail := (eb_tail b + 1) smod MAX_EVENTS,
                     eb_count := eb_count b + 1\<rparr>))"

definition time_api_schedule_client_event_front ::
  "time_api option \<Rightarrow> time_api option \<Rightarrow> ('c, 'd, 'a) event_buffer \<Rightarrow> int \<Rightarrow> 'c option \<Rightarrow> 'd \<Rightarrow>
   'a option \<Rightarrow> int \<times> ('c, 'd, 'a) event_buffer" where
  "time_api_schedule_client_event_front api m_time b delay cb d a =
     (case pick_api api m_time of
        None \<Rightarrow> (- 1, b)
      | Some tm \<Rightarrow>
          if m_is_event_buffer_full b then (- 1, b)
          else
            let new_event = \<lparr>exec_time = current_time_units tm + of_int delay,
                             ev_callback = cb, ev_data = d, ev_arg = a\<rparr>;
                h = (eb_head b - 1 + MAX_EVENTS) smod MAX_EVENTS
            in (0, b\<lparr>eb_head := h, eb_events := (eb_events b)[nat h := new_event],
                     eb_count := eb_count b + 1\<rparr>))"

text \<open>
  Processing runs the callback of the head event, which may itself change the buffer (an
  incantation schedules its second half at the front), so the buffer is read from and
  written to the world \<open>'w\<close> it lives in. \<open>slot\<close> is the array slot \<open>ev\<close> points to: after the
  callback, the code reads \<open>ev->arg\<close> from that slot again. \<open>release\<close> is \<open>free\<close>.
\<close>

definition time_api_process_client_events ::
  "time_api option \<Rightarrow> ('w \<Rightarrow> ('c, 'd, 'a) event_buffer res) \<Rightarrow>
   (('c, 'd, 'a) event_buffer \<Rightarrow> 'w \<Rightarrow> 'w res) \<Rightarrow>
   ('c \<Rightarrow> 'd \<Rightarrow> 'a option \<Rightarrow> 'w \<Rightarrow> 'w res) \<Rightarrow> ('a option \<Rightarrow> 'w \<Rightarrow> 'w res) \<Rightarrow> 'w \<Rightarrow> (int \<times> 'w) res" where
  "time_api_process_client_events m_time get put call release w =
     (case m_time of
        None \<Rightarrow> Inr (ERROR, w)
      | Some tm \<Rightarrow>
          and_then (get w) (\<lambda>b.
            if eb_count b > 0 then
              let slot = nat (eb_head b); ev = eb_events b ! slot in
              if exec_time ev \<le> current_time_units tm then
                let prev_head = (eb_head b + 1) smod MAX_EVENTS in
                and_then (put (b\<lparr>eb_head := prev_head, eb_count := eb_count b - 1\<rparr>) w) (\<lambda>w1.
                and_then (case ev_callback ev of
                            None \<Rightarrow> Inr w1
                          | Some cb \<Rightarrow> call cb (ev_data ev) (ev_arg ev) w1) (\<lambda>w2.
                and_then (get w2) (\<lambda>b2.
                  if prev_head = eb_head b2 \<and> ev_arg (eb_events b2 ! slot) \<noteq> None then
                    and_then (release (ev_arg (eb_events b2 ! slot)) w2) (\<lambda>w3.
                    and_then
                      (put (b2\<lparr>eb_events := (eb_events b2)[slot := (eb_events b2 ! slot)\<lparr>ev_arg := None\<rparr>]\<rparr>) w3)
                      (\<lambda>w4. Inr (SUCCESS, w4)))
                  else Inr (SUCCESS, w2))))
              else Inr (SUCCESS, w)
            else Inr (SUCCESS, w)))"

section \<open>The pending events\<close>

definition wf_buffer :: "('c, 'd, 'a) event_buffer \<Rightarrow> bool" where
  "wf_buffer b \<longleftrightarrow> length (eb_events b) = 10 \<and> 0 \<le> eb_head b \<and> eb_head b < 10 \<and>
     0 \<le> eb_count b \<and> eb_count b \<le> 10 \<and> eb_tail b = (eb_head b + eb_count b) mod 10"

definition pending :: "('c, 'd, 'a) event_buffer \<Rightarrow> ('c, 'd, 'a) event list" where
  "pending b = ring_list (eb_events b) (eb_head b) (nat (eb_count b))"

text \<open>The buffer of a freshly allocated (\<open>memset\<close> to 0) client or server.\<close>

definition empty_buffer :: "'d \<Rightarrow> ('c, 'd, 'a) event_buffer" where
  "empty_buffer d =
     \<lparr>eb_events = replicate 10 \<lparr>exec_time = 0, ev_callback = None, ev_data = d, ev_arg = None\<rparr>,
      eb_count = 0, eb_head = 0, eb_tail = 0\<rparr>"

text \<open>The three ways the ring changes, as the code writes its slots.\<close>

definition push_back :: "('c, 'd, 'a) event \<Rightarrow> ('c, 'd, 'a) event_buffer \<Rightarrow> ('c, 'd, 'a) event_buffer" where
  "push_back e b = b\<lparr>eb_events := (eb_events b)[nat (eb_tail b) := e],
     eb_tail := (eb_tail b + 1) smod MAX_EVENTS, eb_count := eb_count b + 1\<rparr>"

definition push_front :: "('c, 'd, 'a) event \<Rightarrow> ('c, 'd, 'a) event_buffer \<Rightarrow> ('c, 'd, 'a) event_buffer" where
  "push_front e b =
     (let h = (eb_head b - 1 + MAX_EVENTS) smod MAX_EVENTS
      in b\<lparr>eb_head := h, eb_events := (eb_events b)[nat h := e], eb_count := eb_count b + 1\<rparr>)"

definition pop :: "('c, 'd, 'a) event_buffer \<Rightarrow> ('c, 'd, 'a) event_buffer" where
  "pop b = b\<lparr>eb_head := (eb_head b + 1) smod MAX_EVENTS, eb_count := eb_count b - 1\<rparr>"

definition front :: "('c, 'd, 'a) event_buffer \<Rightarrow> ('c, 'd, 'a) event" where
  "front b = eb_events b ! nat (eb_head b)"

lemma wf_empty_buffer [simp]: "wf_buffer (empty_buffer d)"
  by (simp add: wf_buffer_def empty_buffer_def)

lemma pending_empty_buffer [simp]: "pending (empty_buffer d) = []"
  by (simp add: pending_def empty_buffer_def)

lemma length_pending: "wf_buffer b \<Longrightarrow> int (length (pending b)) = eb_count b"
  by (simp add: pending_def wf_buffer_def)

lemma length_pending_le: "wf_buffer b \<Longrightarrow> length (pending b) \<le> 10"
  by (auto simp: pending_def wf_buffer_def)

lemma pending_Nil_iff: "wf_buffer b \<Longrightarrow> pending b = [] \<longleftrightarrow> eb_count b = 0"
  using length_pending [of b] by auto

lemma wf_push_back:
  assumes "wf_buffer b" "length (pending b) < 10"
  shows "wf_buffer (push_back e b)"
  using assms length_pending [OF assms(1)]
  by (auto simp: wf_buffer_def push_back_def wrap_simps mod_simps algebra_simps)

lemma pending_push_back:
  assumes "wf_buffer b" "length (pending b) < 10"
  shows "pending (push_back e b) = pending b @ [e]"
proof -
  have wf: "length (eb_events b) = 10" "0 \<le> eb_count b"
    "eb_tail b = (eb_head b + int (nat (eb_count b))) mod 10"
    using assms(1) by (auto simp: wf_buffer_def)
  have n: "nat (eb_count b) < length (eb_events b)"
    using assms length_pending [OF assms(1)] wf(1) by simp
  have "nat (eb_count b + 1) = Suc (nat (eb_count b))"
    using wf(2) by simp
  then show ?thesis
    using ring_list_snoc [OF n, of "eb_head b" e] wf by (simp add: pending_def push_back_def)
qed

lemma push_front_head:
  assumes "wf_buffer b"
  shows "(eb_head b - 1 + 10) smod 10 = (eb_head b - 1) mod 10"
proof -
  have "(eb_head b - 1 + 10) smod 10 = (eb_head b - 1 + 10) mod 10"
    using assms by (intro smod_nonneg) (auto simp: wf_buffer_def)
  then show ?thesis by (simp only: mod_add_self2)
qed

lemma wf_push_front:
  assumes "wf_buffer b" "length (pending b) < 10"
  shows "wf_buffer (push_front e b)"
proof -
  have "((eb_head b - 1) mod 10 + (eb_count b + 1)) mod 10 = (eb_head b + eb_count b) mod 10"
    by (simp add: mod_add_left_eq)
  then show ?thesis
    using assms length_pending [OF assms(1)] push_front_head [OF assms(1)]
    by (auto simp: wf_buffer_def push_front_def Let_def)
qed

lemma pending_push_front:
  assumes "wf_buffer b" "length (pending b) < 10"
  shows "pending (push_front e b) = e # pending b"
proof -
  have wf: "length (eb_events b) = 10" "0 \<le> eb_count b"
    using assms(1) by (auto simp: wf_buffer_def)
  have n: "nat (eb_count b) < length (eb_events b)"
    using assms length_pending [OF assms(1)] wf(1) by simp
  have "nat (eb_count b + 1) = Suc (nat (eb_count b))"
    using wf(2) by simp
  then show ?thesis
    using ring_list_Cons [OF n, of "eb_head b" e] wf(1) push_front_head [OF assms(1)]
    by (simp add: pending_def push_front_def Let_def)
qed

lemma pending_not_empty:
  assumes "wf_buffer b" "pending b \<noteq> []"
  shows "pending b = front b # pending (pop b)"
proof -
  have wf: "length (eb_events b) = 10" "0 < eb_count b" "0 \<le> eb_head b" "eb_head b < 10"
    using assms pending_Nil_iff [OF assms(1)] by (auto simp: wf_buffer_def)
  have n: "nat (eb_count b) = Suc (nat (eb_count b - 1))"
    using wf(2) by simp
  have "pending b = ring_list (eb_events b) (eb_head b) (Suc (nat (eb_count b - 1)))"
    using n by (simp add: pending_def)
  also have "\<dots> = front b # pending (pop b)"
    using wf by (subst ring_list_shift) (simp add: front_def pending_def pop_def wrap_simps)
  finally show ?thesis .
qed

lemma wf_pop:
  assumes "wf_buffer b" "pending b \<noteq> []"
  shows "wf_buffer (pop b)"
proof -
  have "((eb_head b + 1) mod 10 + (eb_count b - 1)) mod 10 = (eb_head b + eb_count b) mod 10"
    using mod_add_left_eq [of "eb_head b + 1" 10 "eb_count b - 1"] by simp
  then show ?thesis
    using assms pending_Nil_iff [OF assms(1)]
    by (auto simp: wf_buffer_def pop_def wrap_simps)
qed

lemma pending_update_front_arg:
  assumes "wf_buffer b" "pending b \<noteq> []"
  shows "pending ((pop b)\<lparr>eb_events := (eb_events b)[nat (eb_head b) := e]\<rparr>) = pending (pop b)"
proof -
  have wf: "length (eb_events b) = 10" "0 < eb_count b" "0 \<le> eb_head b" "eb_head b < 10"
    "eb_count b \<le> 10"
    using assms pending_Nil_iff [OF assms(1)] by (auto simp: wf_buffer_def)
  let ?h = "(eb_head b + 1) mod 10"
  have "eb_head b = (?h + 9) mod 10"
    using wf(3,4) mod_add_left_eq [of "eb_head b + 1" 10 9] by simp
  then have slot: "nat (eb_head b) = nat ((?h + int 9) mod int (length (eb_events b)))"
    using wf(1) by simp
  have "ring_list ((eb_events b)[nat (eb_head b) := e]) ?h (nat (eb_count b - 1))
        = ring_list (eb_events b) ?h (nat (eb_count b - 1))"
    unfolding slot using wf by (intro ring_list_update_free) auto
  then show ?thesis
    using wf by (simp add: pending_def pop_def wrap_simps)
qed

interpretation evq: bounded_deque wf_buffer pending 10 push_back front pop push_front
  by unfold_locales
    (auto simp: wf_push_back pending_push_back wf_pop wf_push_front pending_push_front
      intro: pending_not_empty)

section \<open>Scheduling\<close>

text \<open>
  When the code gives an event its time: the slot at \<open>tail\<close> (the one about to be
  overwritten) if the buffer is not empty, the clock otherwise.
\<close>

definition due_time :: "time_api \<Rightarrow> ('c, 'd, 'a) event_buffer \<Rightarrow> int \<Rightarrow> u64" where
  "due_time tm b delay =
     (if eb_count b > 0 then exec_time (eb_events b ! nat (eb_tail b)) else current_time_units tm)
     + of_int delay"

lemma schedule_full_eq:
  assumes "eb_count b = 10"
  shows "time_api_schedule_client_event api m_time b delay cb d a = (- 1, b)"
    "time_api_schedule_client_event_front api m_time b delay cb d a = (- 1, b)"
  using assms
  by (auto simp: time_api_schedule_client_event_def time_api_schedule_client_event_front_def
      m_is_event_buffer_full_def split: option.splits)

lemma schedule_eq:
  assumes "pick_api api m_time = Some tm" "eb_count b < 10"
  shows "time_api_schedule_client_event api m_time b delay cb d a =
    (0, push_back \<lparr>exec_time = due_time tm b delay, ev_callback = cb, ev_data = d, ev_arg = a\<rparr> b)"
  using assms by (simp add: time_api_schedule_client_event_def push_back_def due_time_def Let_def)

lemma schedule_front_eq:
  assumes "pick_api api m_time = Some tm" "eb_count b < 10"
  shows "time_api_schedule_client_event_front api m_time b delay cb d a =
    (0, push_front \<lparr>exec_time = current_time_units tm + of_int delay,
                    ev_callback = cb, ev_data = d, ev_arg = a\<rparr> b)"
  using assms
  by (simp add: time_api_schedule_client_event_front_def push_front_def Let_def
      m_is_event_buffer_full_def)

lemma count_less: "wf_buffer b \<Longrightarrow> eb_count b < 10 \<longleftrightarrow> length (pending b) < 10"
  using length_pending [of b] by linarith

section \<open>Processing\<close>

lemma process_not_due:
  assumes "m_time = Some tm" "get w = Inr b" "wf_buffer b"
    and "pending b = [] \<or> current_time_units tm < exec_time (front b)"
  shows "time_api_process_client_events m_time get put call release w = Inr (SUCCESS, w)"
  using assms pending_Nil_iff [OF assms(3)]
  by (auto simp: time_api_process_client_events_def front_def Let_def)

lemma process_due:
  assumes "m_time = Some tm" "get w = Inr b" "wf_buffer b"
    and "pending b \<noteq> []" "exec_time (front b) \<le> current_time_units tm"
  shows "time_api_process_client_events m_time get put call release w =
    and_then (put (pop b) w) (\<lambda>w1.
    and_then (case ev_callback (front b) of
                None \<Rightarrow> Inr w1
              | Some cb \<Rightarrow> call cb (ev_data (front b)) (ev_arg (front b)) w1) (\<lambda>w2.
    and_then (get w2) (\<lambda>b2.
      if eb_head (pop b) = eb_head b2 \<and> ev_arg (eb_events b2 ! nat (eb_head b)) \<noteq> None then
        and_then (release (ev_arg (eb_events b2 ! nat (eb_head b))) w2) (\<lambda>w3.
        and_then
          (put (b2\<lparr>eb_events := (eb_events b2)[nat (eb_head b) :=
             (eb_events b2 ! nat (eb_head b))\<lparr>ev_arg := None\<rparr>]\<rparr>) w3)
          (\<lambda>w4. Inr (SUCCESS, w4)))
      else Inr (SUCCESS, w2))))"
proof -
  have "eb_count b > 0"
    using assms(3,4) pending_Nil_iff [OF assms(3)] by (auto simp: wf_buffer_def)
  then show ?thesis
    using assms unfolding time_api_process_client_events_def front_def pop_def Let_def by simp
qed

text \<open>
  The buffer in a world that also records what was called: every call of
  \<open>time_api_process_client_events\<close> on it runs at most one callback.
\<close>

type_synonym ('c, 'd, 'a) logged = "('c, 'd, 'a) event_buffer \<times> ('c \<times> 'd \<times> 'a option) list"

definition process_logged :: "time_api \<Rightarrow> ('c, 'd, 'a) logged \<Rightarrow> (int \<times> ('c, 'd, 'a) logged) res" where
  "process_logged tm =
     time_api_process_client_events (Some tm) (\<lambda>w. Inr (fst w)) (\<lambda>b w. Inr (b, snd w))
       (\<lambda>cb d a w. Inr (fst w, snd w @ [(cb, d, a)])) (\<lambda>_. Inr)"

fun process_times :: "time_api \<Rightarrow> nat \<Rightarrow> ('c, 'd, 'a) logged \<Rightarrow> ('c, 'd, 'a) logged res" where
  "process_times tm 0 w = Inr w"
| "process_times tm (Suc n) w =
     and_then (process_logged tm w) (\<lambda>(r, w'). process_times tm n w')"

definition called :: "('c, 'd, 'a) event \<Rightarrow> ('c \<times> 'd \<times> 'a option) list" where
  "called e = (case ev_callback e of None \<Rightarrow> [] | Some cb \<Rightarrow> [(cb, ev_data e, ev_arg e)])"

lemma process_logged_due:
  assumes "wf_buffer b" "pending b = e # es" "exec_time e \<le> current_time_units tm"
  shows "\<exists>b'. process_logged tm (b, l) = Inr (SUCCESS, b', l @ called e) \<and>
              wf_buffer b' \<and> pending b' = es"
proof -
  have ne: "pending b \<noteq> []" using assms(2) by simp
  have fr: "front b = e" and po: "pending (pop b) = es"
    using pending_not_empty [OF assms(1) ne] assms(2) by simp_all
  have wf: "wf_buffer (pop b)" using wf_pop [OF assms(1) ne] .
  let ?i = "nat (eb_head b)"
  let ?b' = "if ev_arg e \<noteq> None then (pop b)\<lparr>eb_events := (eb_events b)[?i := e\<lparr>ev_arg := None\<rparr>]\<rparr>
             else pop b"
  have ev: "eb_events (pop b) = eb_events b" "eb_events b ! ?i = e"
    using fr by (simp_all add: pop_def front_def)
  have run: "process_logged tm (b, l) = Inr (SUCCESS, ?b', l @ called e)"
    unfolding process_logged_def
    using assms(3) ne
    by (subst process_due [where b = b])
      (auto simp: assms(1) fr ev called_def split: option.splits)
  have "wf_buffer ?b'" using wf by (auto simp: wf_buffer_def pop_def)
  moreover have "pending ?b' = es"
    using pending_update_front_arg [OF assms(1) ne] po by simp
  ultimately show ?thesis using run by blast
qed

lemma process_times_due:
  assumes "wf_buffer b" "\<And>e. e \<in> set (pending b) \<Longrightarrow> exec_time e \<le> current_time_units tm"
  shows "\<exists>b'. process_times tm (length (pending b)) (b, l) =
                Inr (b', l @ concat (map called (pending b))) \<and>
              wf_buffer b' \<and> pending b' = []"
  using assms
proof (induction "pending b" arbitrary: b l)
  case Nil
  then show ?case by (intro exI [of _ b]) simp
next
  case (Cons e es)
  then obtain b1 where b1: "process_logged tm (b, l) = Inr (SUCCESS, b1, l @ called e)"
    "wf_buffer b1" "pending b1 = es"
    using process_logged_due [of b e es tm l] by (metis list.set_intros(1))
  have "\<And>e. e \<in> set (pending b1) \<Longrightarrow> exec_time e \<le> current_time_units tm"
    using b1(3) Cons.hyps(2) Cons.prems(2) by (metis list.set_intros(2))
  with Cons.hyps(1) [of b1 "l @ called e"] b1 obtain b' where
    "process_times tm (length es) (b1, l @ called e) = Inr (b', (l @ called e) @ concat (map called es))"
    "wf_buffer b'" "pending b' = []"
    by auto
  with b1(1) Cons.hyps(2) [symmetric] show ?case by auto
qed

section \<open>Properties\<close>

text \<open>
  Scheduling an event on a buffer with room succeeds (returns 0), keeps the ring well
  formed, and puts exactly that event behind all pending ones, which stay as they are.
\<close>
theorem schedule_appends:
  assumes "wf_buffer b" "pick_api api m_time = Some tm" "length (pending b) < 10"
  shows "\<exists>e b'. time_api_schedule_client_event api m_time b delay cb d a = (0, b') \<and>
           wf_buffer b' \<and> pending b' = pending b @ [e] \<and>
           ev_callback e = cb \<and> ev_data e = d \<and> ev_arg e = a"
  using assms
  by (simp add: schedule_eq count_less wf_push_back pending_push_back)

theorem schedule_appends_witness:
  "\<exists>e b'. time_api_schedule_client_event None
      (Some \<lparr>t_divider = 800, start_time_ms = 0, current_time_units = 5\<rparr>)
      (empty_buffer (0::nat)) 7 (Some ''avance'') 3 None = (0, b') \<and>
     wf_buffer b' \<and> pending b' = pending (empty_buffer (0::nat)) @ [e] \<and>
     ev_callback e = Some ''avance'' \<and> ev_data e = 3 \<and> ev_arg e = None"
  by (rule schedule_appends [where tm =
        "\<lparr>t_divider = 800, start_time_ms = 0, current_time_units = 5\<rparr>"])
    (simp_all add: pick_api_def)

text \<open>
  The eleventh command is refused: on a buffer holding ten events both ways of
  scheduling return -1 and change nothing.
\<close>
theorem schedule_full_refused:
  assumes "wf_buffer b" "length (pending b) = 10"
  shows "time_api_schedule_client_event api m_time b delay cb d a = (- 1, b) \<and>
         time_api_schedule_client_event_front api m_time b delay cb d a = (- 1, b)"
  using assms length_pending [OF assms(1)] by (simp add: schedule_full_eq)

definition full_events :: "(string, nat, string) event list" where
  "full_events = replicate 10
     \<lparr>exec_time = 7, ev_callback = Some ''voir'', ev_data = 0, ev_arg = None\<rparr>"

definition full_buffer :: "(string, nat, string) event_buffer" where
  "full_buffer = fold push_back full_events (empty_buffer 0)"

lemma full_buffer_pending: "wf_buffer full_buffer" "pending full_buffer = full_events"
  using evq.put_many [of "empty_buffer 0" full_events]
  by (simp_all add: full_buffer_def full_events_def del: fold_replicate)

theorem schedule_full_refused_witness:
  "time_api_schedule_client_event None None full_buffer 7 (Some ''voir'') 0 None
     = (- 1, full_buffer) \<and>
   time_api_schedule_client_event_front None None full_buffer 7 (Some ''voir'') 0 None
     = (- 1, full_buffer)"
  by (rule schedule_full_refused) (simp_all add: full_buffer_pending full_events_def)

text \<open>
  Scheduling at the front (how an incantation books its second half) makes the event
  the next one to run, before every pending one, at the current time plus its delay.
\<close>
theorem schedule_front_conses:
  assumes "wf_buffer b" "pick_api api m_time = Some tm" "length (pending b) < 10"
  shows "\<exists>b'. time_api_schedule_client_event_front api m_time b delay cb d a = (0, b') \<and>
           wf_buffer b' \<and>
           pending b' = \<lparr>exec_time = current_time_units tm + of_int delay, ev_callback = cb,
                         ev_data = d, ev_arg = a\<rparr> # pending b"
  using assms
  by (simp add: schedule_front_eq count_less wf_push_front pending_push_front)

theorem schedule_front_conses_witness:
  "\<exists>b'. time_api_schedule_client_event_front None
      (Some \<lparr>t_divider = 800, start_time_ms = 0, current_time_units = 5\<rparr>)
      (empty_buffer (0::nat)) 300 (Some ''real'') 3 (Some ''1'') = (0, b') \<and>
     wf_buffer b' \<and>
     pending b' = \<lparr>exec_time = 5 + of_int 300, ev_callback = Some ''real'', ev_data = 3,
                   ev_arg = Some ''1''\<rparr> # pending (empty_buffer (0::nat))"
  using schedule_front_conses [of "empty_buffer (0::nat)" None
      "Some \<lparr>t_divider = 800, start_time_ms = 0, current_time_units = 5\<rparr>"
      "\<lparr>t_divider = 800, start_time_ms = 0, current_time_units = 5\<rparr>" 300 "Some ''real''" 3
      "Some ''1''"]
  by (simp add: pick_api_def)



text \<open>
  C39: The delay of a command queued behind another is counted from the content of a slot
  nobody wrote, not from the command before it: on a fresh buffer, a first command at time
  \<open>now\<close> is due at \<open>now + d1\<close>, but the second one at the absolute time \<open>d2\<close>, whatever the
  clock says.
\<close>
theorem second_command_due_time:
  "map exec_time (pending (snd (time_api_schedule_client_event None (Some tm2)
     (snd (time_api_schedule_client_event None (Some tm1) (empty_buffer z) d1 cb1 x1 a1))
     d2 cb2 x2 a2)))
   = [current_time_units tm1 + of_int d1, of_int d2]"
proof -
  define e where "e = \<lparr>exec_time = current_time_units tm1 + of_int d1, ev_callback = cb1,
    ev_data = x1, ev_arg = a1\<rparr>"
  define b where "b = push_back e (empty_buffer z)"
  have 1: "time_api_schedule_client_event None (Some tm1) (empty_buffer z) d1 cb1 x1 a1 = (0, b)"
    by (subst schedule_eq [where tm = tm1])
      (simp_all add: pick_api_def empty_buffer_def b_def e_def due_time_def)
  have b: "wf_buffer b" "pending b = [e]" "eb_count b = 1"
    by (simp_all add: b_def wf_push_back pending_push_back) (simp add: push_back_def empty_buffer_def)
  have "due_time tm2 b d2 = of_int d2"
    by (simp add: due_time_def b_def push_back_def empty_buffer_def wrap_simps)
  then have 2: "time_api_schedule_client_event None (Some tm2) b d2 cb2 x2 a2 =
      (0, push_back \<lparr>exec_time = of_int d2, ev_callback = cb2, ev_data = x2, ev_arg = a2\<rparr> b)"
    using b(3) by (simp add: schedule_eq [where tm = tm2] pick_api_def)
  have "pending (push_back \<lparr>exec_time = of_int d2, ev_callback = cb2, ev_data = x2, ev_arg = a2\<rparr> b)
        = [e, \<lparr>exec_time = of_int d2, ev_callback = cb2, ev_data = x2, ev_arg = a2\<rparr>]"
    using b by (simp add: pending_push_back)
  then show ?thesis
    by (simp add: 1 2 e_def)
qed

text \<open>
  The game clock counts whole game ticks of 1000/t milliseconds since the start, and
  never runs backwards, as long as the elapsed milliseconds times t fit a signed long.
\<close>
theorem clock_counts_ticks:
  assumes "0 \<le> t_divider tm" "start_time_ms tm \<le> now" "now \<le> later"
    and "(later - start_time_ms tm) * t_divider tm < 2 ^ 63"
  shows "uint (time_get_current_time_units (Some tm) m now) =
           (now - start_time_ms tm) * t_divider tm div 1000 \<and>
         time_get_current_time_units (Some tm) m now \<le>
           time_get_current_time_units (Some tm) m later"
proof -
  define x y where "x = (now - start_time_ms tm) * t_divider tm"
    and "y = (later - start_time_ms tm) * t_divider tm"
  have xy: "0 \<le> x" "x \<le> y" "y < 2 ^ 63"
    using assms by (auto simp: x_def y_def intro: mult_nonneg_nonneg mult_right_mono)
  have u: "uint (word_of_int (v sdiv 1000) :: u64) = v div 1000" if "0 \<le> v" "v < 2 ^ 63" for v :: int
    using that by (simp add: sdiv_nonneg uint_word_of_int)
  have 1: "uint (time_get_current_time_units (Some tm) m now) =
      (now - start_time_ms tm) * t_divider tm div 1000"
    using u [of x] xy by (simp add: time_get_current_time_units_def pick_api_def x_def)
  have "time_get_current_time_units (Some tm) m now \<le> time_get_current_time_units (Some tm) m later"
    using u [of x] u [of y] xy zdiv_mono1 [of x y 1000]
    by (simp add: time_get_current_time_units_def pick_api_def word_le_def x_def y_def)
  with 1 show ?thesis ..
qed

theorem clock_counts_ticks_witness:
  "uint (time_get_current_time_units
     (Some \<lparr>t_divider = 800, start_time_ms = 1000, current_time_units = 0\<rparr>) None 2500) =
   (2500 - start_time_ms \<lparr>t_divider = 800, start_time_ms = 1000, current_time_units = 0\<rparr>) *
     t_divider \<lparr>t_divider = 800, start_time_ms = 1000, current_time_units = 0\<rparr> div 1000 \<and>
   time_get_current_time_units
     (Some \<lparr>t_divider = 800, start_time_ms = 1000, current_time_units = 0\<rparr>) None 2500 \<le>
   time_get_current_time_units
     (Some \<lparr>t_divider = 800, start_time_ms = 1000, current_time_units = 0\<rparr>) None 9000"
  by (rule clock_counts_ticks) simp_all

end
