(* ===== verification/FtList.thy ===== *)
theory FtList
  imports Prelude
begin

text \<open>
  The intrusive circular doubly linked list of \<open>server/inc/ft_list.c\<close>, over a heap of
  list items. \<open>head\<close> is the \<open>void**\<close> argument: \<open>None\<close> when it is NULL, \<open>Some h\<close> when it points
  to the head pointer \<open>h\<close>. The third field of an item is the payload of the one user of
  the list, \<open>client_list_t\<close> of \<open>server/srcs/server/server.c\<close>; the list code never reads
  it. Loops take fuel; \<open>ring\<close> says that a heap holds the circular list of given nodes, and
  on such a heap as much fuel as there are nodes is enough.
\<close>

section \<open>The code\<close>

record list_item =
  it_next :: "nat option"
  it_prev :: "nat option"
  it_fd :: int

type_synonym items = "nat \<rightharpoonup> list_item"

definition ft_list_add_last ::
  "items \<Rightarrow> nat option option \<Rightarrow> nat option \<Rightarrow> (int \<times> items \<times> nat option option) res" where
  "ft_list_add_last hp head node =
     (case head of
        None \<Rightarrow> Inr (INVALID_ARGS, hp, head)
      | Some h \<Rightarrow>
          if node = None then Inr (INVALID_ARGS, hp, head)
          else if h = None then
            and_then (update_ref hp node (\<lambda>i. i\<lparr>it_next := node\<rparr>)) (\<lambda>hp1.
            and_then (update_ref hp1 node (\<lambda>i. i\<lparr>it_prev := node\<rparr>)) (\<lambda>hp2.
              Inr (OK, hp2, Some node)))
          else
            and_then (deref hp h) (\<lambda>first.
            let last = it_prev first in
            and_then (update_ref hp last (\<lambda>i. i\<lparr>it_next := node\<rparr>)) (\<lambda>hp1.
            and_then (update_ref hp1 node (\<lambda>i. i\<lparr>it_prev := last\<rparr>)) (\<lambda>hp2.
            and_then (update_ref hp2 node (\<lambda>i. i\<lparr>it_next := h\<rparr>)) (\<lambda>hp3.
            and_then (update_ref hp3 h (\<lambda>i. i\<lparr>it_prev := node\<rparr>)) (\<lambda>hp4.
              Inr (OK, hp4, head)))))))"

text \<open>\<open>while (p->prev != *head) p = p->prev;\<close> and its mirror image over \<open>next\<close>.\<close>

fun walk_prev :: "nat \<Rightarrow> items \<Rightarrow> nat option \<Rightarrow> nat option \<Rightarrow> (nat option) res" where
  "walk_prev 0 hp h p = Inl Out_Of_Fuel"
| "walk_prev (Suc n) hp h p =
     and_then (deref hp p) (\<lambda>i. if it_prev i \<noteq> h then walk_prev n hp h (it_prev i) else Inr p)"

fun walk_next :: "nat \<Rightarrow> items \<Rightarrow> nat option \<Rightarrow> nat option \<Rightarrow> (nat option) res" where
  "walk_next 0 hp h p = Inl Out_Of_Fuel"
| "walk_next (Suc n) hp h p =
     and_then (deref hp p) (\<lambda>i. if it_next i \<noteq> h then walk_next n hp h (it_next i) else Inr p)"

definition ft_list_add_first ::
  "nat \<Rightarrow> items \<Rightarrow> nat option option \<Rightarrow> nat option \<Rightarrow> (int \<times> items \<times> nat option option) res"
  where
  "ft_list_add_first fuel hp head node =
     (case head of
        None \<Rightarrow> Inr (INVALID_ARGS, hp, head)
      | Some h \<Rightarrow>
          if node = None then Inr (INVALID_ARGS, hp, head)
          else if h = None then
            and_then (update_ref hp h (\<lambda>i. i\<lparr>it_next := node\<rparr>)) (\<lambda>hp1.
            and_then (update_ref hp1 h (\<lambda>i. i\<lparr>it_prev := node\<rparr>)) (\<lambda>hp2.
              Inr (OK, hp2, head)))
          else
            and_then (walk_prev fuel hp h h) (\<lambda>first.
            and_then (update_ref hp first (\<lambda>i. i\<lparr>it_prev := node\<rparr>)) (\<lambda>hp1.
            and_then (update_ref hp1 node (\<lambda>i. i\<lparr>it_next := first\<rparr>)) (\<lambda>hp2.
              Inr (OK, hp2, head)))))"

definition ft_list_get_next :: "items \<Rightarrow> nat option option \<Rightarrow> nat option \<Rightarrow> (nat option) res" where
  "ft_list_get_next hp head node =
     (case head of
        None \<Rightarrow> Inr None
      | Some h \<Rightarrow>
          if node = None then Inr None
          else if h = None then Inr None
          else and_then (deref hp node) (\<lambda>i. if it_next i = h then Inr None else Inr (it_next i)))"

definition ft_list_get_prev :: "items \<Rightarrow> nat option option \<Rightarrow> nat option \<Rightarrow> (nat option) res" where
  "ft_list_get_prev hp head node =
     (case head of
        None \<Rightarrow> Inr None
      | Some h \<Rightarrow>
          if node = None then Inr None
          else if h = None then Inr None
          else and_then (deref hp node) (\<lambda>i. if it_prev i = h then Inr None else Inr (it_prev i)))"

definition ft_list_pop ::
  "items \<Rightarrow> nat option option \<Rightarrow> nat option \<Rightarrow> (int \<times> items \<times> nat option option) res" where
  "ft_list_pop hp head node =
     (case head of
        None \<Rightarrow> Inr (INVALID_ARGS, hp, head)
      | Some h \<Rightarrow>
          if node = None \<or> h = None then Inr (INVALID_ARGS, hp, head)
          else
            and_then (deref hp node) (\<lambda>i.
            let prv = it_prev i; nxt = it_next i in
            and_then
              (if node = nxt \<and> node = prv then Inr (hp, None)
               else
                 and_then (update_ref hp prv (\<lambda>j. j\<lparr>it_next := nxt\<rparr>)) (\<lambda>hp1.
                 and_then (update_ref hp1 nxt (\<lambda>j. j\<lparr>it_prev := prv\<rparr>)) (\<lambda>hp2.
                   Inr (hp2, if h = node then nxt else h)))) (\<lambda>(hp3, h').
            and_then (update_ref hp3 node (\<lambda>j. j\<lparr>it_next := None\<rparr>)) (\<lambda>hp4.
            and_then (update_ref hp4 node (\<lambda>j. j\<lparr>it_prev := None\<rparr>)) (\<lambda>hp5.
              Inr (OK, hp5, Some h'))))))"

definition ft_list_get_first :: "nat \<Rightarrow> items \<Rightarrow> nat option option \<Rightarrow> (nat option) res" where
  "ft_list_get_first fuel hp head =
     (case head of
        None \<Rightarrow> Inr None
      | Some h \<Rightarrow> if h = None then Inr None else walk_prev fuel hp h h)"

definition ft_list_get_last :: "nat \<Rightarrow> items \<Rightarrow> nat option option \<Rightarrow> (nat option) res" where
  "ft_list_get_last fuel hp head =
     (case head of
        None \<Rightarrow> Inr None
      | Some h \<Rightarrow> if h = None then Inr None else walk_next fuel hp h h)"

definition ft_list_pop_first ::
  "nat \<Rightarrow> items \<Rightarrow> nat option option \<Rightarrow> (int \<times> items \<times> nat option option) res" where
  "ft_list_pop_first fuel hp head =
     and_then (ft_list_get_first fuel hp head) (\<lambda>node. ft_list_pop hp head node)"

definition ft_list_pop_last ::
  "nat \<Rightarrow> items \<Rightarrow> nat option option \<Rightarrow> (int \<times> items \<times> nat option option) res" where
  "ft_list_pop_last fuel hp head =
     and_then (ft_list_get_last fuel hp head) (\<lambda>node. ft_list_pop hp head node)"

text \<open>\<open>do { size++; current = current->next; } while (current != *head);\<close>\<close>

fun size_loop :: "nat \<Rightarrow> items \<Rightarrow> nat option \<Rightarrow> nat option \<Rightarrow> int \<Rightarrow> int res" where
  "size_loop 0 hp h cur n = Inl Out_Of_Fuel"
| "size_loop (Suc k) hp h cur n =
     and_then (deref hp cur) (\<lambda>i.
       if it_next i \<noteq> h then size_loop k hp h (it_next i) (n + 1) else Inr (n + 1))"

definition ft_list_get_size :: "nat \<Rightarrow> items \<Rightarrow> nat option option \<Rightarrow> int res" where
  "ft_list_get_size fuel hp head =
     (case head of
        None \<Rightarrow> Inr 0
      | Some h \<Rightarrow> if h = None then Inr 0 else size_loop fuel hp h h 0)"

fun find_loop :: "nat \<Rightarrow> items \<Rightarrow> nat option \<Rightarrow> nat option \<Rightarrow> nat option \<Rightarrow> int \<Rightarrow> int res" where
  "find_loop 0 hp h node cur index = Inl Out_Of_Fuel"
| "find_loop (Suc k) hp h node cur index =
     (if cur = node then Inr index
      else and_then (deref hp cur) (\<lambda>i.
        if it_next i \<noteq> h then find_loop k hp h node (it_next i) (index + 1) else Inr FAILURE))"

definition ft_list_find_node ::
  "nat \<Rightarrow> items \<Rightarrow> nat option option \<Rightarrow> nat option \<Rightarrow> int res" where
  "ft_list_find_node fuel hp head node =
     (case head of
        None \<Rightarrow> Inr INVALID_ARGS
      | Some h \<Rightarrow>
          if node = None then Inr INVALID_ARGS
          else if h = None then Inr INVALID_ARGS
          else find_loop fuel hp h node h 0)"

section \<open>Circular lists in the heap\<close>

definition nxt :: "items \<Rightarrow> nat \<Rightarrow> nat option" where
  "nxt hp a = (case hp a of None \<Rightarrow> None | Some i \<Rightarrow> it_next i)"

definition prv :: "items \<Rightarrow> nat \<Rightarrow> nat option" where
  "prv hp a = (case hp a of None \<Rightarrow> None | Some i \<Rightarrow> it_prev i)"

definition linked :: "items \<Rightarrow> nat \<Rightarrow> nat \<Rightarrow> bool" where
  "linked hp a b \<longleftrightarrow> nxt hp a = Some b \<and> prv hp b = Some a"

text \<open>From \<open>a\<close> through the nodes \<open>xs\<close> to \<open>z\<close>, every link in both directions.\<close>

fun chain :: "items \<Rightarrow> nat \<Rightarrow> nat list \<Rightarrow> nat \<Rightarrow> bool" where
  "chain hp a [] z = linked hp a z"
| "chain hp a (b # bs) z = (linked hp a b \<and> chain hp b bs z)"

fun ring :: "items \<Rightarrow> nat option \<Rightarrow> nat list \<Rightarrow> bool" where
  "ring hp h [] = (h = None)"
| "ring hp h (x # xs) = (h = Some x \<and> distinct (x # xs) \<and> chain hp x xs x)"

lemma chain_append:
  "chain hp a (xs @ b # ys) z \<longleftrightarrow> chain hp a xs b \<and> chain hp b ys z"
  by (induction xs arbitrary: a) auto

lemma chain_cong:
  assumes "\<And>x. x \<in> insert a (set xs) \<Longrightarrow> nxt hp' x = nxt hp x"
    and "\<And>x. x \<in> insert z (set xs) \<Longrightarrow> prv hp' x = prv hp x"
  shows "chain hp' a xs z = chain hp a xs z"
  using assms by (induction xs arbitrary: a) (auto simp: linked_def)

lemma chain_last: "chain hp a xs z \<Longrightarrow> prv hp z = Some (last (a # xs))"
  by (induction xs arbitrary: a) (auto simp: linked_def)

lemma chain_first: "chain hp a xs z \<Longrightarrow> nxt hp a = Some (hd (xs @ [z]))"
  by (cases xs) (auto simp: linked_def)

lemma nxt_SomeD: "nxt hp a = Some b \<Longrightarrow> \<exists>i. hp a = Some i \<and> it_next i = Some b"
  by (auto simp: nxt_def split: option.splits)

lemma prv_SomeD: "prv hp a = Some b \<Longrightarrow> \<exists>i. hp a = Some i \<and> it_prev i = Some b"
  by (auto simp: prv_def split: option.splits)

lemma nxt_upd: "nxt (hp(a \<mapsto> i)) x = (if x = a then it_next i else nxt hp x)"
  by (simp add: nxt_def)

lemma prv_upd: "prv (hp(a \<mapsto> i)) x = (if x = a then it_prev i else prv hp x)"
  by (simp add: prv_def)

lemma chain_nth:
  "chain hp a xs z \<Longrightarrow> i \<le> length xs \<Longrightarrow>
   nxt hp ((a # xs) ! i) = Some ((xs @ [z]) ! i) \<and> prv hp ((xs @ [z]) ! i) = Some ((a # xs) ! i)"
proof (induction xs arbitrary: a i)
  case Nil
  then show ?case by (simp add: linked_def)
next
  case (Cons b bs)
  then show ?case by (cases i) (auto simp: linked_def)
qed

lemma ring_rotate:
  assumes "ring hp h (y # ys @ z # zs)"
  shows "ring hp (Some z) (z # zs @ y # ys)"
  using assms by (auto simp: chain_append)

lemma ring_head: "ring hp h xs \<Longrightarrow> xs \<noteq> [] \<Longrightarrow> h = Some (hd xs)"
  by (cases xs) auto

lemma ring_distinct: "ring hp h xs \<Longrightarrow> distinct xs"
  by (cases xs) auto

lemma ring_next:
  assumes "ring hp h xs" "i < length xs"
  shows "\<exists>it. hp (xs ! i) = Some it \<and>
    it_next it = (if Suc i < length xs then Some (xs ! Suc i) else h)"
proof -
  obtain x ys where xs: "xs = x # ys" using assms(2) by (cases xs) auto
  with assms have "chain hp x ys x" "h = Some x" "i \<le> length ys" by auto
  then have "nxt hp (xs ! i) = Some ((ys @ [x]) ! i)"
    using chain_nth [of hp x ys x i] xs by simp
  with nxt_SomeD show ?thesis
    using xs \<open>h = Some x\<close> assms(2) by (fastforce simp: nth_append)
qed

lemma ring_prev:
  assumes "ring hp h xs" "i < length xs"
  shows "\<exists>it. hp (xs ! i) = Some it \<and>
    it_prev it = Some (if i = 0 then last xs else xs ! (i - 1))"
proof -
  obtain x ys where xs: "xs = x # ys" using assms(2) by (cases xs) auto
  with assms have ch: "chain hp x ys x" "i \<le> length ys" by auto
  have "prv hp (xs ! i) = Some (if i = 0 then last xs else xs ! (i - 1))"
  proof (cases i)
    case 0
    then show ?thesis using chain_last [OF ch(1)] xs by simp
  next
    case (Suc j)
    then have "prv hp ((ys @ [x]) ! j) = Some ((x # ys) ! j)"
      using chain_nth [OF ch(1), of j] ch(2) by simp
    with Suc ch(2) xs show ?thesis by (simp add: nth_append)
  qed
  then show ?thesis using prv_SomeD by blast
qed

lemma ring_nth_neq_head:
  assumes "ring hp h xs" "0 < i" "i < length xs"
  shows "Some (xs ! i) \<noteq> h"
proof -
  have "h = Some (xs ! 0)"
    using ring_head [OF assms(1)] assms(3) by (cases xs) auto
  moreover have "xs ! i \<noteq> xs ! 0"
    using nth_eq_iff_index_eq [OF ring_distinct [OF assms(1)], of i 0] assms(2,3) by fastforce
  ultimately show ?thesis by simp
qed

text \<open>The \<open>next\<close> links alone: what the counting and searching loops look at.\<close>

definition forward :: "items \<Rightarrow> nat option \<Rightarrow> nat list \<Rightarrow> bool" where
  "forward hp h xs \<longleftrightarrow> distinct xs \<and> xs \<noteq> [] \<and> h = Some (hd xs) \<and>
     (\<forall>i < length xs. \<exists>it. hp (xs ! i) = Some it \<and>
        it_next it = (if Suc i < length xs then Some (xs ! Suc i) else h))"

lemma ring_forward: "ring hp h xs \<Longrightarrow> xs \<noteq> [] \<Longrightarrow> forward hp h xs"
  by (simp add: forward_def ring_distinct ring_head ring_next)

lemma forward_next:
  "forward hp h xs \<Longrightarrow> i < length xs \<Longrightarrow>
   \<exists>it. hp (xs ! i) = Some it \<and> it_next it = (if Suc i < length xs then Some (xs ! Suc i) else h)"
  by (simp add: forward_def)

lemma forward_neq_head:
  assumes "forward hp h xs" "0 < i" "i < length xs"
  shows "Some (xs ! i) \<noteq> h"
  using nth_eq_iff_index_eq [of xs i 0] assms by (auto simp: forward_def hd_conv_nth)

section \<open>What the operations do on a circular list\<close>

lemma add_last_empty:
  assumes "ring hp h []" "hp n = Some i"
  shows "\<exists>hp'. ft_list_add_last hp (Some h) (Some n) = Inr (OK, hp', Some (Some n)) \<and>
           ring hp' (Some n) [n]"
  using assms
  by (auto simp: ft_list_add_last_def update_ref_def linked_def nxt_def prv_def)

lemma add_last_nonempty:
  assumes "ring hp h (x # xs)" "hp n = Some i" "n \<notin> set (x # xs)"
  shows "\<exists>hp'. ft_list_add_last hp (Some h) (Some n) = Inr (OK, hp', Some h) \<and>
           ring hp' h (x # xs @ [n]) \<and> (\<forall>a. a \<notin> insert n (set (x # xs)) \<longrightarrow> hp' a = hp a)"
proof -
  define l where "l = last (x # xs)"
  have h: "h = Some x" and ch: "chain hp x xs x" and dist: "distinct (x # xs)"
    using assms(1) by auto
  obtain ix where ix: "hp x = Some ix" "it_prev ix = Some l"
    using chain_last [OF ch] prv_SomeD l_def by blast
  have lin: "l \<in> set (x # xs)" unfolding l_def by (rule last_in_set) simp
  obtain il where il: "hp l = Some il"
    using ring_next [OF assms(1)] lin by (metis in_set_conv_nth)
  define hp1 where "hp1 = hp(l \<mapsto> il\<lparr>it_next := Some n\<rparr>)"
  define hp2 where "hp2 = hp1(n \<mapsto> i\<lparr>it_prev := Some l\<rparr>)"
  define hp3 where "hp3 = hp2(n \<mapsto> i\<lparr>it_prev := Some l, it_next := Some x\<rparr>)"
  define ix3 where "ix3 = (if x = l then il\<lparr>it_next := Some n\<rparr> else ix)"
  define hp4 where "hp4 = hp3(x \<mapsto> ix3\<lparr>it_prev := Some n\<rparr>)"
  have nn: "n \<noteq> l" "n \<noteq> x" using lin assms(3) by auto
  have hp3x: "hp3 x = Some ix3"
    using nn ix by (auto simp: hp3_def hp2_def hp1_def ix3_def)
  have run: "ft_list_add_last hp (Some h) (Some n) = Inr (OK, hp4, Some h)"
    using nn il ix assms(2) hp3x
    by (simp add: ft_list_add_last_def h deref_def update_ref_def hp1_def hp2_def hp3_def hp4_def
        ix3_def)
  have nx: "nxt hp4 a = (if a = l then Some n else if a = n then Some x else nxt hp a)" for a
    using nn ix il by (auto simp: hp4_def hp3_def hp2_def hp1_def ix3_def nxt_def)
  have pv: "prv hp4 a = (if a = x then Some n else if a = n then Some l else prv hp a)" for a
    using nn ix il by (auto simp: hp4_def hp3_def hp2_def hp1_def ix3_def prv_def)
  have "chain hp4 x (xs @ [n]) x"
  proof (cases xs rule: rev_cases)
    case Nil
    then show ?thesis using nn by (simp add: linked_def nx pv l_def)
  next
    case (snoc ys y)
    then have ly: "l = y" by (simp add: l_def)
    have "chain hp x ys y" using ch snoc by (simp add: chain_append)
    moreover have "chain hp4 x ys y = chain hp x ys y"
      using dist snoc assms(3) nn by (intro chain_cong) (auto simp: nx pv ly)
    ultimately show ?thesis
      using nn by (simp add: snoc chain_append linked_def nx pv ly)
  qed
  then have "ring hp4 h (x # xs @ [n])"
    using dist assms(3) h by auto
  moreover have "\<forall>a. a \<notin> insert n (set (x # xs)) \<longrightarrow> hp4 a = hp a"
    using lin by (auto simp: hp4_def hp3_def hp2_def hp1_def)
  ultimately show ?thesis using run by blast
qed

text \<open>Both cases at once, with what the function leaves alone.\<close>

lemma add_last_ring:
  assumes "ring hp h xs" "hp n = Some i" "n \<notin> set xs"
  shows "\<exists>hp' h'. ft_list_add_last hp (Some h) (Some n) = Inr (OK, hp', Some h') \<and> ring hp' h' (xs @ [n])"
  using assms add_last_empty [of hp h n i] add_last_nonempty [of hp h "hd xs" "tl xs" n i]
  by (cases xs) auto

lemma add_last_keeps_fd:
  "ft_list_add_last hp (Some h) (Some n) = Inr (r, hp', h') \<Longrightarrow>
   map_option it_fd (hp' a) = map_option it_fd (hp a)"
  by (auto simp: ft_list_add_last_def and_then_eq_Inr update_ref_eq_Inr Let_def split: if_splits)

lemma ring_alloc: "ring hp h xs \<Longrightarrow> x \<in> set xs \<Longrightarrow> hp x \<noteq> None"
  using ring_next [of hp h xs] by (auto simp: in_set_conv_nth)

lemma walk_next_forward:
  assumes "forward hp h xs" "i < length xs" "length xs - i \<le> fuel"
  shows "walk_next fuel hp h (Some (xs ! i)) = Inr (Some (last xs))"
  using assms(2,3)
proof (induction fuel arbitrary: i)
  case 0
  then show ?case by simp
next
  case (Suc fuel)
  obtain it where it: "hp (xs ! i) = Some it"
    "it_next it = (if Suc i < length xs then Some (xs ! Suc i) else h)"
    using forward_next [OF assms(1) Suc.prems(1)] by blast
  show ?case
  proof (cases "Suc i < length xs")
    case True
    with it forward_neq_head [OF assms(1), of "Suc i"] Suc.IH [of "Suc i"] Suc.prems
    show ?thesis by (simp add: deref_def)
  next
    case False
    then have "i = length xs - 1" using Suc.prems by simp
    then have "xs ! i = last xs" using Suc.prems by (cases xs) (auto simp: last_conv_nth)
    with False it show ?thesis by (simp add: deref_def)
  qed
qed

lemma size_loop_forward:
  assumes "forward hp h xs" "i < length xs" "length xs - i \<le> fuel"
  shows "size_loop fuel hp h (Some (xs ! i)) n = Inr (n + int (length xs - i))"
  using assms(2,3)
proof (induction fuel arbitrary: i n)
  case 0
  then show ?case by simp
next
  case (Suc fuel)
  obtain it where it: "hp (xs ! i) = Some it"
    "it_next it = (if Suc i < length xs then Some (xs ! Suc i) else h)"
    using forward_next [OF assms(1) Suc.prems(1)] by blast
  show ?case
  proof (cases "Suc i < length xs")
    case True
    with it forward_neq_head [OF assms(1), of "Suc i"] Suc.IH [of "Suc i" "n + 1"] Suc.prems
    show ?thesis by (simp add: deref_def)
  next
    case False
    then have "length xs - i = 1" using Suc.prems by simp
    with False it show ?thesis by (simp add: deref_def)
  qed
qed

lemma find_loop_forward:
  assumes "forward hp h xs" "i < length xs" "length xs - i \<le> fuel"
  shows "find_loop fuel hp h (Some n) (Some (xs ! i)) k =
    (if n \<in> set (drop i xs) then Inr (k + int (length (takeWhile (\<lambda>a. a \<noteq> n) (drop i xs))))
     else Inr FAILURE)"
  using assms(2,3)
proof (induction fuel arbitrary: i k)
  case 0
  then show ?case by simp
next
  case (Suc fuel)
  have d: "drop i xs = xs ! i # drop (Suc i) xs"
    using Suc.prems(1) by (simp add: Cons_nth_drop_Suc)
  obtain it where it: "hp (xs ! i) = Some it"
    "it_next it = (if Suc i < length xs then Some (xs ! Suc i) else h)"
    using forward_next [OF assms(1) Suc.prems(1)] by blast
  show ?case
  proof (cases "Suc i < length xs")
    case True
    with it d forward_neq_head [OF assms(1), of "Suc i"] Suc.IH [of "Suc i" "k + 1"] Suc.prems
    show ?thesis by (auto simp: deref_def)
  next
    case False
    with it d show ?thesis by (auto simp: deref_def)
  qed
qed

lemma walk_prev_ring:
  assumes "ring hp h xs" "0 < i" "i < length xs" "i \<le> fuel"
  shows "walk_prev fuel hp h (Some (xs ! i)) = Inr (Some (xs ! 1))"
  using assms(2-4)
proof (induction fuel arbitrary: i)
  case 0
  then show ?case by simp
next
  case (Suc fuel)
  obtain it where it: "hp (xs ! i) = Some it" "it_prev it = Some (xs ! (i - 1))"
    using ring_prev [OF assms(1) Suc.prems(2)] Suc.prems(1) by auto
  have h: "h = Some (xs ! 0)"
    using ring_head [OF assms(1)] Suc.prems(2) by (cases xs) auto
  show ?case
  proof (cases "i = 1")
    case True
    with it h show ?thesis by (simp add: deref_def)
  next
    case False
    with it ring_nth_neq_head [OF assms(1), of "i - 1"] Suc.IH [of "i - 1"] Suc.prems
    show ?thesis by (simp add: deref_def)
  qed
qed

lemma walk_prev_head:
  assumes "ring hp h xs" "xs \<noteq> []" "length xs \<le> fuel"
  shows "walk_prev fuel hp h h = Inr (Some (if length xs = 1 then xs ! 0 else xs ! 1))"
proof -
  obtain k where k: "fuel = Suc k" using assms(2,3) by (cases fuel) auto
  have h: "h = Some (xs ! 0)"
    using ring_head [OF assms(1,2)] assms(2) by (simp add: hd_conv_nth)
  obtain it where it: "hp (xs ! 0) = Some it" "it_prev it = Some (last xs)"
    using ring_prev [OF assms(1), of 0] assms(2) by auto
  have lst: "last xs = xs ! (length xs - 1)" using assms(2) by (rule last_conv_nth)
  show ?thesis
  proof (cases "length xs = 1")
    case True
    with lst have "last xs = xs ! 0" by simp
    with True it show ?thesis by (simp add: k h deref_def)
  next
    case False
    then have pos: "0 < length xs - 1" using assms(2) by (cases xs) auto
    then have "Some (xs ! (length xs - 1)) \<noteq> h"
      using ring_nth_neq_head [OF assms(1) pos] assms(2) by simp
    with it lst have "walk_prev fuel hp h h = walk_prev k hp h (Some (xs ! (length xs - 1)))"
      by (simp add: k h [symmetric] deref_def) (simp add: h deref_def)
    also have "\<dots> = Inr (Some (xs ! 1))"
      using pos assms(3) k by (intro walk_prev_ring [OF assms(1)]) auto
    finally show ?thesis using False by simp
  qed
qed

lemma ring_rotate_append:
  assumes "ring hp h (ys @ zs)" "ys \<noteq> []" "zs \<noteq> []"
  shows "ring hp (Some (hd zs)) (zs @ ys)"
  using assms ring_rotate by (metis append_Cons list.exhaust list.sel(1))

lemma unlink_first:
  assumes "ring hp (Some a) (a # q # rs)"
  defines "p \<equiv> last (q # rs)"
  shows "\<exists>hp'. ft_list_pop hp (Some h) (Some a) =
           (if h = None then Inr (INVALID_ARGS, hp, Some h)
            else Inr (OK, hp', Some (if h = Some a then Some q else h))) \<and>
           ring hp' (Some q) (q # rs) \<and> nxt hp' a = None \<and> prv hp' a = None"
proof -
  have dist: "distinct (a # q # rs)" and lk: "linked hp a q" and ch: "chain hp q rs a"
    using assms(1) by auto
  obtain ia where ia: "hp a = Some ia" "it_next ia = Some q" "it_prev ia = Some p"
    using lk chain_last [OF ch] by (auto simp: linked_def nxt_def prv_def p_def split: option.splits)
  have pin: "p \<in> set (q # rs)" unfolding p_def by (rule last_in_set) simp
  obtain ip where ip: "hp p = Some ip"
    using ring_next [OF assms(1)] pin by (metis in_set_conv_nth list.set_intros(2))
  obtain iq where iq: "hp q = Some iq"
    using ring_next [OF assms(1), of 1] by auto
  have ne: "p \<noteq> a" "q \<noteq> a" using dist pin by auto
  define hp1 where "hp1 = hp(p \<mapsto> ip\<lparr>it_next := Some q\<rparr>)"
  define iq1 where "iq1 = (if q = p then ip\<lparr>it_next := Some q\<rparr> else iq)"
  define hp2 where "hp2 = hp1(q \<mapsto> iq1\<lparr>it_prev := Some p\<rparr>)"
  define hp5 where "hp5 = hp2(a \<mapsto> ia\<lparr>it_next := None, it_prev := None\<rparr>)"
  have hp1q: "hp1 q = Some iq1" using iq by (simp add: hp1_def iq1_def)
  have hp2a: "hp2 a = Some ia" using ne ia by (simp add: hp2_def hp1_def)
  have run: "ft_list_pop hp (Some h) (Some a) =
      (if h = None then Inr (INVALID_ARGS, hp, Some h)
       else Inr (OK, hp5, Some (if h = Some a then Some q else h)))"
    using ia ip ne hp1q hp2a
    by (auto simp: ft_list_pop_def deref_def update_ref_def Let_def hp1_def [symmetric]
        hp2_def [symmetric] hp5_def)
  have nx: "nxt hp5 x = (if x = a then None else if x = p then Some q else nxt hp x)" for x
    using ne ip iq by (auto simp: hp5_def hp2_def hp1_def iq1_def nxt_def)
  have pv: "prv hp5 x = (if x = a then None else if x = q then Some p else prv hp x)" for x
    using ne ip iq by (auto simp: hp5_def hp2_def hp1_def iq1_def prv_def)
  have "chain hp5 q rs q"
  proof (cases rs rule: rev_cases)
    case Nil
    then show ?thesis using ne by (simp add: linked_def nx pv p_def)
  next
    case (snoc ms m)
    then have pm: "p = m" by (simp add: p_def)
    have "chain hp q ms m" using ch snoc by (simp add: chain_append)
    moreover have "chain hp5 q ms m = chain hp q ms m"
      using dist snoc by (intro chain_cong) (auto simp: nx pv pm)
    ultimately show ?thesis
      using ne by (simp add: snoc chain_append linked_def nx pv pm)
  qed
  then have "ring hp5 (Some q) (q # rs)" using dist by simp
  then show ?thesis using run ne by (auto simp: nx pv)
qed

lemma pop_ring:
  assumes "ring hp h (ys @ a # zs)"
  shows "\<exists>hp' h'. ft_list_pop hp (Some h) (Some a) = Inr (OK, hp', Some h') \<and>
           ring hp' h' (ys @ zs) \<and> nxt hp' a = None \<and> prv hp' a = None"
proof (cases "ys = [] \<and> zs = []")
  case True
  then show ?thesis
    using assms
    by (auto simp: ft_list_pop_def deref_def update_ref_def linked_def nxt_def prv_def Let_def
        split: option.splits)
next
  case False
  have h: "h = Some (hd (ys @ [a]))"
    using ring_head [OF assms] by (cases ys) auto
  have "ring hp (Some a) ((a # zs) @ ys)"
    using assms ring_rotate_append [of hp h ys "a # zs"] h by (cases "ys = []") auto
  moreover obtain q rs where q: "zs @ ys = q # rs"
    using False by (cases "zs @ ys") auto
  ultimately have "ring hp (Some a) (a # q # rs)" by simp
  from unlink_first [OF this, of h] h obtain hp' where hp':
    "ft_list_pop hp (Some h) (Some a) = Inr (OK, hp', Some (if h = Some a then Some q else h))"
    "ring hp' (Some q) (zs @ ys)" "nxt hp' a = None" "prv hp' a = None"
    using q by auto
  have "ring hp' (if h = Some a then Some q else h) (ys @ zs)"
  proof (cases ys)
    case Nil
    then show ?thesis using h hp'(2) by simp
  next
    case (Cons y ys')
    then have "y \<noteq> a" using ring_distinct [OF assms] by auto
    moreover have "ring hp' (Some y) (ys @ zs)"
      using hp'(2) ring_rotate_append [of hp' "Some q" zs ys] Cons q by (cases "zs = []") auto
    ultimately show ?thesis using h Cons by simp
  qed
  with hp' show ?thesis by blast
qed

lemma forward_update:
  assumes "forward hp h xs" "\<And>a. a \<in> set xs \<Longrightarrow> hp' a \<noteq> None \<and> nxt hp' a = nxt hp a"
  shows "forward hp' h xs"
proof -
  have "\<exists>it. hp' (xs ! i) = Some it \<and>
      it_next it = (if Suc i < length xs then Some (xs ! Suc i) else h)"
    if i: "i < length xs" for i
    using forward_next [OF assms(1) i] assms(2) [of "xs ! i"] i
    by (fastforce simp: nxt_def)
  then show ?thesis using assms(1) unfolding forward_def by blast
qed

lemma add_first_forward:
  assumes r: "ring hp h (x # xs)" and f: "length (x # xs) \<le> fuel" and n: "n \<notin> set (x # xs)"
    and i: "hp n = Some i"
  shows "\<exists>hp'. ft_list_add_first fuel hp (Some h) (Some n) = Inr (OK, hp', Some h) \<and>
        ft_list_get_size fuel hp' (Some h) = Inr (int (length (x # xs))) \<and>
        ft_list_find_node fuel hp' (Some h) (Some n) = Inr FAILURE"
proof -
  define p where "p = (if length (x # xs) = 1 then (x # xs) ! 0 else (x # xs) ! 1)"
  have walk: "walk_prev fuel hp h h = Inr (Some p)"
    unfolding p_def using r f by (intro walk_prev_head) auto
  have pin: "p \<in> set (x # xs)" by (cases xs) (auto simp: p_def)
  have h: "h = Some x" using r by simp
  obtain ip where ip: "hp p = Some ip"
    using ring_next [OF r] pin by (metis in_set_conv_nth)
  define hp' where "hp' = hp(p \<mapsto> ip\<lparr>it_prev := Some n\<rparr>, n \<mapsto> i\<lparr>it_next := Some p\<rparr>)"
  have run: "ft_list_add_first fuel hp (Some h) (Some n) = Inr (OK, hp', Some h)"
    using walk pin n ip i
    by (auto simp: ft_list_add_first_def h update_ref_def hp'_def split: option.splits)
  have all: "hp a \<noteq> None" if "a \<in> set (x # xs)" for a
    using ring_next [OF r] that by (metis in_set_conv_nth option.distinct(1))
  have fw: "forward hp' h (x # xs)"
  proof (rule forward_update)
    show "forward hp h (x # xs)" using r by (intro ring_forward) auto
    show "hp' a \<noteq> None \<and> nxt hp' a = nxt hp a" if "a \<in> set (x # xs)" for a
      using that n ip all [OF that] by (auto simp: hp'_def nxt_def)
  qed
  have l: "0 < length (x # xs)" "length (x # xs) - 0 \<le> fuel" using f by auto
  show ?thesis
    using run size_loop_forward [OF fw l, of 0] find_loop_forward [OF fw l, of n 0] n
    by (simp add: ft_list_get_size_def ft_list_find_node_def h)
qed

section \<open>Properties\<close>

text \<open>Two items in a ring with head 1, and a third one not yet linked.\<close>

definition two_items :: items where
  "two_items = [1 \<mapsto> \<lparr>it_next = Some 2, it_prev = Some 2, it_fd = 5\<rparr>,
                2 \<mapsto> \<lparr>it_next = Some 1, it_prev = Some 1, it_fd = 6\<rparr>,
                3 \<mapsto> \<lparr>it_next = None, it_prev = None, it_fd = 7\<rparr>]"

lemma two_items_ring: "ring two_items (Some 1) [1, 2]"
  by (simp add: two_items_def linked_def nxt_def prv_def)

text \<open>
  C29: \<open>ft_list_add_last\<close> puts a node that is not yet in the list behind all the nodes of a
  circular list (empty or not): it returns OK, and the heap then holds the circular list of
  the old nodes followed by the new one.
\<close>
theorem add_last_appends:
  assumes "ring hp h xs" "hp n = Some i" "n \<notin> set xs"
  shows "\<exists>hp' h'. ft_list_add_last hp (Some h) (Some n) = Inr (OK, hp', Some h') \<and>
           ring hp' h' (xs @ [n])"
proof (cases xs)
  case Nil
  with assms add_last_empty [of hp h n i] show ?thesis by auto
next
  case (Cons x ys)
  with assms add_last_nonempty [of hp h x ys n i] show ?thesis by auto
qed

theorem add_last_appends_witness:
  "\<exists>hp' h'. ft_list_add_last two_items (Some (Some 1)) (Some 3) = Inr (OK, hp', Some h') \<and>
     ring hp' h' ([1, 2] @ [3])"
  by (rule add_last_appends [OF two_items_ring]) (simp_all add: two_items_def)

text \<open>
  On the circular list of the nodes \<open>xs\<close> the loops end after at most \<open>length xs\<close>
  rounds: \<open>ft_list_get_size\<close> counts the nodes, \<open>ft_list_get_last\<close> finds the last one, and
  \<open>ft_list_find_node\<close> returns the index of a member and FAILURE for any other node.
\<close>
theorem traversals_end:
  assumes "ring hp h xs" "xs \<noteq> []" "length xs \<le> fuel"
  shows "ft_list_get_size fuel hp (Some h) = Inr (int (length xs)) \<and>
         ft_list_get_last fuel hp (Some h) = Inr (Some (last xs)) \<and>
         (\<forall>n. ft_list_find_node fuel hp (Some h) (Some n) =
            Inr (if n \<in> set xs then int (length (takeWhile (\<lambda>a. a \<noteq> n) xs)) else FAILURE))"
proof -
  have h: "h = Some (xs ! 0)"
    using ring_head [OF assms(1,2)] assms(2) by (simp add: hd_conv_nth)
  have l: "0 < length xs" "length xs - 0 \<le> fuel" using assms(2,3) by auto
  show ?thesis
    using size_loop_forward [OF ring_forward [OF assms(1,2)] l, of 0]
      walk_next_forward [OF ring_forward [OF assms(1,2)] l]
      find_loop_forward [OF ring_forward [OF assms(1,2)] l]
    by (simp add: ft_list_get_size_def ft_list_get_last_def ft_list_find_node_def h)
qed

theorem traversals_end_witness:
  "ft_list_get_size 2 two_items (Some (Some 1)) = Inr (int (length [1, 2 :: nat])) \<and>
   ft_list_get_last 2 two_items (Some (Some 1)) = Inr (Some (last [1, 2])) \<and>
   (\<forall>n. ft_list_find_node 2 two_items (Some (Some 1)) (Some n) =
      Inr (if n \<in> set [1, 2] then int (length (takeWhile (\<lambda>a. a \<noteq> n) [1, 2])) else FAILURE))"
  by (rule traversals_end [OF two_items_ring]) simp_all

text \<open>
  \<open>ft_list_get_first\<close> does not return the first node of a list of two or more: walking
  \<open>prev\<close> from the head it stops at the node behind the head, so the second one is returned.
  Only on a list of one node is the answer the first node.
\<close>
theorem get_first_returns_second:
  assumes "ring hp h xs" "xs \<noteq> []" "length xs \<le> fuel"
  shows "ft_list_get_first fuel hp (Some h) =
           Inr (Some (if length xs = 1 then xs ! 0 else xs ! 1))"
  using walk_prev_head [OF assms] ring_head [OF assms(1,2)]
  by (simp add: ft_list_get_first_def)

theorem get_first_returns_second_witness:
  "ft_list_get_first 2 two_items (Some (Some 1)) =
     Inr (Some (if length [1, 2 :: nat] = 1 then [1, 2] ! 0 else [1, 2] ! 1))"
  by (rule get_first_returns_second [OF two_items_ring]) simp_all

text \<open>
  C30: \<open>ft_list_pop\<close> takes any node out of a circular list: it returns OK, the others stay
  a circular list in the same order (the head moves on when the head was popped, and
  becomes NULL when the list is empty), and the node's own links are cleared.
\<close>
theorem pop_removes:
  assumes "ring hp h (ys @ a # zs)"
  shows "\<exists>hp' h'. ft_list_pop hp (Some h) (Some a) = Inr (OK, hp', Some h') \<and>
           ring hp' h' (ys @ zs) \<and> nxt hp' a = None \<and> prv hp' a = None"
  using assms by (rule pop_ring)

theorem pop_removes_witness:
  "\<exists>hp' h'. ft_list_pop two_items (Some (Some 1)) (Some 2) = Inr (OK, hp', Some h') \<and>
     ring hp' h' ([1] @ []) \<and> nxt hp' 2 = None \<and> prv hp' 2 = None"
  by (rule pop_removes) (use two_items_ring in simp)

text \<open>
  \<open>ft_list_add_first\<close> never adds its node: on an empty list it dereferences the NULL
  head, and on a circular list it returns OK although the node is on no \<open>next\<close> path, so
  that the size is the old one and the node is not found.
\<close>
theorem add_first_adds_nothing:
  "ft_list_add_first fuel hp (Some None) (Some n) = Inl Null_Deref \<and>
   (ring hp h (x # xs) \<and> length (x # xs) \<le> fuel \<and> n \<notin> set (x # xs) \<and> hp n = Some i \<longrightarrow>
     (\<exists>hp'. ft_list_add_first fuel hp (Some h) (Some n) = Inr (OK, hp', Some h) \<and>
        ft_list_get_size fuel hp' (Some h) = Inr (int (length (x # xs))) \<and>
        ft_list_find_node fuel hp' (Some h) (Some n) = Inr FAILURE))"
proof -
  have "ft_list_add_first fuel hp (Some None) (Some n) = Inl Null_Deref"
    by (simp add: ft_list_add_first_def)
  then show ?thesis using add_first_forward [of hp h x xs fuel n i] by blast
qed

theorem add_first_adds_nothing_witness:
  "ft_list_add_first 2 two_items (Some None) (Some 3) = Inl Null_Deref \<and>
   (\<exists>hp'. ft_list_add_first 2 two_items (Some (Some 1)) (Some 3) = Inr (OK, hp', Some (Some 1)) \<and>
      ft_list_get_size 2 hp' (Some (Some 1)) = Inr (int (length [1, 2 :: nat])) \<and>
      ft_list_find_node 2 hp' (Some (Some 1)) (Some 3) = Inr FAILURE)"
  using add_first_adds_nothing [of 2 two_items 3 "Some 1" 1 "[2]"
      "\<lparr>it_next = None, it_prev = None, it_fd = 7\<rparr>"] two_items_ring
  by (simp add: two_items_def)

end
