(* ===== verification/SslTable.thy ===== *)
theory SslTable
  imports Prelude
begin

text \<open>
  The table from file descriptors to TLS sessions, \<open>server/srcs/server/ssl_table.c\<close>: 128
  buckets of chained entries, new entries at the head of their chain. A chain is a list of
  (fd, session) pairs. The abstract view is a finite map from descriptors to sessions; the
  contract is the locale \<open>fd_map\<close>, interpreted on the table at the end. \<open>wf_table\<close> is the
  invariant: 128 buckets, every entry in the bucket its descriptor hashes to, no descriptor
  twice. Running out of memory ends the process in the C code and is not modelled.
\<close>

section \<open>The code\<close>

abbreviation (input) INITIAL_BUCKET_COUNT :: nat where
  "INITIAL_BUCKET_COUNT \<equiv> 128"

record 'ssl ssl_table =
  buckets :: "(int \<times> 'ssl) list list"
  bucket_count :: nat
  ssl_table_initialized :: bool

definition no_table :: "'ssl ssl_table" where
  "no_table = \<lparr>buckets = [], bucket_count = 0, ssl_table_initialized = False\<rparr>"

text \<open>\<open>(size_t)fd % table.bucket_count\<close>: the descriptor is converted to 64 bits unsigned.\<close>

definition hash_fd :: "'ssl ssl_table \<Rightarrow> int \<Rightarrow> nat res" where
  "hash_fd t fd =
     (if bucket_count t = 0 then Inl Div_By_Zero
      else Inr (unat (word_of_int fd :: u64) mod bucket_count t))"

definition ssl_table_init :: "'ssl ssl_table \<Rightarrow> 'ssl ssl_table" where
  "ssl_table_init t =
     t\<lparr>bucket_count := INITIAL_BUCKET_COUNT, buckets := replicate INITIAL_BUCKET_COUNT [],
       ssl_table_initialized := True\<rparr>"

definition ssl_table_free :: "'ssl ssl_table \<Rightarrow> 'ssl ssl_table" where
  "ssl_table_free t =
     (if \<not> ssl_table_initialized t then t else t\<lparr>buckets := [], bucket_count := 0\<rparr>)"

fun chain_update :: "int \<Rightarrow> 'ssl \<Rightarrow> (int \<times> 'ssl) list \<Rightarrow> (int \<times> 'ssl) list option" where
  "chain_update fd ssl [] = None"
| "chain_update fd ssl ((fd', s) # es) =
     (if fd' = fd then Some ((fd', ssl) # es) else map_option ((#) (fd', s)) (chain_update fd ssl es))"

definition ssl_table_add :: "int \<Rightarrow> 'ssl \<Rightarrow> 'ssl ssl_table \<Rightarrow> (int \<times> 'ssl ssl_table) res" where
  "ssl_table_add fd ssl t =
     (if \<not> ssl_table_initialized t then Inr (ERROR, t)
      else
        and_then (hash_fd t fd) (\<lambda>index.
        and_then (arr_get (buckets t) (int index)) (\<lambda>chain.
          case chain_update fd ssl chain of
            Some chain' \<Rightarrow> Inr (SUCCESS, t\<lparr>buckets := (buckets t)[index := chain']\<rparr>)
          | None \<Rightarrow> Inr (SUCCESS, t\<lparr>buckets := (buckets t)[index := (fd, ssl) # chain]\<rparr>))))"

fun chain_get :: "int \<Rightarrow> (int \<times> 'ssl) list \<Rightarrow> 'ssl option" where
  "chain_get fd [] = None"
| "chain_get fd ((fd', s) # es) = (if fd' = fd then Some s else chain_get fd es)"

definition ssl_table_get :: "int \<Rightarrow> 'ssl ssl_table \<Rightarrow> ('ssl option) res" where
  "ssl_table_get fd t =
     (if \<not> ssl_table_initialized t then Inr None
      else
        and_then (hash_fd t fd) (\<lambda>index.
        and_then (arr_get (buckets t) (int index)) (\<lambda>chain. Inr (chain_get fd chain))))"

fun chain_remove :: "int \<Rightarrow> (int \<times> 'ssl) list \<Rightarrow> (int \<times> 'ssl) list" where
  "chain_remove fd [] = []"
| "chain_remove fd ((fd', s) # es) = (if fd' = fd then es else (fd', s) # chain_remove fd es)"

definition ssl_table_remove :: "int \<Rightarrow> 'ssl ssl_table \<Rightarrow> 'ssl ssl_table res" where
  "ssl_table_remove fd t =
     (if \<not> ssl_table_initialized t then Inr t
      else
        and_then (hash_fd t fd) (\<lambda>index.
        and_then (arr_get (buckets t) (int index)) (\<lambda>chain.
          Inr (t\<lparr>buckets := (buckets t)[index := chain_remove fd chain]\<rparr>))))"

section \<open>The contract of a descriptor table\<close>

locale fd_map =
  fixes ok :: "'t \<Rightarrow> bool"
    and look :: "'t \<Rightarrow> int \<Rightarrow> 'v option"
    and upd :: "int \<Rightarrow> 'v \<Rightarrow> 't \<Rightarrow> 't"
    and del :: "int \<Rightarrow> 't \<Rightarrow> 't"
  assumes ok_upd: "ok t \<Longrightarrow> ok (upd k v t)"
    and ok_del: "ok t \<Longrightarrow> ok (del k t)"
    and look_upd: "ok t \<Longrightarrow> look (upd k v t) = (look t)(k \<mapsto> v)"
    and look_del: "ok t \<Longrightarrow> look (del k t) = (look t)(k := None)"
begin

lemma look_after_upd: "ok t \<Longrightarrow> look (upd k v t) k = Some v"
  by (simp add: look_upd)

lemma look_after_del: "ok t \<Longrightarrow> look (del k t) k = None"
  by (simp add: look_del)

lemma look_other: "ok t \<Longrightarrow> k \<noteq> k' \<Longrightarrow> look (upd k v t) k' = look t k' \<and> look (del k t) k' = look t k'"
  by (simp add: look_upd look_del)

text \<open>A whole history of sign-ons (\<open>Some\<close> session) and sign-offs (\<open>None\<close>).\<close>

lemma look_history:
  "ok t \<Longrightarrow>
   ok (fold (\<lambda>(k, v) t. case v of Some s \<Rightarrow> upd k s t | None \<Rightarrow> del k t) ops t) \<and>
   look (fold (\<lambda>(k, v) t. case v of Some s \<Rightarrow> upd k s t | None \<Rightarrow> del k t) ops t)
     = fold (\<lambda>(k, v) m. m(k := v)) ops (look t)"
proof (induction ops arbitrary: t)
  case Nil
  then show ?case by simp
next
  case (Cons op ops)
  obtain k v where op: "op = (k, v)" by (cases op)
  let ?t = "case v of Some s \<Rightarrow> upd k s t | None \<Rightarrow> del k t"
  have "ok ?t" "look ?t = (look t)(k := v)"
    using Cons.prems by (auto simp: ok_upd ok_del look_upd look_del split: option.splits)
  with Cons.IH [of ?t] show ?case by (simp add: op)
qed

end

section \<open>The table is a map\<close>

definition bucket_of :: "int \<Rightarrow> nat" where
  "bucket_of fd = unat (word_of_int fd :: u64) mod 128"

definition wf_table :: "'ssl ssl_table \<Rightarrow> bool" where
  "wf_table t \<longleftrightarrow> ssl_table_initialized t \<and> bucket_count t = 128 \<and> length (buckets t) = 128 \<and>
     (\<forall>i < 128. distinct (map fst (buckets t ! i)) \<and>
        (\<forall>e \<in> set (buckets t ! i). bucket_of (fst e) = i))"

definition lookup :: "'ssl ssl_table \<Rightarrow> int \<Rightarrow> 'ssl option" where
  "lookup t fd = chain_get fd (buckets t ! bucket_of fd)"

text \<open>The table after an operation (it does not fail on a well-formed table).\<close>

definition table_add :: "int \<Rightarrow> 'ssl \<Rightarrow> 'ssl ssl_table \<Rightarrow> 'ssl ssl_table" where
  "table_add fd ssl t = (case ssl_table_add fd ssl t of Inr (r, t') \<Rightarrow> t' | Inl e \<Rightarrow> t)"

definition table_remove :: "int \<Rightarrow> 'ssl ssl_table \<Rightarrow> 'ssl ssl_table" where
  "table_remove fd t = (case ssl_table_remove fd t of Inr t' \<Rightarrow> t' | Inl e \<Rightarrow> t)"

lemma bucket_of_less [simp]: "bucket_of fd < 128"
  by (simp add: bucket_of_def)

lemma hash_fd_wf [simp]: "wf_table t \<Longrightarrow> hash_fd t fd = Inr (bucket_of fd)"
  by (simp add: hash_fd_def wf_table_def bucket_of_def)

lemma wf_tableD:
  assumes "wf_table t"
  shows "ssl_table_initialized t" "length (buckets t) = 128"
    "arr_get (buckets t) (int (bucket_of fd)) = Inr (buckets t ! bucket_of fd)"
    "distinct (map fst (buckets t ! bucket_of fd))"
  using assms by (auto simp: wf_table_def)

lemma wf_table_init: "wf_table (ssl_table_init t)"
  by (simp add: wf_table_def ssl_table_init_def)

lemma lookup_init [simp]: "lookup (ssl_table_init t) = Map.empty"
  by (simp add: fun_eq_iff lookup_def ssl_table_init_def)

lemma chain_update_None: "chain_update fd ssl es = None \<longleftrightarrow> fd \<notin> fst ` set es"
  by (induction fd ssl es rule: chain_update.induct) auto

lemma chain_update_fst: "chain_update fd ssl es = Some es' \<Longrightarrow> map fst es' = map fst es"
  by (induction es arbitrary: es') (auto split: if_splits)

lemma chain_update_get:
  "chain_update fd ssl es = Some es' \<Longrightarrow> chain_get k es' = (if k = fd then Some ssl else chain_get k es)"
  by (induction es arbitrary: es') (auto split: if_splits)

lemma chain_get_None: "chain_get fd es = None \<longleftrightarrow> fd \<notin> fst ` set es"
  by (induction fd es rule: chain_get.induct) auto

lemma chain_remove_set: "set (chain_remove fd es) \<subseteq> set es"
  by (induction fd es rule: chain_remove.induct) auto

lemma chain_remove_distinct: "distinct (map fst es) \<Longrightarrow> distinct (map fst (chain_remove fd es))"
proof (induction es)
  case (Cons e es)
  then show ?case using chain_remove_set [of fd es] by (cases e) auto
qed simp

lemma chain_remove_get:
  "distinct (map fst es) \<Longrightarrow> chain_get k (chain_remove fd es) = (if k = fd then None else chain_get k es)"
proof (induction fd es rule: chain_remove.induct)
  case (2 fd fd' s es)
  then show ?case using chain_get_None [of fd es] by auto
qed simp

lemma wf_bucket:
  "wf_table t \<Longrightarrow> e \<in> set (buckets t ! bucket_of fd) \<Longrightarrow> bucket_of (fst e) = bucket_of fd"
  by (simp add: wf_table_def)

lemma add_eq:
  assumes "wf_table t"
  shows "ssl_table_add fd ssl t = Inr (SUCCESS, t\<lparr>buckets := (buckets t)[bucket_of fd :=
    (case chain_update fd ssl (buckets t ! bucket_of fd) of
       Some c \<Rightarrow> c | None \<Rightarrow> (fd, ssl) # buckets t ! bucket_of fd)]\<rparr>)"
  using assms wf_tableD [OF assms] by (simp add: ssl_table_add_def split: option.splits)

lemma get_eq: "wf_table t \<Longrightarrow> ssl_table_get fd t = Inr (lookup t fd)"
  using wf_tableD(1,3) [of t] by (simp add: ssl_table_get_def lookup_def)

lemma remove_eq:
  assumes "wf_table t"
  shows "ssl_table_remove fd t =
    Inr (t\<lparr>buckets := (buckets t)[bucket_of fd := chain_remove fd (buckets t ! bucket_of fd)]\<rparr>)"
  using assms wf_tableD [OF assms] by (simp add: ssl_table_remove_def)

lemma wf_replace_bucket:
  assumes "wf_table t" "distinct (map fst c)" "\<And>e. e \<in> set c \<Longrightarrow> bucket_of (fst e) = i" "i < 128"
  shows "wf_table (t\<lparr>buckets := (buckets t)[i := c]\<rparr>)"
  using assms by (auto simp: wf_table_def nth_list_update)

lemma lookup_replace_bucket:
  assumes "wf_table t" "i < 128"
  shows "lookup (t\<lparr>buckets := (buckets t)[i := c]\<rparr>) k =
    (if bucket_of k = i then chain_get k c else lookup t k)"
  using assms by (auto simp: wf_table_def lookup_def)

lemma wf_table_add:
  assumes "wf_table t"
  shows "wf_table (table_add fd ssl t)"
proof (cases "chain_update fd ssl (buckets t ! bucket_of fd)")
  case None
  have "wf_table (t\<lparr>buckets := (buckets t)[bucket_of fd := (fd, ssl) # buckets t ! bucket_of fd]\<rparr>)"
    using assms None wf_tableD(4) [OF assms] wf_bucket [OF assms]
    by (intro wf_replace_bucket) (auto simp: chain_update_None)
  with None show ?thesis
    using assms by (simp add: table_add_def add_eq)
next
  case (Some c)
  have fsts: "map fst c = map fst (buckets t ! bucket_of fd)"
    using chain_update_fst [OF Some] .
  then have "fst ` set c = fst ` set (buckets t ! bucket_of fd)"
    by (metis list.set_map)
  moreover have "\<forall>e \<in> set (buckets t ! bucket_of fd). bucket_of (fst e) = bucket_of fd"
    using assms by (simp add: wf_table_def)
  ultimately have "bucket_of (fst e) = bucket_of fd" if "e \<in> set c" for e
    using that by (metis imageE image_eqI)
  then show ?thesis
    using Some fsts wf_tableD(4) [OF assms, of fd] assms
    by (simp add: table_add_def add_eq wf_replace_bucket)
qed

lemma lookup_table_add:
  assumes "wf_table t"
  shows "lookup (table_add fd ssl t) = (lookup t)(fd \<mapsto> ssl)"
proof
  fix k
  show "lookup (table_add fd ssl t) k = ((lookup t)(fd \<mapsto> ssl)) k"
  proof (cases "chain_update fd ssl (buckets t ! bucket_of fd)")
    case None
    then show ?thesis
      using assms by (simp add: table_add_def add_eq lookup_replace_bucket) (auto simp: lookup_def)
  next
    case (Some c)
    then show ?thesis
      using assms
      by (simp add: table_add_def add_eq lookup_replace_bucket)
        (auto simp: lookup_def chain_update_get [OF Some])
  qed
qed

lemma wf_table_remove:
  assumes "wf_table t"
  shows "wf_table (table_remove fd t)"
proof -
  have "wf_table (t\<lparr>buckets := (buckets t)[bucket_of fd := chain_remove fd (buckets t ! bucket_of fd)]\<rparr>)"
    using assms wf_tableD(4) [OF assms]
    by (intro wf_replace_bucket)
      (auto simp: chain_remove_distinct dest!: subsetD [OF chain_remove_set] dest: wf_bucket)
  with assms show ?thesis
    by (simp add: table_remove_def remove_eq)
qed

lemma lookup_table_remove:
  assumes "wf_table t"
  shows "lookup (table_remove fd t) = (lookup t)(fd := None)"
proof
  fix k
  have "distinct (map fst (buckets t ! bucket_of fd))"
    using assms by (rule wf_tableD(4))
  then show "lookup (table_remove fd t) k = ((lookup t)(fd := None)) k"
    using assms
    by (simp add: table_remove_def remove_eq lookup_replace_bucket)
      (auto simp: lookup_def chain_remove_get)
qed

interpretation tbl: fd_map wf_table lookup table_add table_remove
  by unfold_locales
    (simp_all add: wf_table_add wf_table_remove lookup_table_add lookup_table_remove)

section \<open>Properties\<close>

text \<open>
  The accept path adds, \<open>ws_close_connection\<close> removes. A history is the list of these calls:
  \<open>(fd, Some ssl)\<close> for an add, \<open>(fd, None)\<close> for a removal.
\<close>

fun table_history :: "(int \<times> 'ssl option) list \<Rightarrow> 'ssl ssl_table \<Rightarrow> 'ssl ssl_table res" where
  "table_history [] t = Inr t"
| "table_history ((fd, Some ssl) # ops) t =
     and_then (ssl_table_add fd ssl t) (\<lambda>(r, t'). table_history ops t')"
| "table_history ((fd, None) # ops) t =
     and_then (ssl_table_remove fd t) (table_history ops)"

lemma table_history_fold:
  "wf_table t \<Longrightarrow> table_history ops t =
     Inr (fold (\<lambda>(k, v) t. case v of Some s \<Rightarrow> table_add k s t | None \<Rightarrow> table_remove k t) ops t)"
proof (induction ops t rule: table_history.induct)
  case (2 fd ssl ops t)
  have "ssl_table_add fd ssl t = Inr (SUCCESS, table_add fd ssl t)"
    using "2.prems" by (simp add: table_add_def add_eq)
  with 2 show ?case by (simp add: tbl.ok_upd)
next
  case (3 fd ops t)
  have "ssl_table_remove fd t = Inr (table_remove fd t)"
    using "3.prems" by (simp add: table_remove_def remove_eq)
  with 3 show ?case by (simp add: tbl.ok_del)
qed simp

text \<open>
  C31: after any history of registrations and removals on a fresh table, none of which fails,
  \<open>ssl_table_get\<close> returns for every descriptor the session of its last registration, and NULL
  if it was never registered or removed since, whatever collisions the buckets have seen.
\<close>
theorem table_is_a_map:
  "\<exists>t. table_history ops (ssl_table_init no_table) = Inr t \<and>
     (\<forall>fd. ssl_table_get fd t = Inr (fold (\<lambda>(k, v) m. m(k := v)) ops Map.empty fd))"
proof -
  have wf: "wf_table (ssl_table_init no_table)"
    by (rule wf_table_init)
  from tbl.look_history [OF wf, of ops] table_history_fold [OF wf, of ops]
  show ?thesis by (auto simp: get_eq)
qed

text \<open>
  \<open>ssl_table_free\<close> does not clear \<open>ssl_table_initialized\<close>, so on a table that was set up
  the guards of the other operations still pass and each of them computes \<open>fd % 0\<close>; only a
  new \<open>ssl_table_init\<close> makes the table usable again, and empty.
\<close>
theorem freed_table_divides_by_zero:
  assumes "wf_table t"
  shows "ssl_table_get fd (ssl_table_free t) = Inl Div_By_Zero \<and>
    ssl_table_add fd ssl (ssl_table_free t) = Inl Div_By_Zero \<and>
    ssl_table_remove fd (ssl_table_free t) = Inl Div_By_Zero \<and>
    ssl_table_get fd (ssl_table_init (ssl_table_free t)) = Inr None"
  using assms wf_tableD(1) [OF assms]
  by (simp add: ssl_table_get_def ssl_table_add_def ssl_table_remove_def ssl_table_free_def
      hash_fd_def get_eq [OF wf_table_init, unfolded ssl_table_get_def hash_fd_def]
      lookup_init [unfolded ssl_table_init_def] ssl_table_init_def)

lemma freed_table_divides_by_zero_witness:
  "ssl_table_get 5 (ssl_table_free (ssl_table_init no_table) :: nat ssl_table) = Inl Div_By_Zero"
  using freed_table_divides_by_zero [OF wf_table_init [of "no_table :: nat ssl_table"], of 5]
  by simp

end
