(* ===== verification/Workers.thy ===== *)
theory Workers
  imports Queues
begin

text \<open>
  The handshake worker, \<open>server/srcs/server/ssl_al_workers.c\<close>: the main thread queues accepted
  sockets (\<open>task_fds_q\<close>), one worker thread takes them, performs the TLS handshake and
  queues the successful ones back (\<open>task_fds_dq\<close>), and the main loop dequeues them all.
  Both queues are rings of 1024 slots. A critical section under its mutex is one atomic step;
  what OpenSSL answers is a label of the worker's step. \<open>paced\<close> runs are those with at most
  1023 sockets in flight; \<open>full_queue_drops_everything\<close> is about the others.
\<close>

section \<open>The code\<close>

type_synonym 'ssl handshake_task = "int \<times> 'ssl"

text \<open>One of the two rings: \<open>task_fds_q\<close>, \<open>task_head_q\<close>, \<open>task_tail_q\<close> (or \<open>_dq\<close>).\<close>

record 'ssl task_ring =
  task_fds :: "'ssl handshake_task list"
  task_head :: int
  task_tail :: int

record 'ssl pool =
  task_q :: "'ssl task_ring"
  task_dq :: "'ssl task_ring"

definition empty_ring :: "'ssl handshake_task \<Rightarrow> 'ssl task_ring" where
  "empty_ring z = \<lparr>task_fds = replicate 1024 z, task_head = 0, task_tail = 0\<rparr>"

definition ring_enqueue :: "'ssl handshake_task \<Rightarrow> 'ssl task_ring \<Rightarrow> 'ssl task_ring" where
  "ring_enqueue task r =
     r\<lparr>task_fds := (task_fds r)[nat (task_tail r) := task], task_tail := (task_tail r + 1) smod 1024\<rparr>"

definition ring_empty :: "'ssl task_ring \<Rightarrow> bool" where
  "ring_empty r \<longleftrightarrow> task_head r = task_tail r"

definition ring_first :: "'ssl task_ring \<Rightarrow> 'ssl handshake_task" where
  "ring_first r = task_fds r ! nat (task_head r)"

definition ring_advance :: "'ssl task_ring \<Rightarrow> 'ssl task_ring" where
  "ring_advance r = r\<lparr>task_head := (task_head r + 1) smod 1024\<rparr>"

definition ssl_al_worker_queue :: "int \<Rightarrow> 'ssl \<Rightarrow> 'ssl pool \<Rightarrow> int \<times> 'ssl pool" where
  "ssl_al_worker_queue client_fd ssl p = (1, p\<lparr>task_q := ring_enqueue (client_fd, ssl) (task_q p)\<rparr>)"

definition ssl_al_worker_dequeue :: "'ssl pool \<Rightarrow> 'ssl handshake_task option \<times> 'ssl pool" where
  "ssl_al_worker_dequeue p =
     (if ring_empty (task_dq p) then (None, p)
      else (Some (ring_first (task_dq p)), p\<lparr>task_dq := ring_advance (task_dq p)\<rparr>))"

text \<open>
  The loop of \<open>ssl_al_worker_dequeue_all\<close>: it ends when the distance from head to tail has
  gone down to 0. \<open>cb\<close> is \<open>on_handshake_done\<close>, NULL before \<open>init_handshake_pool\<close>.
\<close>

definition ring_distance :: "'ssl task_ring \<Rightarrow> nat" where
  "ring_distance r = nat ((task_tail r - task_head r) mod 1024)"

lemma ring_distance_advance:
  assumes "0 \<le> task_head r" "task_head r < 1024" "0 \<le> task_tail r" "task_tail r < 1024"
    and "\<not> ring_empty r"
  shows "Suc (ring_distance (ring_advance r)) = ring_distance r"
proof -
  let ?d = "(task_tail r - task_head r) mod 1024"
  have "?d \<noteq> 0"
  proof
    assume "?d = 0"
    then have "(1024 :: int) dvd task_tail r - task_head r" by auto
    moreover have "task_tail r \<noteq> task_head r"
      using assms(5) by (simp add: ring_empty_def)
    ultimately have "1024 \<le> \<bar>task_tail r - task_head r\<bar>"
      using zdvd_imp_le [of 1024 "\<bar>task_tail r - task_head r\<bar>"] by auto
    with assms(1-4) show False by linarith
  qed
  moreover have "0 \<le> ?d" "?d < 1024" by simp_all
  moreover have "(task_tail r - (task_head r + 1) mod 1024) mod 1024 = (?d - 1) mod 1024"
    by (simp add: mod_simps algebra_simps)
  ultimately show ?thesis
    using assms(1) by (simp add: ring_distance_def ring_advance_def wrap_simps)
qed

fun dequeue_loop ::
  "nat \<Rightarrow> (int \<Rightarrow> 'ssl \<Rightarrow> 'w \<Rightarrow> 'w) option \<Rightarrow> 'ssl pool \<Rightarrow> 'w \<Rightarrow> ('ssl pool \<times> 'w) res" where
  "dequeue_loop fuel cb p w =
     (case ssl_al_worker_dequeue p of
        (None, p') \<Rightarrow> Inr (p', w)
      | (Some (fd, ssl), p') \<Rightarrow>
          (case fuel of
             0 \<Rightarrow> Inl Out_Of_Fuel
           | Suc n \<Rightarrow> dequeue_loop n cb p' (case cb of None \<Rightarrow> w | Some f \<Rightarrow> f fd ssl w)))"

declare dequeue_loop.simps [simp del]

definition ssl_al_worker_dequeue_all ::
  "nat \<Rightarrow> (int \<Rightarrow> 'ssl \<Rightarrow> 'w \<Rightarrow> 'w) option \<Rightarrow> 'ssl pool \<Rightarrow> 'w \<Rightarrow> (int \<times> 'ssl pool \<times> 'w) res" where
  "ssl_al_worker_dequeue_all fuel cb p w =
     (case ssl_al_worker_dequeue p of
        (None, p') \<Rightarrow> Inr (0, p', w)
      | (Some (fd, ssl), p') \<Rightarrow>
          and_then (dequeue_loop fuel cb p' (case cb of None \<Rightarrow> w | Some f \<Rightarrow> f fd ssl w))
            (\<lambda>(p'', w'). Inr (1, p'', w')))"

text \<open>
  The worker thread: take the next task (it waits on the condition variable while the queue
  is empty), then \<open>SSL_set_fd\<close> and \<open>SSL_accept\<close>; on failure the session is freed and the
  socket closed, on success the task goes to the second ring. The flag of the result says
  whether the socket is still open.
\<close>

definition worker_take :: "'ssl pool \<Rightarrow> ('ssl handshake_task \<times> 'ssl pool) option" where
  "worker_take p =
     (if ring_empty (task_q p) then None
      else Some (ring_first (task_q p), p\<lparr>task_q := ring_advance (task_q p)\<rparr>))"

definition worker_finish :: "int \<Rightarrow> int \<Rightarrow> 'ssl handshake_task \<Rightarrow> 'ssl pool \<Rightarrow> bool \<times> 'ssl pool" where
  "worker_finish set_fd_ret accept_ret task p =
     (if set_fd_ret = 0 then (False, p)
      else if accept_ret \<le> 0 then (False, p)
      else (True, p\<lparr>task_dq := ring_enqueue task (task_dq p)\<rparr>))"

section \<open>A ring is a FIFO of up to 1023 tasks\<close>

definition wf_ring :: "'ssl task_ring \<Rightarrow> bool" where
  "wf_ring r \<longleftrightarrow> length (task_fds r) = 1024 \<and>
     0 \<le> task_head r \<and> task_head r < 1024 \<and> 0 \<le> task_tail r \<and> task_tail r < 1024"

definition ring_items :: "'ssl task_ring \<Rightarrow> 'ssl handshake_task list" where
  "ring_items r = ring_list (task_fds r) (task_head r) (ring_distance r)"

lemma wf_empty_ring [simp]: "wf_ring (empty_ring z)"
  by (simp add: wf_ring_def empty_ring_def)

lemma ring_items_empty [simp]: "ring_items (empty_ring z) = []"
  by (simp add: ring_items_def ring_distance_def empty_ring_def)

lemma ring_empty_items: "wf_ring r \<Longrightarrow> ring_empty r \<longleftrightarrow> ring_items r = []"
proof -
  assume wf: "wf_ring r"
  show ?thesis
  proof (cases "ring_empty r")
    case True
    then show ?thesis by (simp add: ring_empty_def ring_items_def ring_distance_def)
  next
    case False
    then have "Suc (ring_distance (ring_advance r)) = ring_distance r"
      using wf by (intro ring_distance_advance) (auto simp: wf_ring_def)
    with False show ?thesis by (auto simp: ring_items_def ring_list_def)
  qed
qed

lemma wf_ring_enqueue: "wf_ring r \<Longrightarrow> wf_ring (ring_enqueue e r)"
  by (simp add: wf_ring_def ring_enqueue_def wrap_simps)

lemma wf_ring_advance: "wf_ring r \<Longrightarrow> wf_ring (ring_advance r)"
  by (simp add: wf_ring_def ring_advance_def wrap_simps)

lemma ring_tail_eq: "wf_ring r \<Longrightarrow> (task_head r + int (ring_distance r)) mod 1024 = task_tail r"
  by (simp add: wf_ring_def ring_distance_def mod_simps)

lemma ring_distance_enqueue:
  assumes "wf_ring r" "ring_distance r < 1023"
  shows "ring_distance (ring_enqueue e r) = Suc (ring_distance r)"
proof -
  let ?d = "(task_tail r - task_head r) mod 1024"
  have "0 \<le> ?d" "?d < 1023"
    using assms(2) by (simp_all add: ring_distance_def)
  moreover have "((task_tail r + 1) mod 1024 - task_head r) mod 1024 = (?d + 1) mod 1024"
    by (simp add: mod_simps algebra_simps)
  ultimately show ?thesis
    using assms(1) by (simp add: ring_distance_def ring_enqueue_def wf_ring_def wrap_simps)
qed

lemma ring_items_enqueue:
  assumes "wf_ring r" "length (ring_items r) < 1023"
  shows "ring_items (ring_enqueue e r) = ring_items r @ [e]"
proof -
  have d: "ring_distance r < 1023"
    using assms(2) by (simp add: ring_items_def)
  have len: "length (task_fds r) = 1024"
    using assms(1) by (simp add: wf_ring_def)
  have "task_fds (ring_enqueue e r)
      = (task_fds r)[nat ((task_head r + int (ring_distance r)) mod int (length (task_fds r))) := e]"
    using ring_tail_eq [OF assms(1)] len by (simp add: ring_enqueue_def)
  then show ?thesis
    using d len ring_list_snoc [of "ring_distance r" "task_fds r" "task_head r" e]
    by (simp add: ring_items_def ring_distance_enqueue [OF assms(1) d])
      (simp add: ring_enqueue_def)
qed

lemma ring_items_advance:
  assumes "wf_ring r" "ring_items r \<noteq> []"
  shows "ring_items r = ring_first r # ring_items (ring_advance r)"
proof -
  have ne: "\<not> ring_empty r"
    using assms by (simp add: ring_empty_items)
  then have "Suc (ring_distance (ring_advance r)) = ring_distance r"
    using assms(1) by (intro ring_distance_advance) (auto simp: wf_ring_def)
  then have "ring_items r
      = ring_list (task_fds r) (task_head r) (Suc (ring_distance (ring_advance r)))"
    by (simp add: ring_items_def)
  also have "\<dots> = ring_first r # ring_items (ring_advance r)"
    using assms(1)
    by (subst ring_list_shift)
      (simp add: ring_first_def ring_items_def wf_ring_def ring_advance_def wrap_simps)
  finally show ?thesis .
qed

interpretation rq: bounded_fifo wf_ring ring_items 1023 ring_enqueue ring_first ring_advance
  by unfold_locales
    (simp_all add: wf_ring_enqueue wf_ring_advance ring_items_enqueue
      ring_items_advance [symmetric])

section \<open>The two threads\<close>

text \<open>
  The system: the pool, the task the worker holds between its two critical sections, and
  three histories: the tasks queued by the main thread, the tasks the worker has finished
  with the outcome of each, and the tasks handed back to the main thread.
\<close>

record 'ssl hs_system =
  hs_pool :: "'ssl pool"
  hs_worker :: "'ssl handshake_task option"
  hs_submitted :: "'ssl handshake_task list"
  hs_finished :: "('ssl handshake_task \<times> bool) list"
  hs_delivered :: "'ssl handshake_task list"

definition hs_start :: "'ssl handshake_task \<Rightarrow> 'ssl hs_system" where
  "hs_start z =
     \<lparr>hs_pool = \<lparr>task_q = empty_ring z, task_dq = empty_ring z\<rparr>, hs_worker = None,
      hs_submitted = [], hs_finished = [], hs_delivered = []\<rparr>"

definition hs_queue :: "'ssl handshake_task \<Rightarrow> 'ssl hs_system \<Rightarrow> 'ssl hs_system" where
  "hs_queue t s = s\<lparr>hs_pool := snd (ssl_al_worker_queue (fst t) (snd t) (hs_pool s)),
     hs_submitted := hs_submitted s @ [t]\<rparr>"

text \<open>One step of either thread; the answers of OpenSSL are arbitrary.\<close>

inductive hs_step :: "'ssl hs_system \<Rightarrow> 'ssl hs_system \<Rightarrow> bool" where
  main_queue: "hs_step s (hs_queue t s)"
| main_dequeue:
    "ssl_al_worker_dequeue (hs_pool s) = (Some t, p') \<Longrightarrow>
     hs_step s (s\<lparr>hs_pool := p', hs_delivered := hs_delivered s @ [t]\<rparr>)"
| worker_take:
    "hs_worker s = None \<Longrightarrow> worker_take (hs_pool s) = Some (t, p') \<Longrightarrow>
     hs_step s (s\<lparr>hs_pool := p', hs_worker := Some t\<rparr>)"
| worker_finish:
    "hs_worker s = Some t \<Longrightarrow> worker_finish set_fd_ret accept_ret t (hs_pool s) = (ok, p') \<Longrightarrow>
     hs_step s (s\<lparr>hs_pool := p', hs_worker := None, hs_finished := hs_finished s @ [(t, ok)]\<rparr>)"

text \<open>Sockets queued, not yet closed by the worker nor handed back.\<close>

definition in_flight :: "'ssl hs_system \<Rightarrow> int" where
  "in_flight s = int (length (hs_submitted s)) - int (length (hs_delivered s))
     - int (length (filter (\<lambda>(t, ok). \<not> ok) (hs_finished s)))"

inductive paced :: "'ssl hs_system \<Rightarrow> bool" where
  paced_start: "paced (hs_start z)"
| paced_step: "paced s \<Longrightarrow> hs_step s s' \<Longrightarrow> in_flight s' \<le> 1023 \<Longrightarrow> paced s'"

definition accepted :: "('ssl handshake_task \<times> bool) list \<Rightarrow> 'ssl handshake_task list" where
  "accepted xs = map fst (filter snd xs)"

lemma accepted_snoc [simp]: "accepted (xs @ [(t, ok)]) = accepted xs @ (if ok then [t] else [])"
  by (simp add: accepted_def)

lemma length_accepted:
  "length (accepted xs) + length (filter (\<lambda>(t, ok). \<not> ok) xs) = length xs"
  by (induction xs) (auto simp: accepted_def)

text \<open>No socket is lost, duplicated or overtaken.\<close>

definition hs_inv :: "'ssl hs_system \<Rightarrow> bool" where
  "hs_inv s \<longleftrightarrow> wf_ring (task_q (hs_pool s)) \<and> wf_ring (task_dq (hs_pool s)) \<and>
     hs_submitted s = map fst (hs_finished s) @ (case hs_worker s of None \<Rightarrow> [] | Some t \<Rightarrow> [t])
       @ ring_items (task_q (hs_pool s)) \<and>
     accepted (hs_finished s) = hs_delivered s @ ring_items (task_dq (hs_pool s))"

lemma hs_inv_start: "hs_inv (hs_start z)"
  by (simp add: hs_inv_def hs_start_def accepted_def)

lemma in_flight_split:
  assumes "hs_inv s"
  shows "in_flight s = int (length (ring_items (task_q (hs_pool s))))
    + int (length (ring_items (task_dq (hs_pool s)))) + (case hs_worker s of None \<Rightarrow> 0 | Some t \<Rightarrow> 1)"
proof -
  have "length (hs_delivered s) + length (ring_items (task_dq (hs_pool s)))
      + length (filter (\<lambda>(t, ok). \<not> ok) (hs_finished s)) = length (hs_finished s)"
    using length_accepted [of "hs_finished s"] assms by (simp add: hs_inv_def)
  then show ?thesis
    using assms by (cases "hs_worker s") (simp_all add: in_flight_def hs_inv_def)
qed

lemma hs_inv_step:
  assumes inv: "hs_inv s" and step: "hs_step s s'" and room: "in_flight s' \<le> 1023"
  shows "hs_inv s'"
  using step
proof (cases rule: hs_step.cases)
  case (main_queue t)
  have "in_flight s' = in_flight s + 1"
    by (simp add: main_queue hs_queue_def in_flight_def)
  then have "length (ring_items (task_q (hs_pool s))) < 1023"
    using room in_flight_split [OF inv] by (cases "hs_worker s") auto
  with inv show ?thesis
    by (simp add: main_queue hs_queue_def hs_inv_def ssl_al_worker_queue_def
        rq.ok_put rq.items_put)
next
  case (main_dequeue t p')
  with inv show ?thesis
    using ring_items_advance [of "task_dq (hs_pool s)"]
    by (auto simp: hs_inv_def ssl_al_worker_dequeue_def ring_empty_items wf_ring_advance
        split: if_splits)
next
  case (worker_take t p')
  with inv show ?thesis
    using ring_items_advance [of "task_q (hs_pool s)"]
    by (auto simp: hs_inv_def worker_take_def ring_empty_items wf_ring_advance
        split: if_splits)
next
  case (worker_finish t r1 r2 ok p')
  have "length (ring_items (task_dq (hs_pool s))) < 1023" if ok
    using that room worker_finish in_flight_split [OF inv] by (simp add: in_flight_def)
  with inv worker_finish show ?thesis
    by (auto simp: hs_inv_def worker_finish_def rq.ok_put rq.items_put split: if_splits)
qed

lemma paced_inv: "paced s \<Longrightarrow> hs_inv s"
  by (induction rule: paced.induct) (auto intro: hs_inv_start hs_inv_step)

section \<open>Properties\<close>

text \<open>
  C22: in every run with at most 1023 sockets in flight, the sockets handed back to the main
  thread are a prefix of those whose handshake succeeded, these in the order the worker
  finished them, and the worker finishes them in the order they were queued: the handshake
  stage loses, invents, duplicates and reorders nothing, whatever the threads' interleaving.
\<close>
theorem handshakes_in_order:
  assumes "paced s"
  shows "\<exists>waiting ready.
    hs_submitted s = map fst (hs_finished s) @ waiting \<and>
    map fst (filter snd (hs_finished s)) = hs_delivered s @ ready \<and>
    int (length waiting) + int (length ready) = in_flight s"
  using paced_inv [OF assms] in_flight_split [OF paced_inv [OF assms]]
  by (cases "hs_worker s") (auto simp: hs_inv_def accepted_def)

lemma handshakes_in_order_witness:
  "\<exists>waiting ready. hs_submitted (hs_queue (7, ()) (hs_start (0, ())))
     = map fst (hs_finished (hs_queue (7, ()) (hs_start (0, ())))) @ waiting \<and>
   map fst (filter snd (hs_finished (hs_queue (7, ()) (hs_start (0, ())))))
     = hs_delivered (hs_queue (7, ()) (hs_start (0, ()))) @ ready \<and>
   int (length waiting) + int (length ready) = in_flight (hs_queue (7, ()) (hs_start (0, ())))"
proof (rule handshakes_in_order)
  show "paced (hs_queue (7, ()) (hs_start (0, ())))"
    by (rule paced_step [OF paced_start main_queue]) (simp add: in_flight_def hs_queue_def hs_start_def)
qed

lemma ring_advance_slots [simp]: "task_fds (ring_advance r) = task_fds r"
  by (simp add: ring_advance_def)

lemma dequeue_loop_items:
  "wf_ring (task_dq p) \<Longrightarrow> length (ring_items (task_dq p)) \<le> fuel \<Longrightarrow>
   \<exists>p'. dequeue_loop fuel (Some f) p w
        = Inr (p', fold (\<lambda>(fd, ssl) w. f fd ssl w) (ring_items (task_dq p)) w) \<and>
      wf_ring (task_dq p') \<and> ring_items (task_dq p') = [] \<and> task_q p' = task_q p \<and>
      task_fds (task_dq p') = task_fds (task_dq p)"
proof (induction fuel arbitrary: p w)
  case 0
  then show ?case
    by (subst dequeue_loop.simps) (simp add: ssl_al_worker_dequeue_def ring_empty_items)
next
  case (Suc n)
  show ?case
  proof (cases "ring_items (task_dq p) = []")
    case True
    with Suc.prems show ?thesis
      by (subst dequeue_loop.simps) (simp add: ssl_al_worker_dequeue_def ring_empty_items)
  next
    case False
    obtain fd ssl where first: "ring_first (task_dq p) = (fd, ssl)"
      by (cases "ring_first (task_dq p)")
    note items = ring_items_advance [OF Suc.prems(1) False]
    show ?thesis
      using Suc.prems False first items
        Suc.IH [of "p\<lparr>task_dq := ring_advance (task_dq p)\<rparr>" "f fd ssl w"]
      by (subst dequeue_loop.simps)
        (auto simp: ssl_al_worker_dequeue_def ring_empty_items wf_ring_advance)
  qed
qed

lemma dequeue_all_run:
  assumes "wf_ring (task_dq p)" "1024 \<le> fuel"
  shows "\<exists>p'. ssl_al_worker_dequeue_all fuel (Some f) p w =
      Inr (if ring_items (task_dq p) = [] then 0 else 1, p',
           fold (\<lambda>(fd, ssl) w. f fd ssl w) (ring_items (task_dq p)) w) \<and>
    ring_items (task_dq p') = [] \<and> task_q p' = task_q p \<and>
    wf_ring (task_dq p') \<and> task_fds (task_dq p') = task_fds (task_dq p)"
proof (cases "ring_items (task_dq p) = []")
  case True
  with assms show ?thesis
    by (simp add: ssl_al_worker_dequeue_all_def ssl_al_worker_dequeue_def ring_empty_items)
next
  case False
  obtain fd ssl where first: "ring_first (task_dq p) = (fd, ssl)"
    by (cases "ring_first (task_dq p)")
  let ?p = "p\<lparr>task_dq := ring_advance (task_dq p)\<rparr>"
  note items = ring_items_advance [OF assms(1) False]
  have "ring_distance (ring_advance (task_dq p)) \<le> 1024"
    by (simp add: ring_distance_def nat_le_iff order_less_imp_le)
  then have "length (ring_items (task_dq ?p)) \<le> 1024"
    by (simp add: ring_items_def)
  with dequeue_loop_items [of ?p fuel f "f fd ssl w"] wf_ring_advance [OF assms(1)] assms(2)
  show ?thesis
    using False first items assms
    by (auto simp: ssl_al_worker_dequeue_all_def ssl_al_worker_dequeue_def ring_empty_items)
qed

text \<open>
  \<open>ssl_al_worker_dequeue_all\<close> returns (with the fuel of one unit per ring slot); it calls
  the handshake callback exactly once for every queued session, oldest first, leaves the
  ring empty, does not touch the other ring, and returns 1 iff there was something to do.
\<close>
theorem dequeue_all_drains:
  assumes "wf_ring (task_dq p)"
  shows "\<exists>p'. ssl_al_worker_dequeue_all 1024 (Some f) p w =
      Inr (if ring_items (task_dq p) = [] then 0 else 1, p',
           fold (\<lambda>(fd, ssl) w. f fd ssl w) (ring_items (task_dq p)) w) \<and>
    ring_items (task_dq p') = [] \<and> task_q p' = task_q p"
  using dequeue_all_run [OF assms, of 1024 f w] by auto

lemma dequeue_all_drains_witness:
  "\<exists>p'. ssl_al_worker_dequeue_all 1024 (Some (\<lambda>fd ssl w. w @ [fd]))
      \<lparr>task_q = empty_ring (0, ()), task_dq = empty_ring (0, ())\<rparr> [] = Inr (0, p', []) \<and>
    ring_items (task_dq p') = [] \<and> task_q p' = empty_ring (0, ())"
  using dequeue_all_drains [of "\<lparr>task_q = empty_ring (0, ()), task_dq = empty_ring (0, ())\<rparr>"
      "\<lambda>fd ssl w. w @ [fd]" "[]"]
  by simp

lemma fold_enqueue_tail:
  "wf_ring r \<Longrightarrow>
   task_tail (fold ring_enqueue ts r) = (task_tail r + int (length ts)) mod 1024 \<and>
   task_head (fold ring_enqueue ts r) = task_head r"
proof (induction ts arbitrary: r)
  case Nil
  then show ?case by (simp add: wf_ring_def)
next
  case (Cons t ts)
  then show ?case
    using Cons.IH [OF wf_ring_enqueue [OF Cons.prems], of t]
    by (simp add: ring_enqueue_def wf_ring_def wrap_simps mod_simps algebra_simps)
qed

lemma queue_fold:
  "fold (\<lambda>(fd, ssl) p. snd (ssl_al_worker_queue fd ssl p)) ts p
     = p\<lparr>task_q := fold ring_enqueue ts (task_q p)\<rparr>"
  by (induction ts arbitrary: p) (auto simp: ssl_al_worker_queue_def)

text \<open>
  There is no check for a full ring. When the worker is busy and the main thread queues
  1024 sockets before the next take, the tail meets the head: the worker finds the queue
  empty and all of the 1024 sockets (and sessions) are gone, although every call has
  returned 1.
\<close>
theorem full_queue_drops_everything:
  assumes "wf_ring (task_q p)" "ring_items (task_q p) = []" "length ts = 1024"
  shows "worker_take (fold (\<lambda>(fd, ssl) p. snd (ssl_al_worker_queue fd ssl p)) ts p) = None \<and>
    (\<forall>fd ssl p'. fst (ssl_al_worker_queue fd ssl p') = 1)"
proof -
  have "task_head (task_q p) = task_tail (task_q p)"
    using assms(1,2) ring_empty_items [of "task_q p"] by (simp add: ring_empty_def)
  with fold_enqueue_tail [OF assms(1), of ts] assms(1,3) show ?thesis
    by (simp add: queue_fold worker_take_def ring_empty_def wf_ring_def)
      (simp add: ssl_al_worker_queue_def)
qed

lemma full_queue_drops_everything_witness:
  "worker_take (fold (\<lambda>(fd, ssl) p. snd (ssl_al_worker_queue fd ssl p)) (replicate 1024 (5, ()))
     \<lparr>task_q = empty_ring (0, ()), task_dq = empty_ring (0, ())\<rparr>) = None"
  by (rule conjunct1 [OF full_queue_drops_everything]) simp_all

end
