(* ===== verification/Json.thy ===== *)
theory Json
  imports Prelude
begin

text \<open>
  JSON values as the server builds and inspects them through cJSON: an object is the list of
  its members in order (cJSON keeps duplicates and appends at the end), a lookup compares
  names without regard to case (\<open>get_object_item\<close> of
  \<open>server/third_party/cJSON/cJSON.c\<close>). Numbers are the integers the server puts in them.
  Printing and parsing text are left to cJSON and not modelled; the servers' replies
  are values of this type.
\<close>

datatype json =
    JNull
  | JBool bool
  | JNumber int
  | JString string
  | JArray "json list"
  | JObject "(string \<times> json) list"

definition tolower :: "char \<Rightarrow> char" where
  "tolower c = (if 65 \<le> (of_char c :: nat) \<and> (of_char c :: nat) \<le> 90
                then char_of ((of_char c :: nat) + 32) else c)"

text \<open>The result is 0 iff the strings agree up to the case of their letters.\<close>

fun case_insensitive_strcmp :: "string \<Rightarrow> string \<Rightarrow> int" where
  "case_insensitive_strcmp [] [] = 0"
| "case_insensitive_strcmp [] (d # ds) = - int (of_char (tolower d))"
| "case_insensitive_strcmp (c # cs) [] = int (of_char (tolower c))"
| "case_insensitive_strcmp (c # cs) (d # ds) =
     (if tolower c = tolower d then case_insensitive_strcmp cs ds
      else int (of_char (tolower c)) - int (of_char (tolower d)))"

fun find_member :: "string \<Rightarrow> (string \<times> json) list \<Rightarrow> json option" where
  "find_member name [] = None"
| "find_member name ((k, v) # ms) =
     (if case_insensitive_strcmp name k = 0 then Some v else find_member name ms)"

text \<open>Elements of an array have no name: \<open>case_insensitive_strcmp\<close> never matches them.\<close>

definition cJSON_GetObjectItem :: "json \<Rightarrow> string \<Rightarrow> json option" where
  "cJSON_GetObjectItem j name = (case j of JObject ms \<Rightarrow> find_member name ms | _ \<Rightarrow> None)"

text \<open>\<open>cJSON_IsString\<close> together with the \<open>valuestring\<close> read after it.\<close>

definition json_string :: "json option \<Rightarrow> string option" where
  "json_string j = (case j of Some (JString s) \<Rightarrow> Some s | _ \<Rightarrow> None)"

definition opt_member :: "string \<Rightarrow> string option \<Rightarrow> (string \<times> json) list" where
  "opt_member k v = (case v of None \<Rightarrow> [] | Some s \<Rightarrow> [(k, JString s)])"

lemma of_char_inj: "(of_char c :: nat) = of_char d \<Longrightarrow> c = d"
  by (metis char_of_char)


lemma case_insensitive_refl [simp]: "case_insensitive_strcmp s s = 0"
  by (induction s) auto

lemma case_insensitive_sym_zero:
  "case_insensitive_strcmp s t = 0 \<Longrightarrow> case_insensitive_strcmp t s = 0"
  by (induction s t rule: case_insensitive_strcmp.induct) (auto split: if_splits dest: of_char_inj)

end
