(* ===== verification/World.thy ===== *)
theory World
  imports Complex_Main TimeApi FtList Json
begin

text \<open>
  The data of the game (\<open>server/srcs/game/game_structs.h\<close> and the statics of \<open>game.c\<close>) and
  of the connection layer (\<open>server.c\<close>), and the primitive accesses to it. Players and clients
  are heap objects: the map tiles and the players link each other by address, the clients
  array holds addresses, and a freed address is never valid again, so that a stale pointer
  shows up as \<open>Use_After_Free\<close>. Addresses come from a counter. \<open>rnd\<close> is the sequence
  \<open>rand ()\<close> will return, \<open>rnd_pos\<close> how many numbers have been drawn. \<open>out\<close> is the list of
  JSON replies handed to \<open>send\<close>, oldest first. The counters of the game are mathematical
  integers: none of them gets near 2^31. Doubles are reals.
\<close>

section \<open>Data\<close>

datatype direction = NORTH | EAST | SOUTH | WEST

datatype command_type = AVANCE | DROITE | GAUCHE | VOIR | INVENTAIRE | PREND | POSE | EXPULSE
  | BROADCAST | INCANTATION | FORK | CONNECT_NBR | MAX_COMMANDS

datatype inventory_type = NOURRITURE | LINEMATE | DERAUMERE | SIBUR | MENDIANE | PHIRAS
  | THYSTAME | UNKNOWN

record position =
  pos_x :: int
  pos_y :: int

record inventory =
  nourriture :: int
  linemate :: int
  deraumere :: int
  sibur :: int
  mendiane :: int
  phiras :: int
  thystame :: int

record spawn_ctx =
  d_nourriture :: real
  d_linemate :: real
  d_deraumere :: real
  d_sibur :: real
  d_mendiane :: real
  d_phiras :: real
  d_thystame :: real
  period :: int
  next_idx :: int

type_synonym ptr = "nat option"

record player =
  p_id :: int
  p_team_id :: int
  p_level :: int
  p_pos :: position
  p_dir :: direction
  p_inv :: inventory
  p_die_time :: u64
  p_start_time :: u64
  next_on_tile :: ptr
  prev_on_tile :: ptr

record tile =
  t_pos :: position
  t_items :: inventory
  t_players :: ptr

record team =
  tm_name :: string
  tm_max_players :: int
  tm_current_players :: int
  tm_players :: "int list"

text \<open>The functions of \<open>game.c\<close> that are used as event callbacks.\<close>

datatype callback = Command command_type | Real_Incantation | Spawn_Resources | Send_Map_Observer

type_synonym game_event = "(callback, ptr, string) event"
type_synonym game_buffer = "(callback, ptr, string) event_buffer"

record client =
  c_socket_fd :: int
  c_player :: ptr
  c_event_buffer :: game_buffer

record observer =
  o_socket_fd :: int
  o_last_idx :: int
  o_event_buffer :: game_buffer

text \<open>\<open>m_server\<close>.\<close>

record server =
  map_x :: int
  map_y :: int
  tiles :: "tile list"
  teams :: "team list"
  team_count :: int
  clients :: "ptr list option"
  client_count :: int
  s_event_buffer :: game_buffer

text \<open>
  The rest of the process: \<open>m_ctx\<close>, \<open>LIFE_UNIT\<close>, \<open>START_LIFE_UNITS\<close>, \<open>m_incantation_time\<close>,
  the delays of \<open>command_prototypes\<close>, the clock \<open>m_time\<close>, the heaps of players, clients and
  observers; and of \<open>server.c\<close>:
  \<open>m_max_fd\<close>, \<open>m_read_fds\<close> and the list \<open>m_clients\<close> of clients to remove (its nodes are
  \<open>list_heap\<close>); \<open>closed\<close> lists the descriptors closed so far.
\<close>

record world = server +
  m_ctx :: spawn_ctx
  LIFE_UNIT :: int
  START_LIFE_UNITS :: int
  m_incantation_time :: int
  command_delays :: "int list"
  m_time :: "time_api option"
  pheap :: "nat \<rightharpoonup> player"
  cheap :: "nat \<rightharpoonup> client"
  oheap :: "nat \<rightharpoonup> observer"
  next_addr :: nat
  rnd :: "nat \<Rightarrow> nat"
  rnd_pos :: nat
  out :: "(int \<times> json) list"
  m_max_fd :: int
  m_read_fds :: "int set"
  m_clients :: ptr
  list_heap :: items
  closed :: "int list"

section \<open>Accesses\<close>

definition get_player :: "ptr \<Rightarrow> world \<Rightarrow> player res" where
  "get_player p w = deref (pheap w) p"

definition upd_player :: "ptr \<Rightarrow> (player \<Rightarrow> player) \<Rightarrow> world \<Rightarrow> world res" where
  "upd_player p f w = and_then (update_ref (pheap w) p f) (\<lambda>h. Inr (w\<lparr>pheap := h\<rparr>))"

definition get_client :: "ptr \<Rightarrow> world \<Rightarrow> client res" where
  "get_client c w = deref (cheap w) c"

definition upd_client :: "ptr \<Rightarrow> (client \<Rightarrow> client) \<Rightarrow> world \<Rightarrow> world res" where
  "upd_client c f w = and_then (update_ref (cheap w) c f) (\<lambda>h. Inr (w\<lparr>cheap := h\<rparr>))"

definition get_observer :: "ptr \<Rightarrow> world \<Rightarrow> observer res" where
  "get_observer p w = deref (oheap w) p"

definition get_tile :: "int \<Rightarrow> world \<Rightarrow> tile res" where
  "get_tile t w = arr_get (tiles w) t"

definition upd_tile :: "int \<Rightarrow> (tile \<Rightarrow> tile) \<Rightarrow> world \<Rightarrow> world res" where
  "upd_tile t f w =
     and_then (arr_get (tiles w) t) (\<lambda>T.
     and_then (arr_set (tiles w) t (f T)) (\<lambda>ts. Inr (w\<lparr>tiles := ts\<rparr>)))"

definition get_team :: "int \<Rightarrow> world \<Rightarrow> team res" where
  "get_team i w = arr_get (teams w) i"

definition upd_team :: "int \<Rightarrow> (team \<Rightarrow> team) \<Rightarrow> world \<Rightarrow> world res" where
  "upd_team i f w =
     and_then (arr_get (teams w) i) (\<lambda>t.
     and_then (arr_set (teams w) i (f t)) (\<lambda>ts. Inr (w\<lparr>teams := ts\<rparr>)))"

text \<open>\<open>m_server.clients[i]\<close>; the array pointer is NULL after \<open>game_clean\<close>.\<close>

definition get_slot :: "int \<Rightarrow> world \<Rightarrow> ptr res" where
  "get_slot i w = (case clients w of None \<Rightarrow> Inl Null_Deref | Some cs \<Rightarrow> arr_get cs i)"

definition set_slot :: "int \<Rightarrow> ptr \<Rightarrow> world \<Rightarrow> world res" where
  "set_slot i c w =
     (case clients w of
        None \<Rightarrow> Inl Null_Deref
      | Some cs \<Rightarrow> and_then (arr_set cs i c) (\<lambda>cs'. Inr (w\<lparr>clients := Some cs'\<rparr>)))"

text \<open>The tile \<open>MAP(x, y)\<close>, as its index into the map array.\<close>

definition MAP :: "int \<Rightarrow> int \<Rightarrow> world \<Rightarrow> int" where
  "MAP x y w = y * map_x w + x"

definition rand :: "world \<Rightarrow> int \<times> world" where
  "rand w = (int (rnd w (rnd_pos w)), w\<lparr>rnd_pos := rnd_pos w + 1\<rparr>)"

definition malloc_client :: "client \<Rightarrow> world \<Rightarrow> ptr \<times> world" where
  "malloc_client c w = (Some (next_addr w),
     w\<lparr>cheap := (cheap w)(next_addr w \<mapsto> c), next_addr := next_addr w + 1\<rparr>)"

definition malloc_player :: "player \<Rightarrow> world \<Rightarrow> ptr \<times> world" where
  "malloc_player p w = (Some (next_addr w),
     w\<lparr>pheap := (pheap w)(next_addr w \<mapsto> p), next_addr := next_addr w + 1\<rparr>)"

definition malloc_observer :: "observer \<Rightarrow> world \<Rightarrow> ptr \<times> world" where
  "malloc_observer p w = (Some (next_addr w),
     w\<lparr>oheap := (oheap w)(next_addr w \<mapsto> p), next_addr := next_addr w + 1\<rparr>)"

text \<open>\<open>free\<close> of NULL does nothing, of an address no longer allocated is an error.\<close>

definition free_client :: "ptr \<Rightarrow> world \<Rightarrow> world res" where
  "free_client p w =
     (case p of None \<Rightarrow> Inr w
      | Some a \<Rightarrow> if cheap w a = None then Inl Use_After_Free else Inr (w\<lparr>cheap := (cheap w)(a := None)\<rparr>))"

definition free_player :: "ptr \<Rightarrow> world \<Rightarrow> world res" where
  "free_player p w =
     (case p of None \<Rightarrow> Inr w
      | Some a \<Rightarrow> if pheap w a = None then Inl Use_After_Free else Inr (w\<lparr>pheap := (pheap w)(a := None)\<rparr>))"

section \<open>Replies\<close>

definition send :: "int \<Rightarrow> json \<Rightarrow> world \<Rightarrow> world" where
  "send fd j w = w\<lparr>out := out w @ [(fd, j)]\<rparr>"

text \<open>\<open>server_create_response_to_command\<close> and \<open>m_create_json_response\<close> of \<open>server.c\<close>; printing
  an object never fails (memory aside).\<close>

definition response_json :: "string \<Rightarrow> string option \<Rightarrow> string option \<Rightarrow> json" where
  "response_json cmd arg status =
     JObject ([(''type'', JString ''response''), (''cmd'', JString cmd)]
       @ opt_member ''arg'' arg @ opt_member ''status'' status)"

definition server_create_response_to_command ::
  "int \<Rightarrow> string \<Rightarrow> string option \<Rightarrow> string option \<Rightarrow> world \<Rightarrow> int \<times> world" where
  "server_create_response_to_command fd cmd arg status w =
     (SUCCESS, send fd (response_json cmd arg status) w)"

definition server_send_json :: "int \<Rightarrow> json \<Rightarrow> world \<Rightarrow> int \<times> world" where
  "server_send_json fd resp w = (SUCCESS, send fd resp w)"

end
