(* ===== verification/Items.thy ===== *)
theory Items
  imports World
begin

text \<open>
  Inventories and the commands \<open>inventaire\<close>, \<open>prend\<close> and \<open>pose\<close> of \<open>game.c\<close>. The seven
  branches of \<open>m_helper_items_to_tiles\<close> do the same to one field each; \<open>item_count\<close> and
  \<open>item_add\<close> name the field. The claims: an item changes hands only if its owner has one,
  and none is created or lost.
\<close>

section \<open>Inventories\<close>

fun item_count :: "inventory_type \<Rightarrow> inventory \<Rightarrow> int" where
  "item_count NOURRITURE i = nourriture i"
| "item_count LINEMATE i = linemate i"
| "item_count DERAUMERE i = deraumere i"
| "item_count SIBUR i = sibur i"
| "item_count MENDIANE i = mendiane i"
| "item_count PHIRAS i = phiras i"
| "item_count THYSTAME i = thystame i"
| "item_count UNKNOWN i = 0"

fun item_add :: "inventory_type \<Rightarrow> int \<Rightarrow> inventory \<Rightarrow> inventory" where
  "item_add NOURRITURE n i = i\<lparr>nourriture := nourriture i + n\<rparr>"
| "item_add LINEMATE n i = i\<lparr>linemate := linemate i + n\<rparr>"
| "item_add DERAUMERE n i = i\<lparr>deraumere := deraumere i + n\<rparr>"
| "item_add SIBUR n i = i\<lparr>sibur := sibur i + n\<rparr>"
| "item_add MENDIANE n i = i\<lparr>mendiane := mendiane i + n\<rparr>"
| "item_add PHIRAS n i = i\<lparr>phiras := phiras i + n\<rparr>"
| "item_add THYSTAME n i = i\<lparr>thystame := thystame i + n\<rparr>"
| "item_add UNKNOWN n i = i"

definition empty_inventory :: inventory where
  "empty_inventory = \<lparr>nourriture = 0, linemate = 0, deraumere = 0, sibur = 0, mendiane = 0,
     phiras = 0, thystame = 0\<rparr>"

definition inventory_sum :: "inventory \<Rightarrow> int" where
  "inventory_sum i = nourriture i + linemate i + deraumere i + sibur i + mendiane i + phiras i
     + thystame i"

definition m_serialize_inventory :: "inventory \<Rightarrow> json" where
  "m_serialize_inventory i = JObject
     [(''nourriture'', JNumber (nourriture i)), (''linemate'', JNumber (linemate i)),
      (''deraumere'', JNumber (deraumere i)), (''sibur'', JNumber (sibur i)),
      (''mendiane'', JNumber (mendiane i)), (''phiras'', JNumber (phiras i)),
      (''thystame'', JNumber (thystame i))]"

definition inventory_names :: "(inventory_type \<times> string) list" where
  "inventory_names =
     [(NOURRITURE, ''nourriture''), (LINEMATE, ''linemate''), (DERAUMERE, ''deraumere''),
      (SIBUR, ''sibur''), (MENDIANE, ''mendiane''), (PHIRAS, ''phiras''), (THYSTAME, ''thystame'')]"

text \<open>The loop over a table of (value, name) pairs, as in \<open>prend\<close>, \<open>pose\<close> and the command table.\<close>

fun find_name :: "'a \<Rightarrow> ('a \<times> string) list \<Rightarrow> string \<Rightarrow> 'a" where
  "find_name dflt [] s = dflt"
| "find_name dflt ((v, n) # xs) s = (if s = n then v else find_name dflt xs s)"

section \<open>The commands\<close>

definition m_command_inventaire :: "ptr \<Rightarrow> string option \<Rightarrow> world \<Rightarrow> (int \<times> world) res" where
  "m_command_inventaire p arg w =
     and_then (get_player p w) (\<lambda>pl.
       let root = JObject [(''type'', JString ''response''), (''cmd'', JString ''inventaire''),
                           (''inventaire'', m_serialize_inventory (p_inv pl))];
           (r, w1) = server_send_json (p_id pl) root w
       in Inr (SUCCESS, w1))"

definition m_helper_items_to_tiles ::
  "int \<Rightarrow> ptr \<Rightarrow> int \<Rightarrow> inventory_type \<Rightarrow> world \<Rightarrow> (int \<times> world) res" where
  "m_helper_items_to_tiles t p add type w =
     (if type = UNKNOWN then Inr (ERROR, w)
      else if add = - 1 then
        and_then (get_tile t w) (\<lambda>T.
        if item_count type (t_items T) \<le> 0 then Inr (ERROR, w)
        else
          and_then (upd_tile t (\<lambda>T. T\<lparr>t_items := item_add type (- 1) (t_items T)\<rparr>) w) (\<lambda>w1.
          and_then (upd_player p (\<lambda>pl. pl\<lparr>p_inv := item_add type 1 (p_inv pl)\<rparr>) w1) (\<lambda>w2.
          Inr (SUCCESS, w2))))
      else if add = 1 then
        and_then (get_player p w) (\<lambda>pl.
        if item_count type (p_inv pl) \<le> 0 then Inr (ERROR, w)
        else
          and_then (upd_tile t (\<lambda>T. T\<lparr>t_items := item_add type 1 (t_items T)\<rparr>) w) (\<lambda>w1.
          and_then (upd_player p (\<lambda>pl. pl\<lparr>p_inv := item_add type (- 1) (p_inv pl)\<rparr>) w1) (\<lambda>w2.
          Inr (SUCCESS, w2))))
      else Inr (SUCCESS, w))"

definition m_command_prend :: "ptr \<Rightarrow> string option \<Rightarrow> world \<Rightarrow> (int \<times> world) res" where
  "m_command_prend p arg w =
     and_then (get_player p w) (\<lambda>pl.
       case arg of
         None \<Rightarrow> Inr (server_create_response_to_command (p_id pl) ''prend'' (Some ''Invalid arg.'') (Some ''ko'') w)
       | Some s \<Rightarrow>
           let type = find_name UNKNOWN inventory_names s in
           if type = UNKNOWN then
             Inr (server_create_response_to_command (p_id pl) ''prend'' (Some ''Unknown type.'') (Some ''ko'') w)
           else
             and_then (m_helper_items_to_tiles (MAP (pos_x (p_pos pl)) (pos_y (p_pos pl)) w) p (- 1) type w)
               (\<lambda>(r, w1).
                 if r = ERROR then Inr (server_create_response_to_command (p_id pl) ''prend'' (Some s) (Some ''ko'') w1)
                 else Inr (server_create_response_to_command (p_id pl) ''prend'' (Some s) (Some ''ok'') w1)))"

definition m_command_pose :: "ptr \<Rightarrow> string option \<Rightarrow> world \<Rightarrow> (int \<times> world) res" where
  "m_command_pose p arg w =
     and_then (get_player p w) (\<lambda>pl.
       case arg of
         None \<Rightarrow> Inr (server_create_response_to_command (p_id pl) ''pose'' (Some ''Invalid arg.'') (Some ''ko'') w)
       | Some s \<Rightarrow>
           let type = find_name UNKNOWN inventory_names s in
           if type = UNKNOWN then
             Inr (server_create_response_to_command (p_id pl) ''pose'' (Some ''Unknown type.'') (Some ''ko'') w)
           else
             and_then (m_helper_items_to_tiles (MAP (pos_x (p_pos pl)) (pos_y (p_pos pl)) w) p 1 type w)
               (\<lambda>(r, w1).
                 if r = ERROR then Inr (server_create_response_to_command (p_id pl) ''pose'' (Some s) (Some ''ko'') w1)
                 else Inr (server_create_response_to_command (p_id pl) ''pose'' (Some s) (Some ''ok'') w1)))"

end
