(* ===== verification/Vision.thy ===== *)
theory Vision
  imports Items
begin

text \<open>
  The command \<open>voir\<close> of \<open>game.c\<close>: a triangle of tiles in front of the player, row \<open>d\<close> with
  \<open>2 d + 1\<close> tiles, \<open>d\<close> from 0 to the player's level, on a map whose edges wrap.
\<close>

definition wrap :: "int \<Rightarrow> int \<Rightarrow> int res" where
  "wrap v m = and_then (c_rem v m) (\<lambda>r. Inr (if r < 0 then r + m else r))"

text \<open>The items of the tile are named once each; \<open>"player"\<close> depends on \<open>T->players\<close> and on
  \<open>p->next_on_tile\<close>.\<close>

definition build_tile_vision :: "tile \<Rightarrow> ptr \<Rightarrow> world \<Rightarrow> json res" where
  "build_tile_vision T p w =
     and_then (get_player p w) (\<lambda>pl.
     and_then (case t_players T of
                 None \<Rightarrow> Inr False
               | Some a \<Rightarrow> and_then (get_player (t_players T) w)
                   (\<lambda>q. Inr (p_id q \<noteq> p_id pl \<and> next_on_tile pl \<noteq> None))) (\<lambda>sees_player.
     Inr (JArray (map JString
       ((if sees_player then [''player''] else [])
        @ map snd (filter (\<lambda>(ty, name). item_count ty (t_items T) > 0) inventory_names))))))"

text \<open>The \<open>switch\<close> on the direction.\<close>

definition rel_pos :: "player \<Rightarrow> int \<Rightarrow> int \<Rightarrow> int \<times> int" where
  "rel_pos pl d i =
     (let x = pos_x (p_pos pl); y = pos_y (p_pos pl) in
      case p_dir pl of
        NORTH \<Rightarrow> (x - d + i, y - d)
      | EAST \<Rightarrow> (x + d, y - d + i)
      | SOUTH \<Rightarrow> (x + d - i, y + d)
      | WEST \<Rightarrow> (x - d, y + d - i))"

text \<open>The pairs \<open>(d, i)\<close> the two nested loops run through, in their order.\<close>

definition view_cells :: "int \<Rightarrow> (int \<times> int) list" where
  "view_cells lvl = concat (map (\<lambda>d. map (\<lambda>i. (int d, int i)) [0..<2 * d + 1]) [0..<nat (lvl + 1)])"

definition view_tile :: "player \<Rightarrow> world \<Rightarrow> int \<times> int \<Rightarrow> int res" where
  "view_tile pl w di =
     (let (rel_x, rel_y) = rel_pos pl (fst di) (snd di) in
      and_then (wrap rel_x (map_x w)) (\<lambda>x.
      and_then (wrap rel_y (map_y w)) (\<lambda>y. Inr (MAP x y w))))"

definition m_command_voir :: "ptr \<Rightarrow> string option \<Rightarrow> world \<Rightarrow> (int \<times> world) res" where
  "m_command_voir p arg w =
     and_then (get_player p w) (\<lambda>pl.
     and_then (traverse (\<lambda>di.
         and_then (view_tile pl w di) (\<lambda>t.
         and_then (get_tile t w) (\<lambda>T. build_tile_vision T p w))) (view_cells (p_level pl)))
       (\<lambda>vision.
         let (r, w1) = server_send_json (p_id pl) (JObject
               [(''type'', JString ''response''), (''cmd'', JString ''voir''),
                (''vision'', JArray vision)]) w
         in Inr (SUCCESS, w1)))"

section \<open>The view\<close>

lemma wrap_eq: "0 < m \<Longrightarrow> wrap v m = Inr (v mod m)"
proof -
  assume m: "0 < m"
  have "v smod m = (if 0 \<le> v then v mod m else - ((- v) mod m))"
    using m by (auto simp: smod_int_alt_def sgn_if)
  moreover have "(- ((- v) mod m)) mod m = v mod m"
    by (simp add: mod_minus_eq)
  moreover have "- ((- v) mod m) + m = v mod m" if "(- v) mod m \<noteq> 0"
  proof -
    have "(- ((- v) mod m) + m) mod m = v mod m"
      using \<open>(- ((- v) mod m)) mod m = v mod m\<close> by simp
    moreover have "(- ((- v) mod m) + m) mod m = - ((- v) mod m) + m"
      using m that pos_mod_bound [of m "- v"] pos_mod_sign [of m "- v"] by (intro mod_pos_pos_trivial) linarith+
    ultimately show ?thesis by (simp only:)
  qed
  moreover have "0 < (- v) mod m" if "(- v) mod m \<noteq> 0"
    using that m pos_mod_sign [of m "- v"] by linarith
  moreover have "\<not> v mod m < 0" using m by (simp add: not_less)
  ultimately show ?thesis
    using m by (cases "(- v) mod m = 0") (auto simp: wrap_def c_rem_def not_less)
qed

lemma length_view_cells: "length (view_cells lvl) = (nat (lvl + 1))\<^sup>2"
proof -
  have "length (concat (map (\<lambda>d. map (\<lambda>i. (int d, int i)) [0..<2 * d + 1]) [0..<n])) = n\<^sup>2" for n
    by (induction n) (simp_all add: power2_eq_square)
  then show ?thesis by (simp only: view_cells_def)
qed

text \<open>The position of the cell \<open>(d, i)\<close>: \<open>d\<close> steps ahead, \<open>i - d\<close> steps to the right.\<close>

definition ahead :: "direction \<Rightarrow> int \<times> int" where
  "ahead dir = (case dir of NORTH \<Rightarrow> (0, - 1) | EAST \<Rightarrow> (1, 0) | SOUTH \<Rightarrow> (0, 1) | WEST \<Rightarrow> (- 1, 0))"

definition rightwards :: "direction \<Rightarrow> int \<times> int" where
  "rightwards dir = (case dir of NORTH \<Rightarrow> (1, 0) | EAST \<Rightarrow> (0, 1) | SOUTH \<Rightarrow> (- 1, 0) | WEST \<Rightarrow> (0, - 1))"

definition cell_pos :: "world \<Rightarrow> player \<Rightarrow> int \<Rightarrow> int \<Rightarrow> position" where
  "cell_pos w pl d i =
     \<lparr>pos_x = (pos_x (p_pos pl) + d * fst (ahead (p_dir pl)) + (i - d) * fst (rightwards (p_dir pl))) mod map_x w,
      pos_y = (pos_y (p_pos pl) + d * snd (ahead (p_dir pl)) + (i - d) * snd (rightwards (p_dir pl))) mod map_y w\<rparr>"

lemma view_tile_eq:
  assumes "0 < map_x w" "0 < map_y w"
  shows "view_tile pl w (d, i) = Inr (MAP (pos_x (cell_pos w pl d i)) (pos_y (cell_pos w pl d i)) w)"
  using assms
  by (cases "p_dir pl")
    (simp_all add: view_tile_def rel_pos_def wrap_eq cell_pos_def ahead_def rightwards_def algebra_simps)

end
