(* ===== verification/Tiles.thy ===== *)
theory Tiles
  imports World
begin

text \<open>
  The players standing on a tile: the doubly linked lists threaded through
  \<open>next_on_tile\<close> and \<open>prev_on_tile\<close>, and \<open>m_game_add_player_to_tile\<close>,
  \<open>m_game_remove_player_from_tile\<close>, \<open>m_game_move_player\<close> of \<open>game.c\<close>. \<open>tile_rep occ w\<close> says that
  the lists of the world \<open>w\<close> hold the players \<open>occ i\<close>, in that order, on the tile of index
  \<open>i\<close>; the operations refine \<open>Cons\<close> and \<open>remove1\<close> on these lists.
\<close>

section \<open>The code\<close>

definition m_game_add_player_to_tile :: "int \<Rightarrow> ptr \<Rightarrow> world \<Rightarrow> (int \<times> world) res" where
  "m_game_add_player_to_tile t p w =
     and_then (get_tile t w) (\<lambda>T.
     and_then (upd_player p (\<lambda>pl. pl\<lparr>next_on_tile := t_players T, prev_on_tile := None\<rparr>) w) (\<lambda>w1.
     and_then (if t_players T \<noteq> None
               then upd_player (t_players T) (\<lambda>pl. pl\<lparr>prev_on_tile := p\<rparr>) w1
               else Inr w1) (\<lambda>w2.
     and_then (upd_tile t (\<lambda>T. T\<lparr>t_players := p\<rparr>) w2) (\<lambda>w3.
     and_then (upd_player p (\<lambda>pl. pl\<lparr>p_pos := t_pos T\<rparr>) w3) (\<lambda>w4.
       Inr (SUCCESS, w4))))))"

definition m_game_remove_player_from_tile :: "ptr \<Rightarrow> world \<Rightarrow> world res" where
  "m_game_remove_player_from_tile p w =
     and_then (get_player p w) (\<lambda>pl.
     let t = MAP (pos_x (p_pos pl)) (pos_y (p_pos pl)) w in
     and_then (if prev_on_tile pl \<noteq> None
               then upd_player (prev_on_tile pl) (\<lambda>q. q\<lparr>next_on_tile := next_on_tile pl\<rparr>) w
               else upd_tile t (\<lambda>T. T\<lparr>t_players := next_on_tile pl\<rparr>) w) (\<lambda>w1.
     and_then (if next_on_tile pl \<noteq> None
               then upd_player (next_on_tile pl) (\<lambda>q. q\<lparr>prev_on_tile := prev_on_tile pl\<rparr>) w1
               else Inr w1) (\<lambda>w2.
       upd_player p (\<lambda>q. q\<lparr>next_on_tile := None, prev_on_tile := None\<rparr>) w2)))"

definition m_game_move_player :: "ptr \<Rightarrow> int \<Rightarrow> int \<Rightarrow> world \<Rightarrow> world res" where
  "m_game_move_player p new_x new_y w =
     and_then (m_game_remove_player_from_tile p w) (\<lambda>w1.
     and_then (upd_player p (\<lambda>pl. pl\<lparr>p_pos := \<lparr>pos_x = new_x, pos_y = new_y\<rparr>\<rparr>) w1) (\<lambda>w2.
     and_then (m_game_add_player_to_tile (MAP new_x new_y w2) p w2) (\<lambda>(r, w3). Inr w3)))"

section \<open>Segments of a doubly linked list\<close>

text \<open>The list starting at \<open>p\<close>, its first \<open>prev\<close> pointer \<open>q\<close>, its last \<open>next\<close> pointer \<open>e\<close>.\<close>

fun dseg :: "(nat \<rightharpoonup> player) \<Rightarrow> ptr \<Rightarrow> ptr \<Rightarrow> nat list \<Rightarrow> ptr \<Rightarrow> bool" where
  "dseg h q p [] e = (p = e)"
| "dseg h q p (a # as) e =
     (p = Some a \<and> (\<exists>pl. h a = Some pl \<and> prev_on_tile pl = q \<and> dseg h (Some a) (next_on_tile pl) as e))"

definition lastptr :: "ptr \<Rightarrow> nat list \<Rightarrow> ptr" where
  "lastptr q xs = (if xs = [] then q else Some (last xs))"

lemma lastptr_simps [simp]:
  "lastptr q [] = q" "lastptr q (a # xs) = lastptr (Some a) xs" "lastptr q (xs @ [a]) = Some a"
  by (auto simp: lastptr_def)

definition links :: "player \<Rightarrow> ptr \<times> ptr" where
  "links pl = (prev_on_tile pl, next_on_tile pl)"

lemma dseg_append:
  "dseg h q p (xs @ ys) e \<longleftrightarrow> (\<exists>m. dseg h q p xs m \<and> dseg h (lastptr q xs) m ys e)"
  by (induction xs arbitrary: q p) auto

lemma dseg_alloc: "dseg h q p xs e \<Longrightarrow> a \<in> set xs \<Longrightarrow> \<exists>pl. h a = Some pl"
  by (induction xs arbitrary: q p) auto

lemma dseg_frame:
  "dseg h q p xs e \<Longrightarrow> (\<And>a. a \<in> set xs \<Longrightarrow> map_option links (h' a) = map_option links (h a)) \<Longrightarrow>
   dseg h' q p xs e"
proof (induction xs arbitrary: q p)
  case Nil
  then show ?case by simp
next
  case (Cons a xs)
  then obtain pl where pl: "h a = Some pl" "prev_on_tile pl = q"
    "dseg h (Some a) (next_on_tile pl) xs e" and p: "p = Some a"
    by auto
  moreover have "map_option links (h' a) = map_option links (h a)"
    using Cons.prems(2) by simp
  ultimately obtain pl' where "h' a = Some pl'" "links pl' = links pl"
    by auto
  moreover have "dseg h' (Some a) (next_on_tile pl) xs e"
    using Cons.IH [OF pl(3)] Cons.prems(2) by simp
  ultimately show ?case
    using pl(2) p by (auto simp: links_def)
qed

lemma dseg_update_other:
  "dseg h q p xs e \<Longrightarrow> a \<notin> set xs \<Longrightarrow> dseg (h(a := v)) q p xs e"
  by (erule dseg_frame) auto

lemma dseg_relink_first:
  assumes "dseg h q (Some c) (c # ws) e" "distinct (c # ws)" "h c = Some pl"
  shows "dseg (h(c \<mapsto> pl\<lparr>prev_on_tile := q'\<rparr>)) q' (Some c) (c # ws) e"
  using assms by (auto intro: dseg_update_other)

lemma dseg_relink_last:
  assumes "dseg h q p (us @ [b]) e" "distinct (us @ [b])" "h b = Some pl"
  shows "dseg (h(b \<mapsto> pl\<lparr>next_on_tile := e'\<rparr>)) q p (us @ [b]) e'"
  using assms by (auto simp: dseg_append intro: dseg_update_other)

text \<open>The \<open>prev\<close> and \<open>next\<close> pointers of a member, read off its place in the list.\<close>

lemma dseg_member:
  assumes "dseg h q p (us @ a # vs) e"
  obtains pl where "h a = Some pl" "prev_on_tile pl = lastptr q us"
    "dseg h q p us (Some a)" "dseg h (Some a) (next_on_tile pl) vs e"
  using assms by (auto simp: dseg_append)

lemma dseg_start: "dseg h q p xs None \<Longrightarrow> p = (case xs of [] \<Rightarrow> None | a # as \<Rightarrow> Some a)"
  by (cases xs) auto

text \<open>Taking a member out: its neighbours are linked to each other.\<close>

definition relink_next :: "ptr \<Rightarrow> ptr \<Rightarrow> (nat \<rightharpoonup> player) \<Rightarrow> nat \<rightharpoonup> player" where
  "relink_next b e h = (case b of None \<Rightarrow> h | Some a \<Rightarrow>
     h(a := map_option (\<lambda>pl. pl\<lparr>next_on_tile := e\<rparr>) (h a)))"

definition relink_prev :: "ptr \<Rightarrow> ptr \<Rightarrow> (nat \<rightharpoonup> player) \<Rightarrow> nat \<rightharpoonup> player" where
  "relink_prev c q h = (case c of None \<Rightarrow> h | Some a \<Rightarrow>
     h(a := map_option (\<lambda>pl. pl\<lparr>prev_on_tile := q\<rparr>) (h a)))"

lemma dseg_unlink:
  assumes seg: "dseg h None p (us @ a # vs) None" and d: "distinct (us @ a # vs)"
    and pl: "h a = Some pl"
  shows "dseg (relink_prev (next_on_tile pl) (prev_on_tile pl)
                (relink_next (prev_on_tile pl) (next_on_tile pl) h)) None
           (if us = [] then next_on_tile pl else p) (us @ vs) None"
proof -
  obtain q where left: "dseg h None p us (Some a)" and right: "dseg h (Some a) (next_on_tile pl) vs None"
    and q: "prev_on_tile pl = q" "q = lastptr None us"
    using dseg_member [OF seg] pl by (metis option.inject)
  let ?h1 = "relink_next q (next_on_tile pl) h"
  have left1: "dseg ?h1 None (if us = [] then next_on_tile pl else p) us (next_on_tile pl)"
  proof (cases us rule: rev_cases)
    case Nil
    then show ?thesis by simp
  next
    case (snoc us' b)
    obtain plb where plb: "h b = Some plb"
      using dseg_alloc [OF left, of b] snoc by auto
    then show ?thesis
      using dseg_relink_last [OF left [unfolded snoc] _ plb, of "next_on_tile pl"] d q snoc
      by (simp add: relink_next_def)
  qed
  have right1: "dseg ?h1 (Some a) (next_on_tile pl) vs None"
    using right d q
    by (cases us rule: rev_cases) (auto simp: relink_next_def intro: dseg_update_other)
  show ?thesis
  proof (cases vs)
    case Nil
    with right have "next_on_tile pl = None" by simp
    with left1 q Nil show ?thesis by (simp add: relink_prev_def)
  next
    case (Cons c ws)
    then have c: "next_on_tile pl = Some c" using right by simp
    obtain plc where plc: "?h1 c = Some plc"
      using dseg_alloc [OF right1, of c] Cons by auto
    have "dseg (?h1(c \<mapsto> plc\<lparr>prev_on_tile := q\<rparr>)) q (Some c) vs None"
      using dseg_relink_first [of ?h1 "Some a" c ws None plc q] right1 c Cons d plc by simp
    moreover have "dseg (?h1(c \<mapsto> plc\<lparr>prev_on_tile := q\<rparr>)) None
        (if us = [] then next_on_tile pl else p) us (Some c)"
      using left1 c Cons d by (auto intro: dseg_update_other)
    ultimately show ?thesis
      using plc c q by (auto simp: relink_prev_def dseg_append)
  qed
qed

section \<open>The map\<close>

definition in_map :: "world \<Rightarrow> position \<Rightarrow> bool" where
  "in_map w q \<longleftrightarrow> 0 \<le> pos_x q \<and> pos_x q < map_x w \<and> 0 \<le> pos_y q \<and> pos_y q < map_y w"

definition tile_no :: "world \<Rightarrow> position \<Rightarrow> nat" where
  "tile_no w q = nat (MAP (pos_x q) (pos_y q) w)"

definition geometry :: "world \<Rightarrow> bool" where
  "geometry w \<longleftrightarrow> 0 < map_x w \<and> 0 < map_y w \<and> int (length (tiles w)) = map_x w * map_y w \<and>
     (\<forall>i < length (tiles w). t_pos (tiles w ! i)
        = \<lparr>pos_x = int i mod map_x w, pos_y = int i div map_x w\<rparr>)"

lemma MAP_bounds:
  assumes "geometry w" "0 \<le> x" "x < map_x w" "0 \<le> y" "y < map_y w"
  shows "0 \<le> MAP x y w" "MAP x y w < int (length (tiles w))"
proof -
  show "0 \<le> MAP x y w"
    using assms by (simp add: MAP_def)
  have "y * map_x w + x < (y + 1) * map_x w"
    using assms by (simp add: algebra_simps)
  also have "\<dots> \<le> map_y w * map_x w"
    using assms by (intro mult_right_mono) auto
  finally show "MAP x y w < int (length (tiles w))"
    using assms(1) by (simp add: MAP_def geometry_def mult.commute)
qed

lemma int_tile_no [simp]:
  "geometry w \<Longrightarrow> in_map w q \<Longrightarrow> int (tile_no w q) = MAP (pos_x q) (pos_y q) w"
  using MAP_bounds(1) [of w "pos_x q" "pos_y q"] by (simp add: tile_no_def in_map_def)

lemma tile_no_less: "geometry w \<Longrightarrow> in_map w q \<Longrightarrow> tile_no w q < length (tiles w)"
  using MAP_bounds [of w "pos_x q" "pos_y q"] by (simp add: tile_no_def in_map_def nat_less_iff)

lemma t_pos_tile_no:
  assumes "geometry w" "in_map w q"
  shows "t_pos (tiles w ! tile_no w q) = q"
proof -
  have "MAP (pos_x q) (pos_y q) w mod map_x w = pos_x q"
    "MAP (pos_x q) (pos_y q) w div map_x w = pos_y q"
    using assms(2) by (simp_all add: MAP_def in_map_def)
  moreover have "t_pos (tiles w ! tile_no w q)
      = \<lparr>pos_x = int (tile_no w q) mod map_x w, pos_y = int (tile_no w q) div map_x w\<rparr>"
    using assms tile_no_less [OF assms] by (simp add: geometry_def)
  ultimately show ?thesis
    using assms by simp
qed

lemma tile_pos:
  assumes "geometry w" "i < length (tiles w)"
  shows "in_map w (t_pos (tiles w ! i))" "tile_no w (t_pos (tiles w ! i)) = i"
proof -
  have pos: "t_pos (tiles w ! i) = \<lparr>pos_x = int i mod map_x w, pos_y = int i div map_x w\<rparr>"
    and x: "0 < map_x w" and i: "int i < map_x w * map_y w"
    using assms by (auto simp: geometry_def)
  have "int i div map_x w < map_y w"
  proof (rule ccontr)
    assume "\<not> int i div map_x w < map_y w"
    then have "map_x w * map_y w \<le> map_x w * (int i div map_x w)"
      using x by (intro mult_left_mono) auto
    also have "\<dots> \<le> int i"
      using x pos_mod_sign [of "map_x w" "int i"] mult_div_mod_eq [of "map_x w" "int i"] by linarith
    finally show False using i by simp
  qed
  then show "in_map w (t_pos (tiles w ! i))"
    using pos x by (simp add: in_map_def pos_imp_zdiv_nonneg_iff)
  show "tile_no w (t_pos (tiles w ! i)) = i"
    using pos by (simp add: tile_no_def MAP_def)
qed

section \<open>The lists on the tiles\<close>

definition tile_rep :: "(nat \<Rightarrow> nat list) \<Rightarrow> world \<Rightarrow> bool" where
  "tile_rep occ w \<longleftrightarrow> (\<forall>i < length (tiles w).
     dseg (pheap w) None (t_players (tiles w ! i)) (occ i) None \<and> distinct (occ i) \<and>
     (\<forall>a \<in> set (occ i). \<exists>pl. pheap w a = Some pl \<and> p_pos pl = t_pos (tiles w ! i)))"

lemma tile_repD:
  assumes "tile_rep occ w" "i < length (tiles w)"
  shows "dseg (pheap w) None (t_players (tiles w ! i)) (occ i) None" "distinct (occ i)"
    "\<And>a. a \<in> set (occ i) \<Longrightarrow> \<exists>pl. pheap w a = Some pl \<and> p_pos pl = t_pos (tiles w ! i)"
  using assms by (auto simp: tile_rep_def)

text \<open>A player stands on one tile only.\<close>

lemma occ_disjoint:
  assumes "geometry w" "tile_rep occ w" "i < length (tiles w)" "j < length (tiles w)"
    and "a \<in> set (occ i)" "a \<in> set (occ j)"
  shows "i = j"
proof -
  obtain pl where "pheap w a = Some pl" "p_pos pl = t_pos (tiles w ! i)"
    using tile_repD(3) [OF assms(2,3,5)] by blast
  moreover obtain pl' where "pheap w a = Some pl'" "p_pos pl' = t_pos (tiles w ! j)"
    using tile_repD(3) [OF assms(2,4,6)] by blast
  ultimately have "t_pos (tiles w ! i) = t_pos (tiles w ! j)" by simp
  with tile_pos(2) [OF assms(1,3)] tile_pos(2) [OF assms(1,4)] show ?thesis by metis
qed

text \<open>Everything about a player but its links.\<close>

definition core :: "player \<Rightarrow> player" where
  "core pl = pl\<lparr>next_on_tile := None, prev_on_tile := None\<rparr>"

definition same_cores :: "(nat \<rightharpoonup> player) \<Rightarrow> (nat \<rightharpoonup> player) \<Rightarrow> bool" where
  "same_cores h h' \<longleftrightarrow> (\<forall>a. map_option core (h' a) = map_option core (h a))"

definition tile_core :: "tile \<Rightarrow> tile" where
  "tile_core T = T\<lparr>t_players := None\<rparr>"

text \<open>Only links and list heads changed; \<open>h\<close> is the heap up to links.\<close>

definition relinked :: "(nat \<rightharpoonup> player) \<Rightarrow> world \<Rightarrow> world \<Rightarrow> bool" where
  "relinked h w w' \<longleftrightarrow> (\<exists>h' ts. w' = w\<lparr>pheap := h', tiles := ts\<rparr> \<and> same_cores h h' \<and>
     map tile_core ts = map tile_core (tiles w))"

lemma relinkedE:
  assumes "relinked h w w'"
  obtains h' ts where "w' = w\<lparr>pheap := h', tiles := ts\<rparr>" "same_cores h h'"
    "map tile_core ts = map tile_core (tiles w)"
  using assms unfolding relinked_def by blast

lemma relinkedI:
  "same_cores h h' \<Longrightarrow> map tile_core ts = map tile_core (tiles w) \<Longrightarrow>
   relinked h w (w\<lparr>pheap := h', tiles := ts\<rparr>)"
  unfolding relinked_def by (intro exI [of _ h'] exI [of _ ts]) simp

lemma same_cores_refl [simp]: "same_cores h h"
  by (simp add: same_cores_def)

lemma same_cores_trans: "same_cores h h' \<Longrightarrow> same_cores h' h'' \<Longrightarrow> same_cores h h''"
  by (simp add: same_cores_def)

lemma same_coresD:
  assumes "same_cores h h'" "h a = Some pl"
  shows "\<exists>pl'. h' a = Some pl' \<and> core pl' = core pl"
proof -
  have "map_option core (h' a) = Some (core pl)"
    using assms by (simp add: same_cores_def)
  then show ?thesis by auto
qed

lemma same_cores_links:
  assumes "same_cores h h'" "h' a = Some pl" "core pl' = core pl"
  shows "same_cores h (h'(a \<mapsto> pl'))"
  using assms by (auto simp: same_cores_def split: if_splits) (metis option.simps(9))

lemma core_links [simp]:
  "core (pl\<lparr>next_on_tile := n\<rparr>) = core pl" "core (pl\<lparr>prev_on_tile := n\<rparr>) = core pl"
  by (simp_all add: core_def)

lemma coreD:
  assumes "core pl = core pl'"
  shows "p_id pl = p_id pl'" "p_team_id pl = p_team_id pl'" "p_level pl = p_level pl'"
    "p_pos pl = p_pos pl'" "p_dir pl = p_dir pl'" "p_inv pl = p_inv pl'"
    "p_die_time pl = p_die_time pl'" "p_start_time pl = p_start_time pl'"
  using assms by (cases pl, cases pl', simp add: core_def)+

lemma tile_coreD:
  assumes "map tile_core ts = map tile_core us"
  shows "length ts = length us" "i < length us \<Longrightarrow> t_pos (ts ! i) = t_pos (us ! i)"
    "i < length us \<Longrightarrow> t_items (ts ! i) = t_items (us ! i)"
proof -
  show len: "length ts = length us"
    using assms by (rule map_eq_imp_length_eq)
  have "tile_core (ts ! i) = tile_core (us ! i)" if "i < length us"
    using assms len that by (metis nth_map)
  then show "i < length us \<Longrightarrow> t_pos (ts ! i) = t_pos (us ! i)"
    "i < length us \<Longrightarrow> t_items (ts ! i) = t_items (us ! i)"
    by (cases "ts ! i", cases "us ! i", simp add: tile_core_def)+
qed

lemma geometry_cong:
  "map_x w' = map_x w \<Longrightarrow> map_y w' = map_y w \<Longrightarrow>
   map tile_core (tiles w') = map tile_core (tiles w) \<Longrightarrow> geometry w' = geometry w"
  using tile_coreD [of "tiles w'" "tiles w"] by (auto simp: geometry_def)

lemma relinked_maps: "relinked h w w' \<Longrightarrow> map_x w' = map_x w \<and> map_y w' = map_y w"
  by (auto simp: relinked_def)

lemma same_cores_relink_next [simp]: "same_cores h (relink_next b e h)"
  by (auto simp: same_cores_def relink_next_def option.map_comp comp_def split: option.splits)

lemma same_cores_relink_prev [simp]: "same_cores h (relink_prev b e h)"
  by (auto simp: same_cores_def relink_prev_def option.map_comp comp_def split: option.splits)

lemma relink_next_other: "b \<noteq> Some x \<Longrightarrow> relink_next b e h x = h x"
  by (auto simp: relink_next_def split: option.splits)

lemma relink_prev_other: "b \<noteq> Some x \<Longrightarrow> relink_prev b e h x = h x"
  by (auto simp: relink_prev_def split: option.splits)

lemma relink_alloc [simp]:
  "(\<exists>pl. relink_next b e h x = Some pl) \<longleftrightarrow> (\<exists>pl. h x = Some pl)"
  "(\<exists>pl. relink_prev b e h x = Some pl) \<longleftrightarrow> (\<exists>pl. h x = Some pl)"
  by (auto simp: relink_next_def relink_prev_def split: option.splits)

lemma upd_player_next:
  "b = None \<or> (\<exists>x q. b = Some x \<and> pheap w x = Some q) \<Longrightarrow>
   (if b \<noteq> None then upd_player b (\<lambda>q. q\<lparr>next_on_tile := e\<rparr>) w else Inr w)
     = Inr (w\<lparr>pheap := relink_next b e (pheap w)\<rparr>)"
  by (auto simp: upd_player_def update_ref_Some relink_next_def)

lemma upd_player_prev:
  "b = None \<or> (\<exists>x q. b = Some x \<and> pheap w x = Some q) \<Longrightarrow>
   (if b \<noteq> None then upd_player b (\<lambda>q. q\<lparr>prev_on_tile := e\<rparr>) w else Inr w)
     = Inr (w\<lparr>pheap := relink_prev b e (pheap w)\<rparr>)"
  by (auto simp: upd_player_def update_ref_Some relink_prev_def)

lemma upd_tile_head:
  "i < length (tiles w) \<Longrightarrow> upd_tile (int i) f w = Inr (w\<lparr>tiles := (tiles w)[i := f (tiles w ! i)]\<rparr>)"
  by (simp add: upd_tile_def)

lemma tile_core_head:
  "i < length ts \<Longrightarrow> map tile_core (ts[i := (ts ! i)\<lparr>t_players := p\<rparr>]) = map tile_core ts"
  by (auto simp: list_eq_iff_nth_eq nth_list_update tile_core_def)

section \<open>Removing a player from its tile\<close>

lemma remove_code:
  assumes pl: "pheap w a = Some pl"
    and b: "prev_on_tile pl = None \<or> (\<exists>x q. prev_on_tile pl = Some x \<and> pheap w x = Some q)"
    and c: "next_on_tile pl = None \<or> (\<exists>x q. next_on_tile pl = Some x \<and> pheap w x = Some q)"
    and a: "prev_on_tile pl \<noteq> Some a" "next_on_tile pl \<noteq> Some a"
    and i: "int i = MAP (pos_x (p_pos pl)) (pos_y (p_pos pl)) w" "i < length (tiles w)"
  shows "m_game_remove_player_from_tile (Some a) w = Inr (w
    \<lparr>pheap := (relink_prev (next_on_tile pl) (prev_on_tile pl)
        (relink_next (prev_on_tile pl) (next_on_tile pl) (pheap w)))
          (a \<mapsto> pl\<lparr>next_on_tile := None, prev_on_tile := None\<rparr>),
     tiles := (if prev_on_tile pl = None
        then (tiles w)[i := (tiles w ! i)\<lparr>t_players := next_on_tile pl\<rparr>] else tiles w)\<rparr>)"
proof -
  let ?w1 = "w\<lparr>pheap := relink_next (prev_on_tile pl) (next_on_tile pl) (pheap w),
    tiles := (if prev_on_tile pl = None
        then (tiles w)[i := (tiles w ! i)\<lparr>t_players := next_on_tile pl\<rparr>] else tiles w)\<rparr>"
  have one: "(if prev_on_tile pl \<noteq> None
        then upd_player (prev_on_tile pl) (\<lambda>q. q\<lparr>next_on_tile := next_on_tile pl\<rparr>) w
        else upd_tile (MAP (pos_x (p_pos pl)) (pos_y (p_pos pl)) w)
               (\<lambda>T. T\<lparr>t_players := next_on_tile pl\<rparr>) w) = Inr ?w1"
    using upd_player_next [OF b, of "next_on_tile pl"] i(2)
    unfolding i(1) [symmetric] by (auto simp: upd_tile_head relink_next_def)
  have c1: "next_on_tile pl = None \<or> (\<exists>x q. next_on_tile pl = Some x \<and> pheap ?w1 x = Some q)"
    using c by auto
  have "relink_prev (next_on_tile pl) (prev_on_tile pl)
      (relink_next (prev_on_tile pl) (next_on_tile pl) (pheap w)) a = Some pl"
    using a pl by (simp add: relink_prev_other relink_next_other)
  then show ?thesis
    unfolding m_game_remove_player_from_tile_def get_player_def Let_def
    by (simp only: deref_Some [of "pheap w", OF pl] and_then_Inr one upd_player_prev [OF c1])
      (simp add: upd_player_def update_ref_Some)
qed

lemma remove_rep:
  assumes geo: "geometry w" and rep: "tile_rep occ w" and pl: "pheap w a = Some pl"
    and pos: "in_map w (p_pos pl)" and on: "a \<in> set (occ (tile_no w (p_pos pl)))"
  shows "\<exists>w'. m_game_remove_player_from_tile (Some a) w = Inr w' \<and> relinked (pheap w) w w' \<and>
    tile_rep (occ(tile_no w (p_pos pl) := remove1 a (occ (tile_no w (p_pos pl))))) w'"
proof -
  let ?i = "tile_no w (p_pos pl)"
  have i: "int ?i = MAP (pos_x (p_pos pl)) (pos_y (p_pos pl)) w" "?i < length (tiles w)"
    using geo pos by (simp_all add: tile_no_less)
  obtain us vs where occ: "occ ?i = us @ a # vs"
    using split_list [OF on] by blast
  have seg: "dseg (pheap w) None (t_players (tiles w ! ?i)) (us @ a # vs) None"
    and d: "distinct (us @ a # vs)"
    using tile_repD(1,2) [OF rep i(2)] occ by simp_all
  obtain left: "prev_on_tile pl = lastptr None us"
    and right: "dseg (pheap w) (Some a) (next_on_tile pl) vs None"
    and seg_us: "dseg (pheap w) None (t_players (tiles w ! ?i)) us (Some a)"
    using dseg_member [OF seg] pl by (metis option.inject)
  have nx: "next_on_tile pl = (case vs of [] \<Rightarrow> None | c # cs \<Rightarrow> Some c)"
    using right by (rule dseg_start)
  have b: "prev_on_tile pl = None \<or> (\<exists>x q. prev_on_tile pl = Some x \<and> x \<in> set us \<and> pheap w x = Some q)"
    using left dseg_alloc [OF seg] by (cases us rule: rev_cases) auto
  have c: "next_on_tile pl = None \<or> (\<exists>x q. next_on_tile pl = Some x \<and> x \<in> set vs \<and> pheap w x = Some q)"
    using nx dseg_alloc [OF right] by (cases vs) auto
  define h where "h = (relink_prev (next_on_tile pl) (prev_on_tile pl)
        (relink_next (prev_on_tile pl) (next_on_tile pl) (pheap w)))
          (a \<mapsto> pl\<lparr>next_on_tile := None, prev_on_tile := None\<rparr>)"
  define ts where "ts = (if prev_on_tile pl = None
        then (tiles w)[?i := (tiles w ! ?i)\<lparr>t_players := next_on_tile pl\<rparr>] else tiles w)"
  let ?w = "w\<lparr>pheap := h, tiles := ts\<rparr>"
  have run: "m_game_remove_player_from_tile (Some a) w = Inr ?w"
    unfolding h_def ts_def using b c d i by (intro remove_code [OF pl]) auto
  have not_a: "prev_on_tile pl \<noteq> Some a" "next_on_tile pl \<noteq> Some a"
    using b c d by auto
  have cores: "same_cores (pheap w) h"
    unfolding h_def
    using same_cores_trans [OF same_cores_relink_next same_cores_relink_prev] pl not_a
    by (intro same_cores_links [where pl = pl]) (auto simp: relink_prev_other relink_next_other core_def)
  have ts: "map tile_core ts = map tile_core (tiles w)"
    unfolding ts_def
    using i(2) by (simp add: tile_core_head)
  have other: "h x = pheap w x" if "x \<notin> set (occ ?i)" for x
  proof -
    have "prev_on_tile pl \<noteq> Some x" "next_on_tile pl \<noteq> Some x" "x \<noteq> a"
      using that occ b c by auto
    then show ?thesis by (simp add: h_def relink_prev_other relink_next_other)
  qed
  have "tile_rep (occ(?i := remove1 a (occ ?i))) ?w"
    unfolding tile_rep_def
  proof (intro allI impI conjI ballI)
    fix j
    assume "j < length (tiles ?w)"
    then have j: "j < length (tiles w)" using tile_coreD(1) [OF ts] by simp
    show "dseg (pheap ?w) None (t_players (tiles ?w ! j)) ((occ(?i := remove1 a (occ ?i))) j) None"
    proof (cases "j = ?i")
      case True
      have "t_players (ts ! ?i) = (if us = [] then next_on_tile pl else t_players (tiles w ! ?i))"
        using left i(2) by (cases us rule: rev_cases) (auto simp: ts_def)
      then show ?thesis
        using dseg_update_other [OF dseg_unlink [OF seg d pl], of a] d occ True
        by (simp add: remove1_append h_def)
    next
      case False
      have "dseg h None (t_players (tiles w ! j)) (occ j) None"
      proof (rule dseg_frame [OF tile_repD(1) [OF rep j]])
        fix x
        assume "x \<in> set (occ j)"
        then have "x \<notin> set (occ ?i)"
          using occ_disjoint [OF geo rep j i(2)] False by blast
        then show "map_option links (h x) = map_option links (pheap w x)"
          using other by simp
      qed
      with False show ?thesis by (simp add: ts_def)
    qed
    show "distinct ((occ(?i := remove1 a (occ ?i))) j)"
      using tile_repD(2) [OF rep j] by (cases "j = ?i") auto
    fix x
    assume "x \<in> set ((occ(?i := remove1 a (occ ?i))) j)"
    then have "x \<in> set (occ j)"
      using notin_set_remove1 [of x "occ ?i" a] by (cases "j = ?i") auto
    then obtain q where q: "pheap w x = Some q" "p_pos q = t_pos (tiles w ! j)"
      using tile_repD(3) [OF rep j] by blast
    then obtain q' where q': "h x = Some q'" "core q' = core q"
      using same_coresD [OF cores] by blast
    with coreD(4) [OF q'(2)] q(2) tile_coreD(2) [OF ts j]
    show "\<exists>pl. pheap ?w x = Some pl \<and> p_pos pl = t_pos (tiles ?w ! j)"
      by simp
  qed
  then show ?thesis
    using run relinkedI [OF cores ts] by blast
qed

section \<open>Putting a player on a tile, moving it\<close>

lemma add_code:
  assumes pl: "pheap w a = Some pl" and i: "i < length (tiles w)"
    and hd: "t_players (tiles w ! i) = None \<or>
      (\<exists>x q. t_players (tiles w ! i) = Some x \<and> x \<noteq> a \<and> pheap w x = Some q)"
  shows "m_game_add_player_to_tile (int i) (Some a) w = Inr (SUCCESS, w
    \<lparr>pheap := (relink_prev (t_players (tiles w ! i)) (Some a) (pheap w))
       (a \<mapsto> pl\<lparr>next_on_tile := t_players (tiles w ! i), prev_on_tile := None,
         p_pos := t_pos (tiles w ! i)\<rparr>),
     tiles := (tiles w)[i := (tiles w ! i)\<lparr>t_players := Some a\<rparr>]\<rparr>)"
proof -
  let ?w1 = "w\<lparr>pheap := (pheap w)(a \<mapsto> pl\<lparr>next_on_tile := t_players (tiles w ! i), prev_on_tile := None\<rparr>)\<rparr>"
  have one: "upd_player (Some a) (\<lambda>q. q\<lparr>next_on_tile := t_players (tiles w ! i), prev_on_tile := None\<rparr>) w
      = Inr ?w1"
    using pl by (simp add: upd_player_def update_ref_Some)
  have hd1: "t_players (tiles w ! i) = None \<or>
      (\<exists>x q. t_players (tiles w ! i) = Some x \<and> pheap ?w1 x = Some q)"
    using hd by auto
  have swap: "relink_prev (t_players (tiles w ! i)) (Some a) (pheap ?w1)
      = (relink_prev (t_players (tiles w ! i)) (Some a) (pheap w))
          (a \<mapsto> pl\<lparr>next_on_tile := t_players (tiles w ! i), prev_on_tile := None\<rparr>)"
    using hd by (auto simp: relink_prev_def fun_upd_twist)
  show ?thesis
    unfolding m_game_add_player_to_tile_def get_tile_def
    using i
    by (simp only: arr_get_in of_nat_0_le_iff of_nat_less_iff nat_int and_then_Inr one
        upd_player_prev [OF hd1] swap)
      (simp add: upd_tile_head upd_player_def update_ref_Some)
qed

lemma add_rep:
  assumes rep: "tile_rep occ w" and pl: "pheap w a = Some pl" and i: "i < length (tiles w)"
    and geo: "geometry w" and off: "\<And>j. j < length (tiles w) \<Longrightarrow> a \<notin> set (occ j)"
  shows "\<exists>w'. m_game_add_player_to_tile (int i) (Some a) w = Inr (SUCCESS, w') \<and>
    relinked ((pheap w)(a \<mapsto> pl\<lparr>p_pos := t_pos (tiles w ! i)\<rparr>)) w w' \<and>
    tile_rep (occ(i := a # occ i)) w'"
proof -
  let ?p = "t_players (tiles w ! i)"
  let ?new = "pl\<lparr>next_on_tile := ?p, prev_on_tile := None, p_pos := t_pos (tiles w ! i)\<rparr>"
  let ?h = "(relink_prev ?p (Some a) (pheap w))(a \<mapsto> ?new)"
  let ?ts = "(tiles w)[i := (tiles w ! i)\<lparr>t_players := Some a\<rparr>]"
  let ?w = "w\<lparr>pheap := ?h, tiles := ?ts\<rparr>"
  have seg: "dseg (pheap w) None ?p (occ i) None"
    using tile_repD(1) [OF rep i] .
  have p: "?p = (case occ i of [] \<Rightarrow> None | c # cs \<Rightarrow> Some c)"
    using dseg_start [OF seg] .
  have hd: "?p = None \<or> (\<exists>x q. ?p = Some x \<and> x \<noteq> a \<and> x \<in> set (occ i) \<and> pheap w x = Some q)"
    using p off [OF i] dseg_alloc [OF seg] by (cases "occ i") auto
  have run: "m_game_add_player_to_tile (int i) (Some a) w = Inr (SUCCESS, ?w)"
    using hd by (intro add_code [OF pl i]) auto
  have cores: "same_cores ((pheap w)(a \<mapsto> pl\<lparr>p_pos := t_pos (tiles w ! i)\<rparr>)) ?h"
    using same_cores_relink_prev [of "pheap w" ?p "Some a"]
    by (auto simp: same_cores_def core_def)
  have ts: "map tile_core ?ts = map tile_core (tiles w)"
    using i by (rule tile_core_head)
  have other: "?h x = pheap w x" if "x \<notin> set (occ i)" "x \<noteq> a" for x
  proof -
    have "?p \<noteq> Some x" using that hd by auto
    with that(2) show ?thesis by (simp add: relink_prev_other)
  qed
  have seg_i: "dseg ?h None (Some a) (a # occ i) None"
  proof (cases "occ i")
    case Nil
    with p show ?thesis by simp
  next
    case (Cons c cs)
    then obtain q where q: "pheap w c = Some q" "?p = Some c"
      using p dseg_alloc [OF seg, of c] by auto
    have "dseg ((pheap w)(c \<mapsto> q\<lparr>prev_on_tile := Some a\<rparr>)) (Some a) (Some c) (occ i) None"
      using dseg_relink_first [of "pheap w" None c cs None q "Some a"] seg q
        tile_repD(2) [OF rep i] Cons by simp
    then have "dseg ?h (Some a) (Some c) (occ i) None"
      using dseg_update_other [of _ _ _ "occ i" _ a] off [OF i] q by (simp add: relink_prev_def)
    then show ?thesis using q by simp
  qed
  have "tile_rep (occ(i := a # occ i)) ?w"
    unfolding tile_rep_def
  proof (intro allI impI conjI ballI)
    fix j
    assume "j < length (tiles ?w)"
    then have j: "j < length (tiles w)" by simp
    show "dseg (pheap ?w) None (t_players (tiles ?w ! j)) ((occ(i := a # occ i)) j) None"
    proof (cases "j = i")
      case True
      with seg_i i show ?thesis by simp
    next
      case False
      have "dseg ?h None (t_players (tiles w ! j)) (occ j) None"
      proof (rule dseg_frame [OF tile_repD(1) [OF rep j]])
        fix x
        assume "x \<in> set (occ j)"
        then have "x \<notin> set (occ i)" "x \<noteq> a"
          using occ_disjoint [OF geo rep j i] False off [OF j] by blast+
        then show "map_option links (?h x) = map_option links (pheap w x)"
          using other by simp
      qed
      with False show ?thesis by simp
    qed
    show "distinct ((occ(i := a # occ i)) j)"
      using tile_repD(2) [OF rep j] off [OF i] by (cases "j = i") auto
    fix x
    assume x: "x \<in> set ((occ(i := a # occ i)) j)"
    have pos_j: "t_pos (?ts ! j) = t_pos (tiles w ! j)"
      using tile_coreD(2) [OF ts j] .
    show "\<exists>pl. pheap ?w x = Some pl \<and> p_pos pl = t_pos (tiles ?w ! j)"
    proof (cases "x = a")
      case True
      then have "j = i" using x off [OF j] by (auto split: if_splits)
      with True pos_j show ?thesis by simp
    next
      case False
      with x have "x \<in> set (occ j)" by (auto split: if_splits)
      then obtain q where q: "pheap w x = Some q" "p_pos q = t_pos (tiles w ! j)"
        using tile_repD(3) [OF rep j] by blast
      then obtain q' where q': "?h x = Some q'" "core q' = core q"
        using same_coresD [OF cores, of x q] False by auto
      with coreD(4) [OF q'(2)] q(2) pos_j show ?thesis by simp
    qed
  qed
  then show ?thesis
    using run relinkedI [of _ ?h ?ts w, OF cores ts] by blast
qed

lemma relinked_length: "relinked h w w' \<Longrightarrow> length (tiles w') = length (tiles w)"
  by (erule relinkedE) (auto dest: tile_coreD(1))

lemma relinked_geometry: "relinked h w w' \<Longrightarrow> geometry w' = geometry w"
  by (erule relinkedE) (intro geometry_cong, simp_all)

lemma relinked_in_map: "relinked h w w' \<Longrightarrow> in_map w' = in_map w \<and> tile_no w' = tile_no w"
  by (erule relinkedE) (simp add: in_map_def tile_no_def MAP_def fun_eq_iff)

lemma tile_rep_upd_off:
  assumes "tile_rep occ w" "\<And>j. j < length (tiles w) \<Longrightarrow> a \<notin> set (occ j)"
  shows "tile_rep occ (w\<lparr>pheap := (pheap w)(a := v)\<rparr>)"
  using assms by (auto simp: tile_rep_def dseg_update_other)

definition moved :: "(nat \<Rightarrow> nat list) \<Rightarrow> nat \<Rightarrow> nat \<Rightarrow> nat \<Rightarrow> nat \<Rightarrow> nat list" where
  "moved occ a i j = (let occ1 = occ(i := remove1 a (occ i)) in occ1(j := a # occ1 j))"

lemma move_rep:
  assumes geo: "geometry w" and rep: "tile_rep occ w" and pl: "pheap w a = Some pl"
    and pos: "in_map w (p_pos pl)" and on: "a \<in> set (occ (tile_no w (p_pos pl)))"
    and new: "in_map w \<lparr>pos_x = x, pos_y = y\<rparr>"
  shows "\<exists>w'. m_game_move_player (Some a) x y w = Inr w' \<and>
    relinked ((pheap w)(a \<mapsto> pl\<lparr>p_pos := \<lparr>pos_x = x, pos_y = y\<rparr>\<rparr>)) w w' \<and>
    tile_rep (moved occ a (tile_no w (p_pos pl)) (tile_no w \<lparr>pos_x = x, pos_y = y\<rparr>)) w'"
proof -
  let ?i = "tile_no w (p_pos pl)" and ?q = "\<lparr>pos_x = x, pos_y = y\<rparr>"
  let ?j = "tile_no w ?q" and ?occ1 = "occ(tile_no w (p_pos pl) := remove1 a (occ (tile_no w (p_pos pl))))"
  have i: "?i < length (tiles w)" using tile_no_less [OF geo pos] .
  obtain w1 where w1: "m_game_remove_player_from_tile (Some a) w = Inr w1"
    "relinked (pheap w) w w1" "tile_rep ?occ1 w1"
    using remove_rep [OF geo rep pl pos on] by blast
  have off: "a \<notin> set (?occ1 k)" if "k < length (tiles w)" for k
    using occ_disjoint [OF geo rep that i _ on] tile_repD(2) [OF rep i]
    by (auto simp: set_remove1_eq)
  obtain h1 ts1 where e1: "w1 = w\<lparr>pheap := h1, tiles := ts1\<rparr>" "same_cores (pheap w) h1"
    "map tile_core ts1 = map tile_core (tiles w)"
    using w1(2) by (rule relinkedE)
  have len1: "length ts1 = length (tiles w)" using tile_coreD(1) [OF e1(3)] .
  obtain pl1 where pl1: "h1 a = Some pl1" "core pl1 = core pl"
    using same_coresD [OF e1(2) pl] by blast
  let ?w2 = "w1\<lparr>pheap := h1(a \<mapsto> pl1\<lparr>p_pos := ?q\<rparr>)\<rparr>"
  have w2: "upd_player (Some a) (\<lambda>pl. pl\<lparr>p_pos := ?q\<rparr>) w1 = Inr ?w2"
    using e1(1) pl1(1) by (simp add: upd_player_def update_ref_Some)
  have rep2: "tile_rep ?occ1 ?w2"
    using tile_rep_upd_off [OF w1(3), of a "Some (pl1\<lparr>p_pos := ?q\<rparr>)"] off e1(1) len1
    by simp
  have geo1: "geometry w1" using relinked_geometry [OF w1(2)] geo by simp
  have geo2: "geometry ?w2"
    using geo1 by (simp add: geometry_def)
  have j: "?j < length (tiles ?w2)"
    using tile_no_less [OF geo new] e1(1) len1 by simp
  have tp: "t_pos (tiles ?w2 ! ?j) = ?q"
    using t_pos_tile_no [OF geo new] tile_coreD(2) [OF e1(3), of ?j] e1(1) j len1 by simp
  have MAP2: "MAP x y ?w2 = int ?j"
    using int_tile_no [OF geo new] e1(1) by (simp add: MAP_def)
  obtain w3 where w3: "m_game_add_player_to_tile (int ?j) (Some a) ?w2 = Inr (SUCCESS, w3)"
    "relinked ((pheap ?w2)(a \<mapsto> (pl1\<lparr>p_pos := ?q\<rparr>)\<lparr>p_pos := t_pos (tiles ?w2 ! ?j)\<rparr>)) ?w2 w3"
    "tile_rep (?occ1(?j := a # ?occ1 ?j)) w3"
    using add_rep [OF rep2, of a "pl1\<lparr>p_pos := ?q\<rparr>" ?j] geo2 j off e1(1) len1 by auto
  obtain h3 ts3 where e3: "w3 = ?w2\<lparr>pheap := h3, tiles := ts3\<rparr>"
    "same_cores (h1(a \<mapsto> pl1\<lparr>p_pos := ?q\<rparr>)) h3" "map tile_core ts3 = map tile_core (tiles ?w2)"
    using w3(2) unfolding tp by (rule relinkedE) simp
  have "core (pl1\<lparr>p_pos := ?q\<rparr>) = core (pl\<lparr>p_pos := ?q\<rparr>)"
    using pl1(2) by (cases pl, cases pl1) (simp add: core_def)
  then have "same_cores ((pheap w)(a \<mapsto> pl\<lparr>p_pos := ?q\<rparr>)) h3"
    using e1(2) e3(2) by (auto simp: same_cores_def)
  then have "relinked ((pheap w)(a \<mapsto> pl\<lparr>p_pos := ?q\<rparr>)) w w3"
    using e1 e3 relinkedI [of _ h3 ts3 w] by simp
  moreover have "m_game_move_player (Some a) x y w = Inr w3"
    using w1(1) w2 w3(1) by (simp add: m_game_move_player_def MAP2)
  ultimately show ?thesis
    using w3(3) by (auto simp: moved_def Let_def)
qed

end
