(* ===== verification/Moves.thy ===== *)
theory Moves
  imports Tiles
begin

text \<open>
  The commands \<open>droite\<close>, \<open>gauche\<close>, \<open>avance\<close> and \<open>expulse\<close> of \<open>game.c\<close>. The loop of \<open>expulse\<close>
  follows \<open>next_on_tile\<close> of a player it has just moved to another tile; the model bounds it
  by fuel, and the claims say exactly when it ends.
\<close>

section \<open>The code\<close>

fun turn_right :: "direction \<Rightarrow> direction" where
  "turn_right NORTH = EAST"
| "turn_right EAST = SOUTH"
| "turn_right SOUTH = WEST"
| "turn_right WEST = NORTH"

fun turn_left :: "direction \<Rightarrow> direction" where
  "turn_left NORTH = WEST"
| "turn_left EAST = NORTH"
| "turn_left SOUTH = EAST"
| "turn_left WEST = SOUTH"

definition m_command_droite :: "ptr \<Rightarrow> string option \<Rightarrow> world \<Rightarrow> (int \<times> world) res" where
  "m_command_droite p arg w =
     and_then (upd_player p (\<lambda>pl. pl\<lparr>p_dir := turn_right (p_dir pl)\<rparr>) w) (\<lambda>w1.
     and_then (get_player p w1) (\<lambda>pl.
     Inr (server_create_response_to_command (p_id pl) ''droite'' arg (Some ''ok'') w1)))"

definition m_command_gauche :: "ptr \<Rightarrow> string option \<Rightarrow> world \<Rightarrow> (int \<times> world) res" where
  "m_command_gauche p arg w =
     and_then (upd_player p (\<lambda>pl. pl\<lparr>p_dir := turn_left (p_dir pl)\<rparr>) w) (\<lambda>w1.
     and_then (get_player p w1) (\<lambda>pl.
     Inr (server_create_response_to_command (p_id pl) ''gauche'' arg (Some ''ok'') w1)))"

text \<open>The \<open>switch\<close> that \<open>avance\<close> and \<open>expulse\<close> share: the tile in front of the player.\<close>

definition next_pos :: "player \<Rightarrow> world \<Rightarrow> (int \<times> int) res" where
  "next_pos pl w =
     (let x = pos_x (p_pos pl); y = pos_y (p_pos pl) in
      case p_dir pl of
        NORTH \<Rightarrow> and_then (c_rem (y + map_y w - 1) (map_y w)) (\<lambda>y'. Inr (x, y'))
      | EAST \<Rightarrow> and_then (c_rem (x + 1) (map_x w)) (\<lambda>x'. Inr (x', y))
      | SOUTH \<Rightarrow> and_then (c_rem (y + 1) (map_y w)) (\<lambda>y'. Inr (x, y'))
      | WEST \<Rightarrow> and_then (c_rem (x + map_x w - 1) (map_x w)) (\<lambda>x'. Inr (x', y)))"

definition m_command_avance :: "ptr \<Rightarrow> string option \<Rightarrow> world \<Rightarrow> (int \<times> world) res" where
  "m_command_avance p arg w =
     and_then (get_player p w) (\<lambda>pl.
     and_then (next_pos pl w) (\<lambda>(new_x, new_y).
     and_then (m_game_move_player p new_x new_y w) (\<lambda>w1.
     Inr (server_create_response_to_command (p_id pl) ''avance'' arg (Some ''ok'') w1))))"

text \<open>\<open>direction_table[dir][dir]\<close>: the code only reads the diagonal of its table.\<close>

definition direction_table :: "string list list" where
  "direction_table =
     [[''1'', ''7'', ''5'', ''3''],
      [''3'', ''1'', ''7'', ''5''],
      [''5'', ''3'', ''1'', ''7''],
      [''7'', ''5'', ''3'', ''1'']]"

fun dir_no :: "direction \<Rightarrow> nat" where
  "dir_no NORTH = 0"
| "dir_no EAST = 1"
| "dir_no SOUTH = 2"
| "dir_no WEST = 3"

fun expulse_loop :: "nat \<Rightarrow> player \<Rightarrow> int \<Rightarrow> int \<Rightarrow> ptr \<Rightarrow> world \<Rightarrow> world res" where
  "expulse_loop fuel pl new_x new_y it w =
     (if it = None then Inr w
      else
        case fuel of
          0 \<Rightarrow> Inl Out_Of_Fuel
        | Suc n \<Rightarrow>
            and_then (get_player it w) (\<lambda>q.
            if p_id q = p_id pl then expulse_loop n pl new_x new_y (next_on_tile q) w
            else
              and_then (m_game_move_player it new_x new_y w) (\<lambda>w1.
              let (r, w2) = server_create_response_to_command (p_id q) ''deplacement'' None
                    (Some (direction_table ! dir_no (p_dir pl) ! dir_no (p_dir pl))) w1 in
              and_then (get_player it w2) (\<lambda>q2.
              expulse_loop n pl new_x new_y (next_on_tile q2) w2))))"

declare expulse_loop.simps [simp del]

definition m_command_expulse :: "nat \<Rightarrow> ptr \<Rightarrow> string option \<Rightarrow> world \<Rightarrow> (int \<times> world) res" where
  "m_command_expulse fuel p arg w =
     and_then (get_player p w) (\<lambda>pl.
     and_then (get_tile (MAP (pos_x (p_pos pl)) (pos_y (p_pos pl)) w) w) (\<lambda>T.
     if t_players T = None then
       Inr (server_create_response_to_command (p_id pl) ''expulse'' None (Some ''ok'') w)
     else
       and_then (next_pos pl w) (\<lambda>(new_x, new_y).
       and_then (expulse_loop fuel pl new_x new_y (t_players T) w) (\<lambda>w1.
       Inr (server_create_response_to_command (p_id pl) ''expulse'' None (Some ''ok'') w1)))))"

section \<open>The tile in front\<close>

definition front_pos :: "world \<Rightarrow> player \<Rightarrow> position" where
  "front_pos w pl = (let x = pos_x (p_pos pl); y = pos_y (p_pos pl) in
     case p_dir pl of
       NORTH \<Rightarrow> \<lparr>pos_x = x, pos_y = (y - 1) mod map_y w\<rparr>
     | EAST \<Rightarrow> \<lparr>pos_x = (x + 1) mod map_x w, pos_y = y\<rparr>
     | SOUTH \<Rightarrow> \<lparr>pos_x = x, pos_y = (y + 1) mod map_y w\<rparr>
     | WEST \<Rightarrow> \<lparr>pos_x = (x - 1) mod map_x w, pos_y = y\<rparr>)"

lemma next_pos_eq:
  assumes "geometry w" "in_map w (p_pos pl)"
  shows "next_pos pl w = Inr (pos_x (front_pos w pl), pos_y (front_pos w pl))"
proof -
  have "c_rem (pos_y (p_pos pl) + map_y w - 1) (map_y w) = Inr ((pos_y (p_pos pl) - 1) mod map_y w)"
    using assms mod_add_self2 [of "pos_y (p_pos pl) - 1" "map_y w"]
    by (subst c_rem_nonneg) (auto simp: in_map_def geometry_def algebra_simps)
  moreover have "c_rem (pos_x (p_pos pl) + map_x w - 1) (map_x w) = Inr ((pos_x (p_pos pl) - 1) mod map_x w)"
    using assms mod_add_self2 [of "pos_x (p_pos pl) - 1" "map_x w"]
    by (subst c_rem_nonneg) (auto simp: in_map_def geometry_def algebra_simps)
  ultimately show ?thesis
    using assms
    by (cases "p_dir pl") (simp_all add: next_pos_def front_pos_def Let_def c_rem_nonneg in_map_def geometry_def)
qed

lemma front_pos_in_map:
  "geometry w \<Longrightarrow> in_map w (p_pos pl) \<Longrightarrow> in_map w (front_pos w pl)"
  by (cases "p_dir pl") (simp_all add: front_pos_def Let_def in_map_def geometry_def)

end
