(* ===== verification/Broadcast.thy ===== *)
theory Broadcast
  imports World
begin

text \<open>
  The command \<open>broadcast\<close> of \<open>game.c\<close>: every player hears the text and the sector 1 to 8
  (0 on the emitter's tile) it comes from, relative to the way the listener faces, along the
  shortest way on a map whose edges wrap. The code computes the sector with \<open>atan2\<close> in
  doubles; the model computes it in reals, and the claims give the same sector by integer
  comparisons.
\<close>

section \<open>The code\<close>

definition minimal_delta :: "int \<Rightarrow> int \<Rightarrow> int" where
  "minimal_delta delta mx =
     (let d1 = (if delta > mx sdiv 2 then delta - mx else delta)
      in if d1 < (- mx) sdiv 2 then d1 + mx else d1)"

text \<open>C's \<open>atan2\<close>: the argument of the point \<open>(x, y)\<close>, in \<open>(- pi, pi]\<close>.\<close>

definition atan2 :: "real \<Rightarrow> real \<Rightarrow> real" where
  "atan2 y x = Arg (Complex x y)"

text \<open>The \<open>switch\<close> on \<open>listener_dir & 3\<close>.\<close>

definition to_listener :: "int \<Rightarrow> int \<Rightarrow> int \<Rightarrow> int \<times> int" where
  "to_listener dir dx dy =
     (if dir mod 4 = 0 then (dx, dy)
      else if dir mod 4 = 1 then (dy, - dx)
      else if dir mod 4 = 2 then (- dx, - dy)
      else (- dy, dx))"

definition sector :: "real \<Rightarrow> real \<Rightarrow> int" where
  "sector dxw dyw =
     (let phi = atan2 dyw dxw - pi / 2;
          phi = (if phi < 0 then phi + 2 * pi else phi);
          K = \<lfloor>(phi + pi / 8) / (pi / 4)\<rfloor> + 1
      in if K > 8 then 1 else K)"

definition compute_broadcast_direction ::
  "int \<Rightarrow> int \<Rightarrow> int \<Rightarrow> int \<Rightarrow> int \<Rightarrow> int \<Rightarrow> int \<Rightarrow> int" where
  "compute_broadcast_direction listener_x listener_y listener_dir emitter_x emitter_y width height =
     (let dx = minimal_delta (emitter_x - listener_x) width;
          dy = minimal_delta (emitter_y - listener_y) height
      in if dx = 0 \<and> dy = 0 then 0
         else let (dxp, dyp) = to_listener listener_dir dx dy
              in sector (of_int dxp) (of_int (- dyp)))"

fun dir_int :: "direction \<Rightarrow> int" where
  "dir_int NORTH = 0"
| "dir_int EAST = 1"
| "dir_int SOUTH = 2"
| "dir_int WEST = 3"

fun broadcast_loop :: "player \<Rightarrow> string option \<Rightarrow> nat \<Rightarrow> int \<Rightarrow> world \<Rightarrow> world res" where
  "broadcast_loop emitter text 0 i w = Inr w"
| "broadcast_loop emitter text (Suc n) i w =
     and_then (get_slot i w) (\<lambda>c.
     if c = None then broadcast_loop emitter text n (i + 1) w
     else
       and_then (get_client c w) (\<lambda>cl.
       if c_player cl = None then broadcast_loop emitter text n (i + 1) w
       else
         and_then (get_player (c_player cl) w) (\<lambda>receiver.
         let K = compute_broadcast_direction (pos_x (p_pos receiver)) (pos_y (p_pos receiver))
                   (dir_int (p_dir receiver)) (pos_x (p_pos emitter)) (pos_y (p_pos emitter))
                   (map_x w) (map_y w);
             (r, w1) = server_create_response_to_command (p_id receiver) ''message''
                   (Some (snprintf_d 4 K)) text w
         in broadcast_loop emitter text n (i + 1) w1)))"

definition m_command_broadcast :: "ptr \<Rightarrow> string option \<Rightarrow> world \<Rightarrow> (int \<times> world) res" where
  "m_command_broadcast p arg w =
     and_then (get_player p w) (\<lambda>emitter.
     and_then (broadcast_loop emitter arg (nat (client_count w)) 0 w) (\<lambda>w1.
     Inr (server_create_response_to_command (p_id emitter) ''broadcast'' None (Some ''ok'') w1)))"

end
