(* ===== verification/Roster.thy ===== *)
theory Roster
  imports World
begin

text \<open>
  Teams and the clients array of \<open>game.c\<close>: finding a team or a client, taking and giving
  back a team slot and an array slot.
\<close>

section \<open>Teams\<close>

text \<open>
  \<open>team->players\<close> holds the fds of the members, in an array of \<open>int\<close> that is allocated with
  \<open>sizeof(player*) * max_players\<close> bytes: with 8-byte pointers and 4-byte ints it has
  \<open>2 * max_players\<close> elements.
\<close>

definition m_game_init_team :: "string \<Rightarrow> int \<Rightarrow> team" where
  "m_game_init_team name max_players =
     \<lparr>tm_name = name, tm_max_players = max_players, tm_current_players = 0,
      tm_players = replicate (nat (8 * max_players div 4)) 0\<rparr>"

fun find_team :: "string \<Rightarrow> int \<Rightarrow> team list \<Rightarrow> int" where
  "find_team name i [] = ERROR"
| "find_team name i (t # ts) = (if tm_name t = name then i else find_team name (i + 1) ts)"

definition m_game_get_team_id :: "string \<Rightarrow> world \<Rightarrow> int" where
  "m_game_get_team_id name w = find_team name 0 (take (nat (team_count w)) (teams w))"

definition TEAM_IS_FULL :: "int \<Rightarrow> world \<Rightarrow> bool res" where
  "TEAM_IS_FULL i w =
     and_then (get_team i w) (\<lambda>t. Inr (tm_current_players t \<ge> tm_max_players t))"

definition m_team_add_player_to_team :: "ptr \<Rightarrow> world \<Rightarrow> (int \<times> world) res" where
  "m_team_add_player_to_team p w =
     and_then (get_player p w) (\<lambda>pl.
     and_then (get_team (p_team_id pl) w) (\<lambda>t.
     if tm_current_players t \<ge> tm_max_players t then Inr (ERROR, w)
     else
       and_then (arr_set (tm_players t) (tm_current_players t) (p_id pl)) (\<lambda>ps.
       and_then (upd_team (p_team_id pl)
                  (\<lambda>t. t\<lparr>tm_players := ps, tm_current_players := tm_current_players t + 1\<rparr>) w) (\<lambda>w1.
       Inr (SUCCESS, w1)))))"

definition m_team_remove_player_from_team :: "ptr \<Rightarrow> world \<Rightarrow> (int \<times> world) res" where
  "m_team_remove_player_from_team p w =
     and_then (get_player p w) (\<lambda>pl.
     and_then (get_team (p_team_id pl) w) (\<lambda>t.
     if tm_current_players t \<le> 0 then Inr (ERROR, w)
     else
       and_then (arr_set (tm_players t) (tm_current_players t) 0) (\<lambda>ps.
       and_then (upd_team (p_team_id pl)
                  (\<lambda>t. t\<lparr>tm_players := ps, tm_current_players := tm_current_players t - 1\<rparr>) w) (\<lambda>w1.
       Inr (SUCCESS, w1)))))"

section \<open>The clients array\<close>

text \<open>
  The three loops over \<open>m_server.clients\<close>, from index \<open>i\<close> on with \<open>n\<close> iterations left
  (\<open>n = client_count - i\<close>).
\<close>

fun find_client :: "int \<Rightarrow> nat \<Rightarrow> int \<Rightarrow> world \<Rightarrow> (int \<times> ptr) res" where
  "find_client fd 0 i w = Inr (ERROR, None)"
| "find_client fd (Suc n) i w =
     and_then (get_slot i w) (\<lambda>c.
     case c of
       None \<Rightarrow> find_client fd n (i + 1) w
     | Some a \<Rightarrow>
         and_then (get_client c w) (\<lambda>cl.
         if c_socket_fd cl = fd then Inr (SUCCESS, c) else find_client fd n (i + 1) w))"

definition m_game_get_client_from_fd :: "int \<Rightarrow> world \<Rightarrow> (int \<times> ptr) res" where
  "m_game_get_client_from_fd fd w =
     (if clients w = None then Inr (ERROR, None) else find_client fd (nat (client_count w)) 0 w)"

fun fill_slot :: "ptr \<Rightarrow> nat \<Rightarrow> int \<Rightarrow> world \<Rightarrow> (int \<times> world) res" where
  "fill_slot c 0 i w = Inr (ERROR, w)"
| "fill_slot c (Suc n) i w =
     and_then (get_slot i w) (\<lambda>x.
     if x = None then and_then (set_slot i c w) (\<lambda>w1. Inr (SUCCESS, w1))
     else fill_slot c n (i + 1) w)"

definition m_add_client_to_server :: "ptr \<Rightarrow> world \<Rightarrow> (int \<times> world) res" where
  "m_add_client_to_server c w = fill_slot c (nat (client_count w)) 0 w"

fun clear_slot :: "ptr \<Rightarrow> nat \<Rightarrow> int \<Rightarrow> world \<Rightarrow> (int \<times> world) res" where
  "clear_slot c 0 i w = Inr (ERROR, w)"
| "clear_slot c (Suc n) i w =
     and_then (get_slot i w) (\<lambda>x.
     if x = c then and_then (set_slot i None w) (\<lambda>w1. Inr (SUCCESS, w1))
     else clear_slot c n (i + 1) w)"

definition m_remove_client_from_server :: "ptr \<Rightarrow> world \<Rightarrow> (int \<times> world) res" where
  "m_remove_client_from_server c w = clear_slot c (nat (client_count w)) 0 w"

section \<open>Questions of the connection layer\<close>

definition game_get_team_remaining_clients :: "int \<Rightarrow> world \<Rightarrow> int res" where
  "game_get_team_remaining_clients fd w =
     and_then (m_game_get_client_from_fd fd w) (\<lambda>(ret, c).
     if ret = ERROR then Inr ERROR
     else
       and_then (get_client c w) (\<lambda>cl.
       and_then (get_player (c_player cl) w) (\<lambda>pl.
       and_then (get_team (p_team_id pl) w) (\<lambda>t.
       Inr (tm_max_players t - tm_current_players t)))))"

definition game_get_client_count :: "world \<Rightarrow> int" where
  "game_get_client_count w = client_count w"

definition game_get_team_count :: "world \<Rightarrow> int" where
  "game_get_team_count w = team_count w"

definition game_get_map_size :: "world \<Rightarrow> int \<times> int" where
  "game_get_map_size w = (map_x w, map_y w)"

definition game_kill_player :: "int \<Rightarrow> world \<Rightarrow> (int \<times> world) res" where
  "game_kill_player fd w =
     and_then (m_game_get_client_from_fd fd w) (\<lambda>(ret, c).
     if ret = ERROR then Inr (ERROR, w)
     else
       and_then (get_client c w) (\<lambda>cl.
       if c_player cl = None then Inr (ERROR, w)
       else
         and_then (upd_player (c_player cl)
           (\<lambda>pl. pl\<lparr>p_die_time := 0, p_inv := (p_inv pl)\<lparr>nourriture := 0\<rparr>\<rparr>) w) (\<lambda>w1.
         Inr (SUCCESS, w1))))"

section \<open>The loops as list functions\<close>

lemma get_slot_in [simp]:
  "clients w = Some cs \<Longrightarrow> 0 \<le> i \<Longrightarrow> i < int (length cs) \<Longrightarrow> get_slot i w = Inr (cs ! nat i)"
  by (simp add: get_slot_def)

lemma set_slot_in [simp]:
  "clients w = Some cs \<Longrightarrow> 0 \<le> i \<Longrightarrow> i < int (length cs) \<Longrightarrow>
   set_slot i c w = Inr (w\<lparr>clients := Some (cs[nat i := c])\<rparr>)"
  by (simp add: set_slot_def)

text \<open>The client found is the first one with the descriptor.\<close>

definition fd_of :: "world \<Rightarrow> ptr \<Rightarrow> int option" where
  "fd_of w c = (case c of None \<Rightarrow> None | Some a \<Rightarrow> map_option c_socket_fd (cheap w a))"

lemma find_client_spec:
  assumes "clients w = Some cs" "\<And>a. Some a \<in> set cs \<Longrightarrow> cheap w a \<noteq> None"
    and "i + n = length cs"
  shows "find_client fd n (int i) w =
    Inr (case find (\<lambda>c. fd_of w c = Some fd) (drop i cs) of
           None \<Rightarrow> (ERROR, None) | Some c \<Rightarrow> (SUCCESS, c))"
  using assms(3)
proof (induction n arbitrary: i)
  case 0
  then show ?case by simp
next
  case (Suc n)
  then have i: "i < length cs" and IH: "find_client fd n (int (Suc i)) w =
    Inr (case find (\<lambda>c. fd_of w c = Some fd) (drop (Suc i) cs) of
           None \<Rightarrow> (ERROR, None) | Some c \<Rightarrow> (SUCCESS, c))"
    using Suc.IH [of "Suc i"] by auto
  have slot: "get_slot (int i) w = Inr (cs ! i)"
    using assms(1) i by simp
  have drop: "drop i cs = cs ! i # drop (Suc i) cs"
    using i by (simp add: Cons_nth_drop_Suc)
  show ?case
  proof (cases "cs ! i")
    case None
    then show ?thesis using IH slot drop by (simp add: fd_of_def add.commute)
  next
    case (Some a)
    then obtain cl where "cheap w a = Some cl"
      using assms(2) [of a] i by (metis nth_mem option.exhaust)
    then show ?thesis
      using Some IH slot drop by (simp add: fd_of_def get_client_def deref_Some add.commute)
  qed
qed

lemma fill_slot_spec:
  assumes "clients w = Some cs" "i + n = length cs" "\<And>k. k < i \<Longrightarrow> cs ! k \<noteq> None"
    and "None \<in> set cs"
  shows "\<exists>k < length cs. cs ! k = None \<and>
    fill_slot c n (int i) w = Inr (SUCCESS, w\<lparr>clients := Some (cs[k := c])\<rparr>)"
  using assms(2,3)
proof (induction n arbitrary: i)
  case 0
  then have "None \<notin> set cs" by (auto simp: in_set_conv_nth)
  with assms(4) show ?case by simp
next
  case (Suc n)
  then have i: "i < length cs" by simp
  show ?case
  proof (cases "cs ! i = None")
    case True
    then show ?thesis using assms(1) i by auto
  next
    case False
    then have "\<And>k. k < Suc i \<Longrightarrow> cs ! k \<noteq> None"
      using Suc.prems(2) less_Suc_eq by auto
    then show ?thesis
      using Suc.IH [of "Suc i"] Suc.prems(1) False assms(1) i 
      by (cases "cs ! i") (simp_all add: add.commute)
  qed
qed

lemma clear_slot_spec:
  assumes "clients w = Some cs" "i + n = length cs" "\<And>k. k < i \<Longrightarrow> cs ! k \<noteq> c"
    and "c \<in> set cs"
  shows "\<exists>k < length cs. cs ! k = c \<and> (\<forall>j < k. cs ! j \<noteq> c) \<and>
    clear_slot c n (int i) w = Inr (SUCCESS, w\<lparr>clients := Some (cs[k := None])\<rparr>)"
  using assms(2,3)
proof (induction n arbitrary: i)
  case 0
  then have "c \<notin> set cs" by (auto simp: in_set_conv_nth)
  with assms(4) show ?case by simp
next
  case (Suc n)
  then have i: "i < length cs" by simp
  show ?case
  proof (cases "cs ! i = c")
    case True
    then show ?thesis using assms(1) i Suc.prems(2) by auto
  next
    case False
    then have "\<And>k. k < Suc i \<Longrightarrow> cs ! k \<noteq> c"
      using Suc.prems(2) less_Suc_eq by auto
    then show ?thesis
      using Suc.IH [of "Suc i"] Suc.prems(1) False assms(1) i by (simp add: add.commute)
  qed
qed

end
