(* ===== verification/Incantation.thy ===== *)
theory Incantation
  imports Items Roster
begin

text \<open>
  The ritual that raises a level, in two phases (\<open>m_command_incantation\<close> now,
  \<open>m_command_real_incantation\<close> after \<open>m_incantation_time\<close>), and the two commands without effect
  on the world, \<open>fork\<close> and \<open>connect_nbr\<close>; all of \<open>game.c\<close>.
\<close>

abbreviation (input) LEVEL_MAX :: int where
  "LEVEL_MAX \<equiv> 7"

record level_requisites =
  player_number :: int
  lr_inv :: inventory

definition reqs :: "int \<Rightarrow> int \<Rightarrow> int \<Rightarrow> int \<Rightarrow> int \<Rightarrow> int \<Rightarrow> int \<Rightarrow> int \<Rightarrow> level_requisites" where
  "reqs n f l d s m p t =
     \<lparr>player_number = n, lr_inv = \<lparr>nourriture = f, linemate = l, deraumere = d, sibur = s,
        mendiane = m, phiras = p, thystame = t\<rparr>\<rparr>"

definition level_reqs :: "level_requisites list" where
  "level_reqs =
     [reqs 1 0 1 0 0 0 0 0,
      reqs 2 0 1 1 1 0 0 0,
      reqs 2 0 2 0 1 0 2 0,
      reqs 4 0 1 1 2 0 1 0,
      reqs 4 0 1 2 1 3 0 0,
      reqs 6 0 1 2 3 0 1 0,
      reqs 6 0 2 2 2 2 2 1]"

text \<open>The walk along \<open>next_on_tile\<close> (fuel: at least the number of players on the tile).\<close>

fun count_level :: "nat \<Rightarrow> int \<Rightarrow> ptr \<Rightarrow> world \<Rightarrow> int res" where
  "count_level fuel lvl p2 w =
     (if p2 = None then Inr 0
      else
        case fuel of
          0 \<Rightarrow> Inl Out_Of_Fuel
        | Suc n \<Rightarrow>
            and_then (get_player p2 w) (\<lambda>q.
            and_then (count_level n lvl (next_on_tile q) w) (\<lambda>k.
            Inr (if p_level q = lvl then k + 1 else k))))"

declare count_level.simps [simp del]

definition items_suffice :: "inventory \<Rightarrow> inventory \<Rightarrow> bool" where
  "items_suffice have need \<longleftrightarrow>
     \<not> nourriture have < nourriture need \<and> \<not> linemate have < linemate need \<and>
     \<not> deraumere have < deraumere need \<and> \<not> sibur have < sibur need \<and>
     \<not> mendiane have < mendiane need \<and> \<not> phiras have < phiras need \<and>
     \<not> thystame have < thystame need"

definition m_game_check_can_incantation :: "nat \<Rightarrow> ptr \<Rightarrow> bool \<Rightarrow> world \<Rightarrow> int res" where
  "m_game_check_can_incantation fuel p check_items w =
     and_then (get_player p w) (\<lambda>pl.
     if p_level pl \<ge> LEVEL_MAX then Inr ERROR
     else
       and_then (get_tile (MAP (pos_x (p_pos pl)) (pos_y (p_pos pl)) w) w) (\<lambda>T.
       and_then (arr_get level_reqs (p_level pl)) (\<lambda>rq.
       if check_items \<and> \<not> items_suffice (t_items T) (lr_inv rq) then Inr ERROR
       else
         and_then (count_level fuel (p_level pl) (t_players T) w) (\<lambda>p_count.
         Inr (if p_count < player_number rq then ERROR else SUCCESS)))))"

fun level_up_loop :: "nat \<Rightarrow> int \<Rightarrow> ptr \<Rightarrow> world \<Rightarrow> world res" where
  "level_up_loop fuel initial_level p2 w =
     (if p2 = None then Inr w
      else
        case fuel of
          0 \<Rightarrow> Inl Out_Of_Fuel
        | Suc n \<Rightarrow>
            and_then (get_player p2 w) (\<lambda>q.
            if p_level q = initial_level then
              and_then (upd_player p2 (\<lambda>q. q\<lparr>p_level := p_level q + 1\<rparr>) w) (\<lambda>w1.
              let (r, w2) = server_create_response_to_command (p_id q) ''incantation'' None
                    (Some ''Level up!'') w1
              in level_up_loop n initial_level (next_on_tile q) w2)
            else level_up_loop n initial_level (next_on_tile q) w))"

declare level_up_loop.simps [simp del]

definition m_command_real_incantation ::
  "nat \<Rightarrow> ptr \<Rightarrow> string option \<Rightarrow> world \<Rightarrow> (int \<times> world) res" where
  "m_command_real_incantation fuel p arg w =
     and_then (get_player p w) (\<lambda>pl.
     and_then (case arg of None \<Rightarrow> Inl Null_Deref | Some s \<Rightarrow> Inr (atoi s)) (\<lambda>initial_level.
     if p_level pl \<noteq> initial_level then
       Inr (server_create_response_to_command (p_id pl) ''incantation'' None (Some ''ko'') w)
     else
       and_then (m_game_check_can_incantation fuel p False w) (\<lambda>can.
       if can = ERROR then
         Inr (server_create_response_to_command (p_id pl) ''incantation'' None (Some ''ko'') w)
       else
         and_then (get_tile (MAP (pos_x (p_pos pl)) (pos_y (p_pos pl)) w) w) (\<lambda>T.
         and_then (level_up_loop fuel initial_level (t_players T) w) (\<lambda>w1.
         Inr (server_create_response_to_command (p_id pl) ''incantation'' None (Some ''ok'') w1))))))"

definition items_minus :: "inventory \<Rightarrow> inventory \<Rightarrow> inventory" where
  "items_minus i n =
     \<lparr>nourriture = nourriture i - nourriture n, linemate = linemate i - linemate n,
      deraumere = deraumere i - deraumere n, sibur = sibur i - sibur n,
      mendiane = mendiane i - mendiane n, phiras = phiras i - phiras n,
      thystame = thystame i - thystame n\<rparr>"

definition m_command_incantation ::
  "nat \<Rightarrow> ptr \<Rightarrow> string option \<Rightarrow> world \<Rightarrow> (int \<times> world) res" where
  "m_command_incantation fuel p arg w =
     and_then (get_player p w) (\<lambda>pl.
     if p_level pl \<ge> LEVEL_MAX then
       Inr (server_create_response_to_command (p_id pl) ''incantation'' None (Some ''ko'') w)
     else
       and_then (m_game_check_can_incantation fuel p True w) (\<lambda>can.
       if can = ERROR then
         Inr (server_create_response_to_command (p_id pl) ''incantation'' None (Some ''ko'') w)
       else
         and_then (arr_get level_reqs (p_level pl)) (\<lambda>rq.
         and_then (upd_tile (MAP (pos_x (p_pos pl)) (pos_y (p_pos pl)) w)
           (\<lambda>T. T\<lparr>t_items := items_minus (t_items T) (lr_inv rq)\<rparr>) w) (\<lambda>w1.
         and_then (m_game_get_client_from_fd (p_id pl) w1) (\<lambda>(ret, c).
         if ret = ERROR then Inr (ERROR, w1)
         else
           and_then (get_client c w1) (\<lambda>cl.
           let (r, b) = time_api_schedule_client_event_front None (m_time w1) (c_event_buffer cl)
                 (m_incantation_time w1) (Some Real_Incantation) p (Some (snprintf_d 12 (p_level pl)))
           in
           and_then (upd_client c (\<lambda>cl. cl\<lparr>c_event_buffer := b\<rparr>) w1) (\<lambda>w2.
           Inr (server_create_response_to_command (p_id pl) ''incantation'' None
                 (Some ''in_progress'') w2))))))))"

definition m_command_fork :: "ptr \<Rightarrow> string option \<Rightarrow> world \<Rightarrow> (int \<times> world) res" where
  "m_command_fork p arg w =
     and_then (get_player p w) (\<lambda>pl.
     Inr (server_create_response_to_command (p_id pl) ''fork'' None (Some ''ok'') w))"

definition m_command_connect_nbr :: "ptr \<Rightarrow> string option \<Rightarrow> world \<Rightarrow> (int \<times> world) res" where
  "m_command_connect_nbr p arg w =
     and_then (get_player p w) (\<lambda>pl.
     and_then (get_team (p_team_id pl) w) (\<lambda>t.
     Inr (server_create_response_to_command (p_id pl) ''connect_nbr''
            (Some (snprintf_d 10 (tm_max_players t - tm_current_players t))) None w)))"

end
