(* ===== verification/Lifecycle.thy ===== *)
theory Lifecycle
  imports Tiles Roster Items
begin

text \<open>
  From login to death, all of \<open>game.c\<close>: \<open>game_register_player\<close>, \<open>game_execute_command\<close> (a
  command received is an event queued), \<open>game_player_die\<close>, the observers and
  \<open>game_clean\<close>. \<open>server_remove_client\<close> is the one function of \<open>server.c\<close> the game calls back.
\<close>

section \<open>Joining\<close>

definition TIME_TO_DIE :: "world \<Rightarrow> int" where
  "TIME_TO_DIE w = LIFE_UNIT w * START_LIFE_UNITS w"

definition direction_of :: "int \<Rightarrow> direction" where
  "direction_of n = (if n = 0 then NORTH else if n = 1 then EAST else if n = 2 then SOUTH else WEST)"

definition m_game_get_start_pos :: "world \<Rightarrow> (position \<times> direction \<times> world) res" where
  "m_game_get_start_pos w =
     (let (r1, w1) = rand w in
      and_then (c_rem r1 (map_x w1)) (\<lambda>x.
      let (r2, w2) = rand w1 in
      and_then (c_rem r2 (map_y w2)) (\<lambda>y.
      let (r3, w3) = rand w2 in
      and_then (c_rem r3 4) (\<lambda>d. Inr (\<lparr>pos_x = x, pos_y = y\<rparr>, direction_of d, w3)))))"

text \<open>The client and the player after \<open>malloc\<close>, \<open>memset\<close> and the first assignments.\<close>

definition new_client :: "int \<Rightarrow> ptr \<Rightarrow> client" where
  "new_client fd p = \<lparr>c_socket_fd = fd, c_player = p, c_event_buffer = empty_buffer None\<rparr>"

definition new_player :: "int \<Rightarrow> int \<Rightarrow> player" where
  "new_player fd team_id =
     \<lparr>p_id = fd, p_team_id = team_id, p_level = 1, p_pos = \<lparr>pos_x = 0, pos_y = 0\<rparr>, p_dir = NORTH,
      p_inv = empty_inventory, p_die_time = 0, p_start_time = 0, next_on_tile = None,
      prev_on_tile = None\<rparr>"

definition game_register_player :: "int \<Rightarrow> string \<Rightarrow> world \<Rightarrow> (int \<times> world) res" where
  "game_register_player fd team_name w =
     (let team_id = m_game_get_team_id team_name w in
      if team_id < 0 then Inr (team_id, w)
      else
        and_then (TEAM_IS_FULL team_id w) (\<lambda>full.
        if full then Inr (ERROR, w)
        else
          let (p, w1) = malloc_player (new_player fd team_id) w;
              (c, w2) = malloc_client (new_client fd p) w1 in
          and_then (m_game_get_start_pos w2) (\<lambda>(q, d, w3).
          and_then (upd_player p (\<lambda>pl. pl\<lparr>p_pos := q, p_dir := d\<rparr>) w3) (\<lambda>w4.
          and_then (m_game_add_player_to_tile (MAP (pos_x q) (pos_y q) w4) p w4) (\<lambda>(r, w5).
          and_then (case m_time w5 of None \<Rightarrow> Inl Null_Deref | Some t \<Rightarrow> Inr (current_time_units t)) (\<lambda>now.
          and_then (upd_player p (\<lambda>pl. pl\<lparr>p_die_time := now + word_of_int (TIME_TO_DIE w5),
                                          p_start_time := now\<rparr>) w5) (\<lambda>w6.
          and_then (m_team_add_player_to_team p w6) (\<lambda>(r, w7).
          and_then (m_add_client_to_server c w7) (\<lambda>(r, w8). Inr (SUCCESS, w8))))))))))"

section \<open>Commands are queued\<close>

definition command_messages :: "(command_type \<times> string) list" where
  "command_messages =
     [(AVANCE, ''avance''), (DROITE, ''droite''), (GAUCHE, ''gauche''), (VOIR, ''voir''),
      (INVENTAIRE, ''inventaire''), (PREND, ''prend''), (POSE, ''pose''), (EXPULSE, ''expulse''),
      (BROADCAST, ''broadcast''), (INCANTATION, ''incantation''), (FORK, ''fork''),
      (CONNECT_NBR, ''connect_nbr'')]"

fun command_no :: "command_type \<Rightarrow> int" where
  "command_no AVANCE = 0" | "command_no DROITE = 1" | "command_no GAUCHE = 2"
| "command_no VOIR = 3" | "command_no INVENTAIRE = 4" | "command_no PREND = 5"
| "command_no POSE = 6" | "command_no EXPULSE = 7" | "command_no BROADCAST = 8"
| "command_no INCANTATION = 9" | "command_no FORK = 10" | "command_no CONNECT_NBR = 11"
| "command_no MAX_COMMANDS = 12"

definition game_execute_command ::
  "int \<Rightarrow> string \<Rightarrow> string option \<Rightarrow> world \<Rightarrow> (int \<times> world) res" where
  "game_execute_command fd cmd arg w =
     and_then (m_game_get_client_from_fd fd w) (\<lambda>(ret, c).
     if ret = ERROR then Inr (SUCCESS, w)
     else
       let command = find_name MAX_COMMANDS command_messages cmd in
       if command = MAX_COMMANDS then Inr (ERROR, w)
       else
         and_then (get_client c w) (\<lambda>cl.
         and_then (arr_get (command_delays w) (command_no command)) (\<lambda>delay.
         let (r, b) = time_api_schedule_client_event None (m_time w) (c_event_buffer cl) delay
                        (Some (Command command)) (c_player cl) arg in
         and_then (upd_client c (\<lambda>cl. cl\<lparr>c_event_buffer := b\<rparr>) w) (\<lambda>w1. Inr (SUCCESS, w1)))))"

section \<open>Leaving\<close>

text \<open>\<open>server_remove_client\<close> (\<open>server.c\<close>): the descriptor joins the list of clients to remove.\<close>

definition server_remove_client :: "int \<Rightarrow> world \<Rightarrow> (int \<times> world) res" where
  "server_remove_client fd w =
     (if fd < 0 \<or> fd > m_max_fd w then Inr (ERROR, w)
      else
        let a = next_addr w;
            hp = (list_heap w)(a \<mapsto> \<lparr>it_next = None, it_prev = None, it_fd = fd\<rparr>) in
        and_then (ft_list_add_last hp (Some (m_clients w)) (Some a)) (\<lambda>(r, hp1, head).
        case head of
          None \<Rightarrow> Inl Null_Deref
        | Some h \<Rightarrow> Inr (SUCCESS, w\<lparr>list_heap := hp1, m_clients := h, next_addr := a + 1\<rparr>)))"

text \<open>What \<open>m_game_print_players_on_tile\<close> logs: id, team number, level and direction of each player.\<close>

fun print_players :: "nat \<Rightarrow> ptr \<Rightarrow> world \<Rightarrow> (int \<times> int \<times> int \<times> direction) list res" where
  "print_players fuel it w =
     (if it = None then Inr []
      else
        case fuel of
          0 \<Rightarrow> Inl Out_Of_Fuel
        | Suc n \<Rightarrow>
            and_then (get_player it w) (\<lambda>pl.
            and_then (print_players n (next_on_tile pl) w) (\<lambda>ls.
            Inr ((p_id pl, p_team_id pl + 1, p_level pl, p_dir pl) # ls))))"

declare print_players.simps [simp del]

definition m_game_print_players_on_tile ::
  "nat \<Rightarrow> tile \<Rightarrow> world \<Rightarrow> (position \<times> (int \<times> int \<times> int \<times> direction) list) res" where
  "m_game_print_players_on_tile fuel t w =
     and_then (print_players fuel (t_players t) w) (\<lambda>ls. Inr (t_pos t, ls))"

text \<open>The other log lines read nothing but the client, its player and the clock.\<close>

definition game_player_die :: "nat \<Rightarrow> ptr \<Rightarrow> world \<Rightarrow> (int \<times> world) res" where
  "game_player_die fuel c w =
     and_then (get_client c w) (\<lambda>cl.
     and_then (get_player (c_player cl) w) (\<lambda>pl.
     if nourriture (p_inv pl) > 0 then
       and_then (upd_player (c_player cl)
          (\<lambda>pl. pl\<lparr>p_inv := item_add NOURRITURE (- 1) (p_inv pl),
                   p_die_time := p_die_time pl + word_of_int (LIFE_UNIT w)\<rparr>) w) (\<lambda>w1. Inr (SUCCESS, w1))
     else
       and_then (get_tile (MAP (pos_x (p_pos pl)) (pos_y (p_pos pl)) w) w) (\<lambda>T.
       and_then (m_game_print_players_on_tile fuel T w) (\<lambda>_.
       and_then (case m_time w of None \<Rightarrow> Inl Null_Deref | Some t \<Rightarrow> Inr (current_time_units t)) (\<lambda>_.
       and_then (m_remove_client_from_server c w) (\<lambda>(ret, w1).
       if ret = ERROR then Inr (ERROR, w1)
       else
         and_then (m_team_remove_player_from_team (c_player cl) w1) (\<lambda>(ret, w2).
         if ret = ERROR then Inr (ERROR, w2)
         else
           and_then (m_game_remove_player_from_tile (c_player cl) w2) (\<lambda>w3.
           and_then (free_player (c_player cl) w3) (\<lambda>w4.
           let (r, w5) = server_create_response_to_command (c_socket_fd cl) ''-'' (Some ''die'') None w4 in
           and_then (server_remove_client (c_socket_fd cl) w5) (\<lambda>(ret, w6).
           if ret = ERROR then Inr (ERROR, w6)
           else and_then (free_client c w6) (\<lambda>w7. Inr (SUCCESS, w7))))))))))))"

section \<open>Observers\<close>

text \<open>
  \<open>game_register_observer\<close> keeps no pointer to the observer it allocates: \<open>observers\<close> of
  \<open>m_server\<close> is never written, so nothing processes the event it books.
\<close>

definition new_observer :: "int \<Rightarrow> observer" where
  "new_observer fd = \<lparr>o_socket_fd = fd, o_last_idx = 0, o_event_buffer = empty_buffer None\<rparr>"

definition game_register_observer :: "int \<Rightarrow> world \<Rightarrow> (int \<times> world) res" where
  "game_register_observer fd w =
     (let (obs, w1) = malloc_observer (new_observer fd) w in
      and_then (get_observer obs w1) (\<lambda>ob.
      let (r, b) = time_api_schedule_client_event None (m_time w1) (o_event_buffer ob) 0
                     (Some Send_Map_Observer) obs None in
      and_then (update_ref (oheap w1) obs (\<lambda>ob. ob\<lparr>o_event_buffer := b\<rparr>)) (\<lambda>h.
      Inr (SUCCESS, w1\<lparr>oheap := h\<rparr>))))"

section \<open>Shutdown\<close>

text \<open>\<open>free (clients[i]->player); free (clients[i])\<close> for every client, from index \<open>i\<close> on.\<close>

fun clean_clients :: "nat \<Rightarrow> int \<Rightarrow> world \<Rightarrow> world res" where
  "clean_clients 0 i w = Inr w"
| "clean_clients (Suc n) i w =
     and_then (get_slot i w) (\<lambda>c.
     if c = None then clean_clients n (i + 1) w
     else
       and_then (get_client c w) (\<lambda>cl.
       and_then (free_player (c_player cl) w) (\<lambda>w1.
       and_then (free_client c w1) (\<lambda>w2. clean_clients n (i + 1) w2))))"

definition game_clean :: "world \<Rightarrow> world res" where
  "game_clean w =
     and_then (clean_clients (nat (client_count w)) 0 w) (\<lambda>w1.
     Inr (w1\<lparr>clients := None, teams := [], tiles := []\<rparr>))"

end
