(* ===== verification/Spawn.thy ===== *)
theory Spawn
  imports Items Roster
begin

text \<open>
  Resources: the random count of \<open>m_game_random_resource_count\<close> (a Poisson draw by
  multiplication of uniform numbers), the map at start (\<open>game_init_map\<close>), the periodic
  \<open>m_game_spawn_resources\<close>, and \<open>game_init\<close>; all of \<open>game.c\<close>. The configuration the parser
  leaves behind is the record \<open>game_config\<close>.
\<close>

abbreviation (input) RAND_MAX :: real where
  "RAND_MAX \<equiv> 2147483647"

section \<open>Random counts\<close>

fun count_loop :: "nat \<Rightarrow> real \<Rightarrow> real \<Rightarrow> int \<Rightarrow> world \<Rightarrow> (int \<times> world) res" where
  "count_loop 0 p0 prd count w = Inl Out_Of_Fuel"
| "count_loop (Suc n) p0 prd count w =
     (let (r, w1) = rand w; prd' = prd * (of_int r / RAND_MAX)
      in if prd' < p0 then Inr (count, w1) else count_loop n p0 prd' (count + 1) w1)"

definition m_game_random_resource_count :: "nat \<Rightarrow> real \<Rightarrow> world \<Rightarrow> (int \<times> world) res" where
  "m_game_random_resource_count fuel lam w = count_loop fuel (exp (- lam)) 1 0 w"

text \<open>The seven draws, one per resource, in the order of the assignments.\<close>

definition random_inventory :: "nat \<Rightarrow> spawn_ctx \<Rightarrow> world \<Rightarrow> (inventory \<times> world) res" where
  "random_inventory fuel ctx w =
     and_then (m_game_random_resource_count fuel (d_nourriture ctx) w) (\<lambda>(n, w1).
     and_then (m_game_random_resource_count fuel (d_linemate ctx) w1) (\<lambda>(l, w2).
     and_then (m_game_random_resource_count fuel (d_deraumere ctx) w2) (\<lambda>(d, w3).
     and_then (m_game_random_resource_count fuel (d_sibur ctx) w3) (\<lambda>(s, w4).
     and_then (m_game_random_resource_count fuel (d_mendiane ctx) w4) (\<lambda>(m, w5).
     and_then (m_game_random_resource_count fuel (d_phiras ctx) w5) (\<lambda>(p, w6).
     and_then (m_game_random_resource_count fuel (d_thystame ctx) w6) (\<lambda>(t, w7).
     Inr (\<lparr>nourriture = n, linemate = l, deraumere = d, sibur = s, mendiane = m, phiras = p,
           thystame = t\<rparr>, w7))))))))"

definition items_plus :: "inventory \<Rightarrow> inventory \<Rightarrow> inventory" where
  "items_plus i n =
     \<lparr>nourriture = nourriture i + nourriture n, linemate = linemate i + linemate n,
      deraumere = deraumere i + deraumere n, sibur = sibur i + sibur n,
      mendiane = mendiane i + mendiane n, phiras = phiras i + phiras n,
      thystame = thystame i + thystame n\<rparr>"

section \<open>Respawning\<close>

definition spawn_batch :: "int \<Rightarrow> int" where
  "spawn_batch map_sz =
     (let batch = (map_sz * 5 + 99) sdiv 100;
          batch = (if batch < 1 then 1 else batch)
      in if batch > 1000 then 1000 else batch)"

definition spawn_on_tile :: "nat \<Rightarrow> int \<Rightarrow> world \<Rightarrow> world res" where
  "spawn_on_tile fuel i w =
     (let W = map_x w; H = map_y w in
      and_then (c_rem (next_idx (m_ctx w) + i) (W * H)) (\<lambda>idx.
      and_then (c_rem idx W) (\<lambda>x.
      and_then (c_div idx W) (\<lambda>y.
      let t = MAP x y w in
      and_then (get_tile t w) (\<lambda>T.
      if inventory_sum (t_items T) > 15 then Inr w
      else
        and_then (random_inventory fuel (m_ctx w) w) (\<lambda>(inv, w1).
        upd_tile t (\<lambda>T. T\<lparr>t_items := items_plus (t_items T) inv\<rparr>) w1))))))"

definition m_game_spawn_resources :: "nat \<Rightarrow> ptr \<Rightarrow> string option \<Rightarrow> world \<Rightarrow> (int \<times> world) res" where
  "m_game_spawn_resources fuel data arg w =
     (let map_sz = map_x w * map_y w; batch = spawn_batch map_sz in
      and_then (for_each (map int [0..<nat batch]) (spawn_on_tile fuel) w) (\<lambda>w1.
      and_then (c_rem (next_idx (m_ctx w1) + batch) map_sz) (\<lambda>nx.
      let w2 = w1\<lparr>m_ctx := (m_ctx w1)\<lparr>next_idx := nx\<rparr>\<rparr>;
          (r, b) = time_api_schedule_client_event None (m_time w2) (s_event_buffer w2)
                     (period (m_ctx w2)) (Some Spawn_Resources) data arg
      in Inr (0, w2\<lparr>s_event_buffer := b\<rparr>))))"

section \<open>Starting the game\<close>

text \<open>What \<open>game_init\<close> asks the configuration for (the \<open>parse_set_\<dots>\<close> functions).\<close>

record game_config =
  g_life_unit :: int
  g_start_life_units :: int
  g_density :: spawn_ctx
  g_delays :: "int list"
  g_respawn :: spawn_ctx
  g_respawn_on :: bool

definition init_tile :: "nat \<Rightarrow> spawn_ctx \<Rightarrow> int \<times> int \<Rightarrow> world \<Rightarrow> world res" where
  "init_tile fuel dst ij w =
     (let t = MAP (fst ij) (snd ij) w in
      and_then (upd_tile t (\<lambda>T. T\<lparr>t_pos := \<lparr>pos_x = fst ij, pos_y = snd ij\<rparr>, t_players := None\<rparr>) w) (\<lambda>w1.
      and_then (random_inventory fuel dst w1) (\<lambda>(inv, w2).
      upd_tile t (\<lambda>T. T\<lparr>t_items := inv\<rparr>) w2)))"

definition game_init_map :: "nat \<Rightarrow> game_config \<Rightarrow> int \<Rightarrow> int \<Rightarrow> world \<Rightarrow> (int \<times> world) res" where
  "game_init_map fuel cfg width height w =
     (let w1 = w\<lparr>LIFE_UNIT := g_life_unit cfg, START_LIFE_UNITS := g_start_life_units cfg\<rparr> in
      and_then (for_each (concat (map (\<lambda>i. map (\<lambda>j. (int i, int j)) [0..<nat height]) [0..<nat width]))
                  (init_tile fuel (g_density cfg)) w1) (\<lambda>w2.
      Inr (SUCCESS, w2)))"

definition zero_tile :: tile where
  "zero_tile = \<lparr>t_pos = \<lparr>pos_x = 0, pos_y = 0\<rparr>, t_items = empty_inventory, t_players = None\<rparr>"

definition game_init ::
  "nat \<Rightarrow> game_config \<Rightarrow> int \<Rightarrow> int \<Rightarrow> string list \<Rightarrow> int \<Rightarrow> int \<Rightarrow> world \<Rightarrow> (int \<times> world) res" where
  "game_init fuel cfg width height team_names nb_clients nb_teams w =
     (let w1 = w\<lparr>command_delays := (g_delays cfg)[9 := 0], m_incantation_time := g_delays cfg ! 9,
                 map_x := width, map_y := height, tiles := replicate (nat (width * height)) zero_tile\<rparr> in
      and_then (game_init_map fuel cfg width height w1) (\<lambda>(r, w2).
      let w3 = w2\<lparr>clients := Some (replicate (nat nb_clients) None), client_count := nb_clients,
                  team_count := nb_teams\<rparr> in
      and_then (traverse (\<lambda>i.
          and_then (arr_get team_names (int i)) (\<lambda>name.
          and_then (c_div (client_count w3) (team_count w3)) (\<lambda>n.
          Inr (m_game_init_team name n)))) [0..<nat nb_teams]) (\<lambda>ts.
      let w4 = w3\<lparr>teams := ts, m_ctx := (g_respawn cfg)\<lparr>next_idx := next_idx (m_ctx w3)\<rparr>\<rparr> in
      if g_respawn_on cfg then
        let (r, b) = time_api_schedule_client_event None (m_time w4) (s_event_buffer w4)
                       (period (m_ctx w4)) (Some Spawn_Resources) None None
        in Inr (SUCCESS, w4\<lparr>s_event_buffer := b\<rparr>)
      else Inr (SUCCESS, w4))))"

end
