(* ===== verification/Play.thy ===== *)
theory Play
  imports Vision Moves Broadcast Incantation Lifecycle Spawn
begin

text \<open>
  The dispatch of a due event to its command and the game's turn \<open>game_play\<close>, with the views of
  the world the observers are meant to get (\<open>m_serialize_server\<close>); all of \<open>game.c\<close>.
  \<open>fuel\<close> bounds the loops that walk a tile's list or draw random numbers.
\<close>

section \<open>The world as JSON\<close>

fun tile_players :: "nat \<Rightarrow> ptr \<Rightarrow> world \<Rightarrow> json list res" where
  "tile_players fuel p w =
     (if p = None then Inr []
      else
        case fuel of
          0 \<Rightarrow> Inl Out_Of_Fuel
        | Suc n \<Rightarrow>
            and_then (get_player p w) (\<lambda>pl.
            and_then (tile_players n (next_on_tile pl) w) (\<lambda>js. Inr (JNumber (p_id pl) # js))))"

declare tile_players.simps [simp del]

definition m_serialize_tile :: "nat \<Rightarrow> tile \<Rightarrow> world \<Rightarrow> json res" where
  "m_serialize_tile fuel t w =
     and_then (tile_players fuel (t_players t) w) (\<lambda>ps.
     Inr (JObject [(''x'', JNumber (pos_x (t_pos t))), (''y'', JNumber (pos_y (t_pos t))),
                   (''resources'', m_serialize_inventory (t_items t)), (''players'', JArray ps)]))"

definition m_serialize_player :: "player \<Rightarrow> world \<Rightarrow> json res" where
  "m_serialize_player pl w =
     and_then (get_team (p_team_id pl) w) (\<lambda>t.
     Inr (JObject [(''id'', JNumber (p_id pl)),
       (''position'', JObject [(''x'', JNumber (pos_x (p_pos pl))), (''y'', JNumber (pos_y (p_pos pl)))]),
       (''orientation'', JNumber (dir_int (p_dir pl))), (''level'', JNumber (p_level pl)),
       (''team'', JString (tm_name t)), (''inventory'', m_serialize_inventory (p_inv pl))]))"

text \<open>The loop over the clients dereferences \<open>clients[i]\<close> without a NULL check.\<close>

fun serialize_players :: "nat \<Rightarrow> int \<Rightarrow> world \<Rightarrow> json list res" where
  "serialize_players 0 i w = Inr []"
| "serialize_players (Suc n) i w =
     and_then (get_slot i w) (\<lambda>c.
     and_then (get_client c w) (\<lambda>cl.
     if c_player cl = None then serialize_players n (i + 1) w
     else
       and_then (get_player (c_player cl) w) (\<lambda>pl.
       and_then (m_serialize_player pl w) (\<lambda>j.
       and_then (serialize_players n (i + 1) w) (\<lambda>js. Inr (j # js))))))"

definition serialize_team :: "team \<Rightarrow> json" where
  "serialize_team t = JObject [(''name'', JString (tm_name t)),
     (''player_count'', JNumber (tm_current_players t)),
     (''remaining_connections'', JNumber (tm_max_players t - tm_current_players t))]"

definition m_serialize_server :: "nat \<Rightarrow> world \<Rightarrow> json res" where
  "m_serialize_server fuel w =
     and_then (traverse (\<lambda>yx. and_then (get_tile (MAP (snd yx) (fst yx) w) w) (\<lambda>T. m_serialize_tile fuel T w))
       (concat (map (\<lambda>y. map (\<lambda>x. (int y, int x)) [0..<nat (map_x w)]) [0..<nat (map_y w)]))) (\<lambda>ts.
     and_then (serialize_players (nat (client_count w)) 0 w) (\<lambda>ps.
     and_then (case m_time w of None \<Rightarrow> Inl Null_Deref | Some t \<Rightarrow> Inr t) (\<lambda>tm.
     and_then (traverse (\<lambda>i. and_then (get_team (int i) w) (\<lambda>t. Inr (serialize_team t)))
       [0..<nat (team_count w)]) (\<lambda>tms.
     Inr (JObject
       [(''map'', JObject [(''width'', JNumber (map_x w)), (''height'', JNumber (map_y w)),
                           (''tiles'', JArray ts)]),
        (''players'', JArray ps),
        (''game'', JObject [(''tick'', JNumber (t_divider tm)),
                            (''time_unit'', JNumber (uint (current_time_units tm))),
                            (''teams'', JArray tms)])])))))"

definition m_send_map_observer :: "nat \<Rightarrow> ptr \<Rightarrow> string option \<Rightarrow> world \<Rightarrow> (int \<times> world) res" where
  "m_send_map_observer fuel p arg w =
     and_then (get_observer p w) (\<lambda>obs.
     and_then (m_serialize_server fuel w) (\<lambda>j.
     let (r, w1) = server_send_json (o_socket_fd obs) j w in Inr (SUCCESS, w1)))"

section \<open>Running an event\<close>

definition run_command ::
  "nat \<Rightarrow> command_type \<Rightarrow> ptr \<Rightarrow> string option \<Rightarrow> world \<Rightarrow> (int \<times> world) res" where
  "run_command fuel cmd p arg w =
     (case cmd of
        AVANCE \<Rightarrow> m_command_avance p arg w
      | DROITE \<Rightarrow> m_command_droite p arg w
      | GAUCHE \<Rightarrow> m_command_gauche p arg w
      | VOIR \<Rightarrow> m_command_voir p arg w
      | INVENTAIRE \<Rightarrow> m_command_inventaire p arg w
      | PREND \<Rightarrow> m_command_prend p arg w
      | POSE \<Rightarrow> m_command_pose p arg w
      | EXPULSE \<Rightarrow> m_command_expulse fuel p arg w
      | BROADCAST \<Rightarrow> m_command_broadcast p arg w
      | INCANTATION \<Rightarrow> m_command_incantation fuel p arg w
      | FORK \<Rightarrow> m_command_fork p arg w
      | CONNECT_NBR \<Rightarrow> m_command_connect_nbr p arg w
      | MAX_COMMANDS \<Rightarrow> Inl Out_Of_Bounds)"

definition run_callback :: "nat \<Rightarrow> callback \<Rightarrow> ptr \<Rightarrow> string option \<Rightarrow> world \<Rightarrow> world res" where
  "run_callback fuel cb p arg w =
     (case cb of
        Command c \<Rightarrow> and_then (run_command fuel c p arg w) (\<lambda>(r, w1). Inr w1)
      | Real_Incantation \<Rightarrow> and_then (m_command_real_incantation fuel p arg w) (\<lambda>(r, w1). Inr w1)
      | Spawn_Resources \<Rightarrow> and_then (m_game_spawn_resources fuel p arg w) (\<lambda>(r, w1). Inr w1)
      | Send_Map_Observer \<Rightarrow> and_then (m_send_map_observer fuel p arg w) (\<lambda>(r, w1). Inr w1))"

definition get_client_buffer :: "ptr \<Rightarrow> world \<Rightarrow> game_buffer res" where
  "get_client_buffer c w = and_then (get_client c w) (\<lambda>cl. Inr (c_event_buffer cl))"

definition put_client_buffer :: "ptr \<Rightarrow> game_buffer \<Rightarrow> world \<Rightarrow> world res" where
  "put_client_buffer c b w = upd_client c (\<lambda>cl. cl\<lparr>c_event_buffer := b\<rparr>) w"

definition process_client :: "nat \<Rightarrow> ptr \<Rightarrow> world \<Rightarrow> (int \<times> world) res" where
  "process_client fuel c w =
     time_api_process_client_events (m_time w) (get_client_buffer c) (put_client_buffer c)
       (run_callback fuel) (\<lambda>_. Inr) w"

definition process_server :: "nat \<Rightarrow> world \<Rightarrow> (int \<times> world) res" where
  "process_server fuel w =
     time_api_process_client_events (m_time w) (\<lambda>w. Inr (s_event_buffer w))
       (\<lambda>b w. Inr (w\<lparr>s_event_buffer := b\<rparr>)) (run_callback fuel) (\<lambda>_. Inr) w"

section \<open>A turn of the game\<close>

definition PLAYER_IS_ALIVE :: "client \<Rightarrow> u64 \<Rightarrow> world \<Rightarrow> bool res" where
  "PLAYER_IS_ALIVE cl now w =
     and_then (get_player (c_player cl) w) (\<lambda>pl. Inr (p_die_time pl > now))"

definition CLIENT_HAS_ACTIONS :: "client \<Rightarrow> u64 \<Rightarrow> bool" where
  "CLIENT_HAS_ACTIONS cl now \<longleftrightarrow>
     eb_count (c_event_buffer cl) > 0 \<and>
     exec_time (eb_events (c_event_buffer cl) ! nat (eb_head (c_event_buffer cl))) \<le> now"

definition play_client :: "nat \<Rightarrow> u64 \<Rightarrow> int \<Rightarrow> bool \<times> world \<Rightarrow> (bool \<times> world) res" where
  "play_client fuel now i s =
     (let (has_played, w) = s in
      and_then (get_slot i w) (\<lambda>c.
      if c = None then Inr (has_played, w)
      else
        and_then (get_client c w) (\<lambda>cl.
        and_then (PLAYER_IS_ALIVE cl now w) (\<lambda>alive.
        if \<not> alive then and_then (game_player_die fuel c w) (\<lambda>(r, w1). Inr (has_played, w1))
        else if CLIENT_HAS_ACTIONS cl now then
          and_then (process_client fuel c w) (\<lambda>(r, w1). Inr (True, w1))
        else Inr (has_played, w)))))"

text \<open>The clock does not move while the game plays: \<open>now\<close> is \<open>t_api->current_time_units\<close>.\<close>

definition game_play :: "nat \<Rightarrow> world \<Rightarrow> (int \<times> world) res" where
  "game_play fuel w =
     (case m_time w of
        None \<Rightarrow> Inl Null_Deref
      | Some tm \<Rightarrow>
          and_then (for_each (map int [0..<nat (client_count w)])
                      (play_client fuel (current_time_units tm)) (False, w)) (\<lambda>(has_played, w1).
          and_then (process_server fuel w1) (\<lambda>(r, w2).
          Inr (if \<not> has_played then 0 else SUCCESS, w2))))"

end
