(* ===== verification/Invariant.thy ===== *)
theory Invariant
  imports Play
begin

text \<open>
  The invariant of the game's state, in parts: \<open>wf_map\<close> (every player stands on exactly the
  tile of its position, the tile lists are well linked), \<open>wf_roster\<close> (the clients array, the
  clients and the players belong to each other one to one, no descriptor twice),
  \<open>wf_teams\<close> (a team's counter is the number of its players), \<open>wf_values\<close> (levels and
  amounts in range), \<open>wf_buffers\<close> (what may be pending) and \<open>wf_rest\<close>. \<open>keeps\<close> is what
  a command leaves alone; together with the congruences below it reduces the
  preservation proofs to the parts a command touches.
\<close>

section \<open>The parts\<close>

definition placed :: "(nat \<Rightarrow> nat list) \<Rightarrow> world \<Rightarrow> bool" where
  "placed occ w \<longleftrightarrow> (\<forall>a pl. pheap w a = Some pl \<longrightarrow>
     in_map w (p_pos pl) \<and> a \<in> set (occ (tile_no w (p_pos pl))))"

definition wf_map :: "world \<Rightarrow> bool" where
  "wf_map w \<longleftrightarrow> geometry w \<and> (\<exists>occ. tile_rep occ w \<and> placed occ w)"

definition live :: "world \<Rightarrow> nat list" where
  "live w = (case clients w of None \<Rightarrow> [] | Some cs \<Rightarrow> map the (filter (\<lambda>c. c \<noteq> None) cs))"

definition client_ok :: "world \<Rightarrow> client \<Rightarrow> bool" where
  "client_ok w cl \<longleftrightarrow> (\<exists>pa pl. c_player cl = Some pa \<and> pheap w pa = Some pl \<and> p_id pl = c_socket_fd cl)"

definition wf_roster :: "world \<Rightarrow> bool" where
  "wf_roster w \<longleftrightarrow> clients w \<noteq> None \<and> int (length (the (clients w))) = client_count w \<and>
     distinct (live w) \<and> dom (cheap w) = set (live w) \<and>
     (\<forall>a cl. cheap w a = Some cl \<longrightarrow> client_ok w cl) \<and>
     (\<forall>a b cl cl'. cheap w a = Some cl \<longrightarrow> cheap w b = Some cl' \<longrightarrow>
        c_player cl = c_player cl' \<or> c_socket_fd cl = c_socket_fd cl' \<longrightarrow> a = b) \<and>
     (\<forall>pa. pheap w pa \<noteq> None \<longrightarrow> (\<exists>a cl. cheap w a = Some cl \<and> c_player cl = Some pa))"

definition members :: "world \<Rightarrow> int \<Rightarrow> nat set" where
  "members w i = {pa. \<exists>pl. pheap w pa = Some pl \<and> p_team_id pl = i}"

definition wf_teams :: "world \<Rightarrow> bool" where
  "wf_teams w \<longleftrightarrow> int (length (teams w)) = team_count w \<and>
     (\<forall>pa pl. pheap w pa = Some pl \<longrightarrow> 0 \<le> p_team_id pl \<and> p_team_id pl < team_count w) \<and>
     (\<forall>i < length (teams w). let t = teams w ! i in
        tm_current_players t = int (card (members w (int i))) \<and>
        tm_current_players t \<le> tm_max_players t \<and>
        int (length (tm_players t)) = 2 * tm_max_players t) \<and>
     sum_list (map tm_max_players (teams w)) \<le> client_count w"

definition items_nonneg :: "inventory \<Rightarrow> bool" where
  "items_nonneg i \<longleftrightarrow> 0 \<le> nourriture i \<and> 0 \<le> linemate i \<and> 0 \<le> deraumere i \<and> 0 \<le> sibur i \<and>
     0 \<le> mendiane i \<and> 0 \<le> phiras i \<and> 0 \<le> thystame i"

definition player_values :: "player \<Rightarrow> bool" where
  "player_values pl \<longleftrightarrow> 1 \<le> p_level pl \<and> p_level pl \<le> LEVEL_MAX \<and> items_nonneg (p_inv pl)"

definition wf_values :: "world \<Rightarrow> bool" where
  "wf_values w \<longleftrightarrow> (\<forall>a pl. pheap w a = Some pl \<longrightarrow> player_values pl) \<and>
     (\<forall>T \<in> set (tiles w). items_nonneg (t_items T))"

definition client_event :: "ptr \<Rightarrow> game_event \<Rightarrow> bool" where
  "client_event p e \<longleftrightarrow> ev_data e = p \<and>
     (case ev_callback e of
        Some (Command c) \<Rightarrow> c \<noteq> MAX_COMMANDS
      | Some Real_Incantation \<Rightarrow> ev_arg e \<noteq> None
      | _ \<Rightarrow> False)"

definition client_buffer :: "client \<Rightarrow> bool" where
  "client_buffer cl \<longleftrightarrow> wf_buffer (c_event_buffer cl) \<and>
     (\<forall>e \<in> set (pending (c_event_buffer cl)). client_event (c_player cl) e)"

definition wf_buffers :: "world \<Rightarrow> bool" where
  "wf_buffers w \<longleftrightarrow> (\<forall>a cl. cheap w a = Some cl \<longrightarrow> client_buffer cl)"

definition spawn_event :: "game_event \<Rightarrow> bool" where
  "spawn_event e \<longleftrightarrow> ev_callback e = Some Spawn_Resources \<and> ev_arg e = None"

definition wf_server_buffer :: "world \<Rightarrow> bool" where
  "wf_server_buffer w \<longleftrightarrow> wf_buffer (s_event_buffer w) \<and>
     (\<forall>e \<in> set (pending (s_event_buffer w)). spawn_event e) \<and>
     0 \<le> next_idx (m_ctx w)"

definition wf_rest :: "world \<Rightarrow> bool" where
  "wf_rest w \<longleftrightarrow> m_time w \<noteq> None \<and> length (command_delays w) = 12 \<and>
     (\<forall>a. pheap w a \<noteq> None \<or> cheap w a \<noteq> None \<or> list_heap w a \<noteq> None \<longrightarrow> a < next_addr w) \<and>
     (\<forall>a cl. cheap w a = Some cl \<longrightarrow> 0 \<le> c_socket_fd cl \<and> c_socket_fd cl \<le> m_max_fd w) \<and>
     (\<forall>a it. list_heap w a = Some it \<longrightarrow> 0 \<le> it_fd it \<and> it_fd it \<le> m_max_fd w) \<and> m_max_fd w < 1024 \<and>
     (\<exists>ns. ring (list_heap w) (m_clients w) ns) \<and>
     (\<forall>a. oheap w a \<noteq> None \<longrightarrow> a < next_addr w)"

definition wf_world :: "world \<Rightarrow> bool" where
  "wf_world w \<longleftrightarrow> wf_map w \<and> wf_roster w \<and> wf_teams w \<and> wf_values w \<and> wf_buffers w \<and>
     wf_server_buffer w \<and> wf_rest w"

section \<open>What a command keeps\<close>

definition ident :: "player \<Rightarrow> int \<times> int" where
  "ident pl = (p_id pl, p_team_id pl)"

definition owner :: "client \<Rightarrow> int \<times> ptr" where
  "owner cl = (c_socket_fd cl, c_player cl)"

definition keeps :: "world \<Rightarrow> world \<Rightarrow> bool" where
  "keeps w w' \<longleftrightarrow> (\<exists>h ch ts os. w' = w\<lparr>pheap := h, cheap := ch, tiles := ts, out := os\<rparr> \<and>
     (\<forall>a. map_option ident (h a) = map_option ident (pheap w a)) \<and>
     (\<forall>a. map_option owner (ch a) = map_option owner (cheap w a)))"

lemma keepsI:
  "(\<And>a. map_option ident (h a) = map_option ident (pheap w a)) \<Longrightarrow>
   (\<And>a. map_option owner (ch a) = map_option owner (cheap w a)) \<Longrightarrow>
   keeps w (w\<lparr>pheap := h, cheap := ch, tiles := ts, out := os\<rparr>)"
  unfolding keeps_def by (intro exI [of _ h] exI [of _ ch] exI [of _ ts] exI [of _ os]) simp

lemma keepsE:
  assumes "keeps w w'"
  obtains h ch ts os where "w' = w\<lparr>pheap := h, cheap := ch, tiles := ts, out := os\<rparr>"
    "\<And>a. map_option ident (h a) = map_option ident (pheap w a)"
    "\<And>a. map_option owner (ch a) = map_option owner (cheap w a)"
  using assms unfolding keeps_def by blast

lemma keeps_refl [simp]: "keeps w w"
  using keepsI [where w = w and h = "pheap w" and ch = "cheap w" and ts = "tiles w" and os = "out w"]
  by simp

lemma keeps_trans:
  assumes "keeps w w1" "keeps w1 w2"
  shows "keeps w w2"
proof -
  obtain h ch ts os where 1: "w1 = w\<lparr>pheap := h, cheap := ch, tiles := ts, out := os\<rparr>"
    "\<And>a. map_option ident (h a) = map_option ident (pheap w a)"
    "\<And>a. map_option owner (ch a) = map_option owner (cheap w a)"
    using assms(1) by (rule keepsE) blast
  obtain h' ch' ts' os' where 2: "w2 = w1\<lparr>pheap := h', cheap := ch', tiles := ts', out := os'\<rparr>"
    "\<And>a. map_option ident (h' a) = map_option ident (pheap w1 a)"
    "\<And>a. map_option owner (ch' a) = map_option owner (cheap w1 a)"
    using assms(2) by (rule keepsE) blast
  show ?thesis
    using keepsI [where w = w and h = h' and ch = ch' and ts = ts' and os = os'] 1 2 by simp
qed

lemma keeps_send [simp]: "keeps w (send fd j w)"
  using keepsI [where w = w and h = "pheap w" and ch = "cheap w" and ts = "tiles w"
      and os = "out w @ [(fd, j)]"]
  by (simp add: send_def)

lemma keeps_fields:
  assumes "keeps w w'"
  shows "map_x w' = map_x w" "map_y w' = map_y w" "clients w' = clients w"
    "client_count w' = client_count w" "teams w' = teams w" "team_count w' = team_count w"
    "m_time w' = m_time w" "next_addr w' = next_addr w" "m_max_fd w' = m_max_fd w"
    "s_event_buffer w' = s_event_buffer w" "oheap w' = oheap w" "m_incantation_time w' = m_incantation_time w"
  using assms by (auto elim!: keepsE)

lemma map_option_SomeD: "map_option f x = map_option f y \<Longrightarrow> y = Some b \<Longrightarrow> \<exists>a. x = Some a \<and> f a = f b"
  by (cases x) auto

lemma keeps_player:
  assumes "keeps w w'" "pheap w a = Some pl"
  obtains pl' where "pheap w' a = Some pl'" "p_id pl' = p_id pl" "p_team_id pl' = p_team_id pl"
proof -
  obtain h ch ts os where "w' = w\<lparr>pheap := h, cheap := ch, tiles := ts, out := os\<rparr>"
    "map_option ident (h a) = map_option ident (pheap w a)"
    using assms(1) by (rule keepsE) blast
  with map_option_SomeD [OF this(2) assms(2)] show ?thesis
    using that by (auto simp: ident_def)
qed

lemma keeps_player_back:
  assumes "keeps w w'" "pheap w' a = Some pl'"
  obtains pl where "pheap w a = Some pl" "p_id pl' = p_id pl" "p_team_id pl' = p_team_id pl"
proof -
  obtain h ch ts os where "w' = w\<lparr>pheap := h, cheap := ch, tiles := ts, out := os\<rparr>"
    "map_option ident (h a) = map_option ident (pheap w a)"
    using assms(1) by (rule keepsE) blast
  with map_option_SomeD [OF this(2) [symmetric], of pl'] assms(2) show ?thesis
    using that by (auto simp: ident_def)
qed

lemma keeps_client:
  assumes "keeps w w'" "cheap w a = Some cl"
  obtains cl' where "cheap w' a = Some cl'" "c_socket_fd cl' = c_socket_fd cl" "c_player cl' = c_player cl"
proof -
  obtain h ch ts os where "w' = w\<lparr>pheap := h, cheap := ch, tiles := ts, out := os\<rparr>"
    "map_option owner (ch a) = map_option owner (cheap w a)"
    using assms(1) by (rule keepsE) blast
  with map_option_SomeD [OF this(2) assms(2)] show ?thesis
    using that by (auto simp: owner_def)
qed

lemma keeps_client_back:
  assumes "keeps w w'" "cheap w' a = Some cl'"
  obtains cl where "cheap w a = Some cl" "c_socket_fd cl' = c_socket_fd cl" "c_player cl' = c_player cl"
proof -
  obtain h ch ts os where "w' = w\<lparr>pheap := h, cheap := ch, tiles := ts, out := os\<rparr>"
    "map_option owner (ch a) = map_option owner (cheap w a)"
    using assms(1) by (rule keepsE) blast
  with map_option_SomeD [OF this(2) [symmetric], of cl'] assms(2) show ?thesis
    using that by (auto simp: owner_def)
qed

lemma keeps_dom:
  assumes "keeps w w'"
  shows "dom (pheap w') = dom (pheap w)" "dom (cheap w') = dom (cheap w)" "live w' = live w"
proof -
  show "dom (pheap w') = dom (pheap w)"
    using assms by (blast elim: keeps_player keeps_player_back)
  show "dom (cheap w') = dom (cheap w)"
    using assms by (blast elim: keeps_client keeps_client_back)
  show "live w' = live w"
    using keeps_fields(3) [OF assms] by (simp add: live_def)
qed

lemma keeps_roster:
  assumes "keeps w w'" "wf_roster w"
  shows "wf_roster w'"
  unfolding wf_roster_def
proof (intro conjI allI impI)
  have r: "clients w \<noteq> None" "int (length (the (clients w))) = client_count w" "distinct (live w)"
    "dom (cheap w) = set (live w)"
    using assms(2) by (simp_all add: wf_roster_def)
  show "clients w' \<noteq> None" "int (length (the (clients w'))) = client_count w'"
    using r keeps_fields [OF assms(1)] by simp_all
  show "distinct (live w')" "dom (cheap w') = set (live w')"
    using r keeps_dom [OF assms(1)] by simp_all
next
  fix a cl
  assume "cheap w' a = Some cl"
  with assms(1) obtain cl0 where cl0: "cheap w a = Some cl0" "c_socket_fd cl = c_socket_fd cl0"
    "c_player cl = c_player cl0"
    by (rule keeps_client_back)
  then obtain pa pl where "c_player cl0 = Some pa" "pheap w pa = Some pl" "p_id pl = c_socket_fd cl0"
    using assms(2) unfolding wf_roster_def client_ok_def by blast
  with cl0 show "client_ok w' cl"
    using keeps_player [OF assms(1)] by (metis client_ok_def)
next
  fix a b cl cl'
  assume "cheap w' a = Some cl" "cheap w' b = Some cl'"
    "c_player cl = c_player cl' \<or> c_socket_fd cl = c_socket_fd cl'"
  moreover obtain c0 where "cheap w a = Some c0" "c_socket_fd cl = c_socket_fd c0" "c_player cl = c_player c0"
    using keeps_client_back [OF assms(1) calculation(1)] by blast
  moreover obtain c1 where "cheap w b = Some c1" "c_socket_fd cl' = c_socket_fd c1" "c_player cl' = c_player c1"
    using keeps_client_back [OF assms(1) calculation(2)] by blast
  ultimately show "a = b"
    using assms(2) unfolding wf_roster_def by metis
next
  fix pa
  assume "pheap w' pa \<noteq> None"
  then have "pheap w pa \<noteq> None" using keeps_dom(1) [OF assms(1)] by blast
  then obtain a cl where "cheap w a = Some cl" "c_player cl = Some pa"
    using assms(2) unfolding wf_roster_def by blast
  then show "\<exists>a cl. cheap w' a = Some cl \<and> c_player cl = Some pa"
    using keeps_client [OF assms(1)] by metis
qed

lemma keeps_members: "keeps w w' \<Longrightarrow> members w' i = members w i"
  unfolding members_def by (metis keeps_player keeps_player_back)

lemma keeps_teams: "keeps w w' \<Longrightarrow> wf_teams w \<Longrightarrow> wf_teams w'"
  unfolding wf_teams_def Let_def
  by (simp add: keeps_members keeps_fields) (metis keeps_player_back)

lemma keeps_rest:
  assumes "keeps w w'" "wf_rest w"
  shows "wf_rest w'"
proof -
  obtain h ch ts os where e: "w' = w\<lparr>pheap := h, cheap := ch, tiles := ts, out := os\<rparr>"
    using assms(1) by (rule keepsE) blast
  have "pheap w' a = None \<longleftrightarrow> pheap w a = None" "cheap w' a = None \<longleftrightarrow> cheap w a = None" for a
    using keeps_dom [OF assms(1)] by blast+
  moreover have "0 \<le> c_socket_fd cl \<and> c_socket_fd cl \<le> m_max_fd w" if cl: "cheap w' a = Some cl" for a cl
    using keeps_client_back [OF assms(1) cl] assms(2) unfolding wf_rest_def by metis
  ultimately show ?thesis
    using assms(2) e by (simp add: wf_rest_def)
qed

lemma keeps_server_buffer: "keeps w w' \<Longrightarrow> wf_server_buffer w \<Longrightarrow> wf_server_buffer w'"
  by (elim keepsE) (simp add: wf_server_buffer_def)

section \<open>Who is in the game\<close>

text \<open>
  The players by descriptor and team, and the places of each team; nobody joins while
  \<open>fewer\<close>, and the observers stay as they are.
\<close>

definition lobby :: "world \<Rightarrow> (int \<times> int) set" where
  "lobby w = ident ` ran (pheap w)"

definition seats :: "world \<Rightarrow> int list" where
  "seats w = map tm_max_players (teams w)"

definition fewer :: "world \<Rightarrow> world \<Rightarrow> bool" where
  "fewer w w' \<longleftrightarrow> client_count w' = client_count w \<and> seats w' = seats w \<and> lobby w' \<subseteq> lobby w \<and>
     oheap w' = oheap w"

lemma lobby_iff: "(fd, t) \<in> lobby w \<longleftrightarrow> (\<exists>a pl. pheap w a = Some pl \<and> p_id pl = fd \<and> p_team_id pl = t)"
  by (auto simp: lobby_def ran_def ident_def)

lemma keeps_lobby:
  assumes "keeps w w'"
  shows "lobby w' = lobby w"
proof -
  have "p \<in> lobby w' \<longleftrightarrow> p \<in> lobby w" for p
    using keeps_player [OF assms] keeps_player_back [OF assms] unfolding lobby_iff [of "fst p" "snd p", simplified] by metis
  then show ?thesis by blast
qed

lemma seats_update:
  assumes "tm_max_players T = tm_max_players (ts ! k)"
  shows "map tm_max_players (ts[k := T]) = map tm_max_players ts"
proof (cases "k < length ts")
  case True
  then show ?thesis using assms list_update_id [of "map tm_max_players ts" k] by (simp add: map_update)
qed (simp add: list_update_beyond)

lemma keeps_fewer: "keeps w w' \<Longrightarrow> fewer w w'"
  by (simp add: fewer_def seats_def keeps_lobby keeps_fields)

lemma fewer_refl [simp]: "fewer w w"
  by (simp add: fewer_def)

lemma fewer_trans: "fewer w w1 \<Longrightarrow> fewer w1 w2 \<Longrightarrow> fewer w w2"
  by (auto simp: fewer_def)

lemma fewer_count: "fewer w w' \<Longrightarrow> client_count w' = client_count w"
  by (simp add: fewer_def)

lemma fewer_same:
  "client_count w' = client_count w \<Longrightarrow> teams w' = teams w \<Longrightarrow> pheap w' = pheap w \<Longrightarrow>
   oheap w' = oheap w \<Longrightarrow> fewer w w'"
  by (simp add: fewer_def seats_def lobby_def)

text \<open>What is left to prove of a command.\<close>

lemma wf_worldI:
  assumes "keeps w w'" "wf_world w" "wf_map w'" "wf_values w'" "wf_buffers w'"
  shows "wf_world w'"
  using assms keeps_roster keeps_teams keeps_rest keeps_server_buffer by (auto simp: wf_world_def)

end
