(* ===== verification/Preserve.thy ===== *)
theory Preserve
  imports Invariant
begin

text \<open>
  Every command of a living player, started in a state that satisfies the invariant, returns
  normally (no NULL or freed pointer, no array access out of bounds, no division by zero) in
  a state that satisfies it; \<open>expulse\<close> may also not return. The collection \<open>cmd_ok\<close> holds
  the lemmas, one per command.
\<close>

named_theorems cmd_ok \<open>commands keep the invariant\<close>

declare int_tile_no [simp del]

section \<open>Changes that move nobody\<close>

definition place :: "player \<Rightarrow> position \<times> ptr \<times> ptr" where
  "place pl = (p_pos pl, links pl)"

definition tile_place :: "tile \<Rightarrow> position \<times> ptr" where
  "tile_place T = (t_pos T, t_players T)"

lemma wf_map_cong:
  assumes "wf_map w" "map_x w' = map_x w" "map_y w' = map_y w"
    and tp: "map tile_place (tiles w') = map tile_place (tiles w)"
    and pp: "\<And>a. map_option place (pheap w' a) = map_option place (pheap w a)"
  shows "wf_map w'"
proof -
  obtain occ where w: "geometry w" "tile_rep occ w" "placed occ w"
    using assms(1) by (auto simp: wf_map_def)
  have len: "length (tiles w') = length (tiles w)"
    using tp by (rule map_eq_imp_length_eq)
  have nth: "tile_place (tiles w' ! i) = tile_place (tiles w ! i)" if "i < length (tiles w)" for i
    using tp len that by (metis nth_map)
  have pos: "t_pos (tiles w' ! i) = t_pos (tiles w ! i)"
    and hd: "t_players (tiles w' ! i) = t_players (tiles w ! i)" if "i < length (tiles w)" for i
    using nth [OF that] by (simp_all add: tile_place_def)
  have geo: "geometry w'"
    using w(1) len pos assms(2,3) by (simp add: geometry_def)
  have same: "in_map w' = in_map w" "tile_no w' = tile_no w"
    using assms(2,3) by (simp_all add: in_map_def tile_no_def MAP_def fun_eq_iff)
  have "tile_rep occ w'"
    unfolding tile_rep_def
  proof (intro allI impI conjI ballI)
    fix i
    assume "i < length (tiles w')"
    then have i: "i < length (tiles w)" by (simp only: len)
    show "dseg (pheap w') None (t_players (tiles w' ! i)) (occ i) None"
    proof (subst hd [OF i], rule dseg_frame [OF tile_repD(1) [OF w(2) i]])
      fix a
      show "map_option links (pheap w' a) = map_option links (pheap w a)"
        using arg_cong [OF pp [of a], of "map_option snd"]
        by (simp add: option.map_comp comp_def place_def)
    qed
    show "distinct (occ i)" using tile_repD(2) [OF w(2) i] .
    fix a
    assume "a \<in> set (occ i)"
    then obtain pl where "pheap w a = Some pl" "p_pos pl = t_pos (tiles w ! i)"
      using tile_repD(3) [OF w(2) i] by blast
    with map_option_SomeD [OF pp this(1)] pos [OF i]
    show "\<exists>pl. pheap w' a = Some pl \<and> p_pos pl = t_pos (tiles w' ! i)"
      by (auto simp: place_def)
  qed
  moreover have "placed occ w'"
    unfolding placed_def same
  proof (intro allI impI)
    fix a pl
    assume "pheap w' a = Some pl"
    then obtain pl0 where "pheap w a = Some pl0" "p_pos pl0 = p_pos pl"
      using map_option_SomeD [OF pp [symmetric]] by (fastforce simp: place_def)
    then show "in_map w (p_pos pl) \<and> a \<in> set (occ (tile_no w (p_pos pl)))"
      using w(3) unfolding placed_def by metis
  qed
  ultimately show ?thesis using geo by (auto simp: wf_map_def)
qed

lemma keeps_touch:
  assumes "\<And>a. map_option ident (h a) = map_option ident (pheap w a)"
  shows "keeps w (w\<lparr>pheap := h, tiles := ts, out := os\<rparr>)"
  using keepsI [where w = w and h = h and ch = "cheap w" and ts = ts and os = os] assms by simp

lemma wf_touch:
  assumes "wf_world w"
    and "\<And>a. map_option ident (h a) = map_option ident (pheap w a)"
    and "\<And>a. map_option place (h a) = map_option place (pheap w a)"
    and "map tile_place ts = map tile_place (tiles w)"
    and "\<And>a pl. h a = Some pl \<Longrightarrow> player_values pl"
    and "\<And>T. T \<in> set ts \<Longrightarrow> items_nonneg (t_items T)"
  shows "wf_world (w\<lparr>pheap := h, tiles := ts, out := os\<rparr>)"
proof (rule wf_worldI [OF keeps_touch [OF assms(2)] assms(1)])
  have "wf_map w" using assms(1) by (simp add: wf_world_def)
  then show "wf_map (w\<lparr>pheap := h, tiles := ts, out := os\<rparr>)"
    by (rule wf_map_cong) (simp_all add: assms(3,4))
  show "wf_values (w\<lparr>pheap := h, tiles := ts, out := os\<rparr>)"
    using assms(5,6) by (simp add: wf_values_def)
  show "wf_buffers (w\<lparr>pheap := h, tiles := ts, out := os\<rparr>)"
    using assms(1) by (simp add: wf_world_def wf_buffers_def)
qed

lemma wf_values_player: "wf_world w \<Longrightarrow> pheap w a = Some pl \<Longrightarrow> player_values pl"
  by (simp add: wf_world_def wf_values_def)

lemma wf_values_tile: "wf_world w \<Longrightarrow> T \<in> set (tiles w) \<Longrightarrow> items_nonneg (t_items T)"
  by (simp add: wf_world_def wf_values_def)

text \<open>Three special cases: a reply, a player's own fields, the items of a tile.\<close>

lemma wf_send [simp]: "wf_world w \<Longrightarrow> wf_world (send fd j w)"
  using wf_touch [where w = w and h = "pheap w" and ts = "tiles w" and os = "out w @ [(fd, j)]"]
  by (simp add: send_def wf_values_player wf_values_tile)

lemma upd_player_eq: "pheap w a = Some pl \<Longrightarrow> upd_player (Some a) f w = Inr (w\<lparr>pheap := (pheap w)(a \<mapsto> f pl)\<rparr>)"
  by (simp add: upd_player_def update_ref_Some)

lemma get_player_eq: "pheap w a = Some pl \<Longrightarrow> get_player (Some a) w = Inr pl"
  by (simp add: get_player_def deref_Some)

lemma wf_upd_player:
  assumes "wf_world w" "pheap w a = Some pl" "ident pl' = ident pl" "place pl' = place pl"
    "player_values pl'"
  shows "wf_world (w\<lparr>pheap := (pheap w)(a \<mapsto> pl')\<rparr>)" "keeps w (w\<lparr>pheap := (pheap w)(a \<mapsto> pl')\<rparr>)"
proof -
  let ?h = "(pheap w)(a \<mapsto> pl')"
  have i: "map_option ident (?h b) = map_option ident (pheap w b)"
    and p: "map_option place (?h b) = map_option place (pheap w b)" for b
    using assms(2-4) by simp_all
  have v: "player_values q" if "?h b = Some q" for b q
    using that assms(5) wf_values_player [OF assms(1)] by (auto split: if_splits)
  have "wf_world (w\<lparr>pheap := ?h, tiles := tiles w, out := out w\<rparr>)"
    using v wf_values_tile [OF assms(1)] by (intro wf_touch [OF assms(1) i p]) auto
  then show "wf_world (w\<lparr>pheap := ?h\<rparr>)" by simp
  show "keeps w (w\<lparr>pheap := ?h\<rparr>)"
    using keeps_touch [where w = w and h = ?h and ts = "tiles w" and os = "out w", OF i] by simp
qed

lemma wf_upd_tile:
  assumes "wf_world w" "i < length (tiles w)" "tile_place T = tile_place (tiles w ! i)"
    "items_nonneg (t_items T)"
  shows "wf_world (w\<lparr>tiles := (tiles w)[i := T]\<rparr>)" "keeps w (w\<lparr>tiles := (tiles w)[i := T]\<rparr>)"
proof -
  have tp: "map tile_place ((tiles w)[i := T]) = map tile_place (tiles w)"
    using assms(2,3) by (auto simp: list_eq_iff_nth_eq nth_list_update)
  have vals: "items_nonneg (t_items U)" if "U \<in> set ((tiles w)[i := T])" for U
    using that assms(4) wf_values_tile [OF assms(1)] set_update_subset_insert [of "tiles w" i T] by blast
  have "wf_world (w\<lparr>pheap := pheap w, tiles := (tiles w)[i := T], out := out w\<rparr>)"
    using tp vals wf_values_player [OF assms(1)] by (intro wf_touch [OF assms(1)]) auto
  then show "wf_world (w\<lparr>tiles := (tiles w)[i := T]\<rparr>)" by simp
  show "keeps w (w\<lparr>tiles := (tiles w)[i := T]\<rparr>)"
    using keeps_touch [where w = w and h = "pheap w" and ts = "(tiles w)[i := T]" and os = "out w"]
    by simp
qed

text \<open>Where a living player stands.\<close>

lemma wf_player_pos:
  assumes "wf_world w" "pheap w a = Some pl"
  shows "geometry w" "in_map w (p_pos pl)" "tile_no w (p_pos pl) < length (tiles w)"
    "MAP (pos_x (p_pos pl)) (pos_y (p_pos pl)) w = int (tile_no w (p_pos pl))"
proof -
  obtain occ where occ: "placed occ w" and geo: "geometry w"
    using assms(1) by (auto simp: wf_world_def wf_map_def)
  then show "geometry w" "in_map w (p_pos pl)"
    using assms(2) by (auto simp: placed_def)
  then show "tile_no w (p_pos pl) < length (tiles w)"
    "MAP (pos_x (p_pos pl)) (pos_y (p_pos pl)) w = int (tile_no w (p_pos pl))"
    by (simp_all add: tile_no_less int_tile_no)
qed

lemma get_tile_eq: "i < length (tiles w) \<Longrightarrow> get_tile (int i) w = Inr (tiles w ! i)"
  by (simp add: get_tile_def)

section \<open>Turning, taking stock\<close>

lemma send_fields [simp]:
  "cheap (send fd j w) = cheap w" "pheap (send fd j w) = pheap w" "tiles (send fd j w) = tiles w"
  "clients (send fd j w) = clients w" "client_count (send fd j w) = client_count w"
  "map_x (send fd j w) = map_x w" "map_y (send fd j w) = map_y w" "m_time (send fd j w) = m_time w"
  "teams (send fd j w) = teams w" "team_count (send fd j w) = team_count w"
  by (simp_all add: send_def)

definition good :: "world \<Rightarrow> (int \<times> world) res \<Rightarrow> bool" where
  "good w m \<longleftrightarrow> (\<exists>r w'. m = Inr (r, w') \<and> wf_world w' \<and> keeps w w' \<and> cheap w' = cheap w)"

lemma goodI: "wf_world w' \<Longrightarrow> keeps w w' \<Longrightarrow> cheap w' = cheap w \<Longrightarrow> good w (Inr (r, w'))"
  by (simp add: good_def)

lemma good_reply:
  "wf_world w' \<Longrightarrow> keeps w w' \<Longrightarrow> cheap w' = cheap w \<Longrightarrow>
   good w (Inr (server_create_response_to_command fd cmd arg st w'))"
  by (simp add: good_def server_create_response_to_command_def keeps_trans [OF _ keeps_send])

lemma droite_ok [cmd_ok]:
  assumes "wf_world w" "pheap w a = Some pl"
  shows "good w (m_command_droite (Some a) arg w)"
  using assms wf_upd_player [OF assms, of "pl\<lparr>p_dir := turn_right (p_dir pl)\<rparr>"]
    wf_values_player [OF assms]
  by (simp add: m_command_droite_def upd_player_eq get_player_eq good_reply ident_def place_def
      links_def player_values_def)

lemma gauche_ok [cmd_ok]:
  assumes "wf_world w" "pheap w a = Some pl"
  shows "good w (m_command_gauche (Some a) arg w)"
  using assms wf_upd_player [OF assms, of "pl\<lparr>p_dir := turn_left (p_dir pl)\<rparr>"]
    wf_values_player [OF assms]
  by (simp add: m_command_gauche_def upd_player_eq get_player_eq good_reply ident_def place_def
      links_def player_values_def)

lemma inventaire_ok [cmd_ok]:
  "wf_world w \<Longrightarrow> pheap w a = Some pl \<Longrightarrow> good w (m_command_inventaire (Some a) arg w)"
  by (simp add: m_command_inventaire_def get_player_eq server_send_json_def goodI)

lemma fork_ok [cmd_ok]:
  "wf_world w \<Longrightarrow> pheap w a = Some pl \<Longrightarrow> good w (m_command_fork (Some a) arg w)"
  by (simp add: m_command_fork_def get_player_eq good_reply)

lemma wf_team:
  assumes "wf_world w" "pheap w a = Some pl"
  shows "get_team (p_team_id pl) w = Inr (teams w ! nat (p_team_id pl))"
    "nat (p_team_id pl) < length (teams w)" "0 \<le> p_team_id pl"
proof -
  have id: "0 \<le> p_team_id pl" "p_team_id pl < int (length (teams w))"
    using assms by (auto simp: wf_world_def wf_teams_def)
  then show "get_team (p_team_id pl) w = Inr (teams w ! nat (p_team_id pl))"
    by (simp add: get_team_def)
  show "nat (p_team_id pl) < length (teams w)" "0 \<le> p_team_id pl"
    using id by linarith+
qed

lemma connect_nbr_ok [cmd_ok]:
  "wf_world w \<Longrightarrow> pheap w a = Some pl \<Longrightarrow> good w (m_command_connect_nbr (Some a) arg w)"
  by (simp add: m_command_connect_nbr_def get_player_eq wf_team good_reply)

section \<open>Taking and dropping\<close>

lemma item_add_nonneg:
  "items_nonneg i \<Longrightarrow> 0 \<le> item_count ty i + n \<Longrightarrow> items_nonneg (item_add ty n i)"
  by (cases ty) (auto simp: items_nonneg_def)

lemma item_count_nonneg: "items_nonneg i \<Longrightarrow> 0 \<le> item_count ty i"
  by (cases ty) (auto simp: items_nonneg_def)

lemma items_to_tiles_ok:
  assumes wf: "wf_world w" and pl: "pheap w a = Some pl" and add: "add = 1 \<or> add = - 1"
  shows "good w (m_helper_items_to_tiles (MAP (pos_x (p_pos pl)) (pos_y (p_pos pl)) w) (Some a) add ty w)"
proof -
  let ?i = "tile_no w (p_pos pl)"
  let ?T = "tiles w ! ?i"
  note pos = wf_player_pos [OF wf pl]
  have nonneg: "items_nonneg (t_items ?T)" "player_values pl"
    using wf_values_tile [OF wf nth_mem [OF pos(3)]] wf_values_player [OF wf pl] by simp_all
  have both: "good w (Inr (SUCCESS, w\<lparr>tiles := (tiles w)[?i := ?T\<lparr>t_items := item_add ty n (t_items ?T)\<rparr>],
          pheap := (pheap w)(a \<mapsto> pl\<lparr>p_inv := item_add ty m (p_inv pl)\<rparr>)\<rparr>))"
    if "m = - n" "0 \<le> item_count ty (t_items ?T) + n" "0 \<le> item_count ty (p_inv pl) + m" for n m
  proof -
    let ?w2 = "w\<lparr>tiles := (tiles w)[?i := ?T\<lparr>t_items := item_add ty n (t_items ?T)\<rparr>],
          pheap := (pheap w)(a \<mapsto> pl\<lparr>p_inv := item_add ty m (p_inv pl)\<rparr>)\<rparr>"
    let ?w1 = "w\<lparr>tiles := (tiles w)[?i := ?T\<lparr>t_items := item_add ty n (t_items ?T)\<rparr>]\<rparr>"
    have w1: "wf_world ?w1" "keeps w ?w1"
      using wf_upd_tile [OF wf pos(3)] nonneg(1) that(2)
      by (simp_all add: tile_place_def item_add_nonneg)
    have pl1: "pheap ?w1 a = Some pl" using pl by simp
    have "wf_world ?w2" "keeps ?w1 ?w2"
      using wf_upd_player [OF w1(1) pl1, of "pl\<lparr>p_inv := item_add ty m (p_inv pl)\<rparr>"] nonneg(2) that(3)
      by (simp_all add: ident_def place_def links_def player_values_def item_add_nonneg)
    then show ?thesis using keeps_trans [OF w1(2)] goodI [of ?w2 w] by simp
  qed
  have counts: "0 \<le> item_count ty (t_items ?T)" "0 \<le> item_count ty (p_inv pl)"
    using nonneg by (simp_all add: item_count_nonneg player_values_def)
  show ?thesis
    using add
  proof
    assume "add = - 1"
    then show ?thesis
      using wf pl pos counts both [of 1 "- 1"]
      by (simp add: m_helper_items_to_tiles_def get_tile_eq get_player_eq upd_tile_head upd_player_eq goodI)
  next
    assume "add = 1"
    then show ?thesis
      using wf pl pos counts both [of "- 1" 1]
      by (simp add: m_helper_items_to_tiles_def get_tile_eq get_player_eq upd_tile_head upd_player_eq goodI)
  qed
qed

lemma good_then_reply:
  assumes "good w m" "\<And>r w1. wf_world w1 \<Longrightarrow> keeps w w1 \<Longrightarrow> cheap w1 = cheap w \<Longrightarrow> good w (f (r, w1))"
  shows "good w (and_then m f)"
  using assms by (auto simp: good_def)

lemma prend_ok [cmd_ok]:
  assumes "wf_world w" "pheap w a = Some pl"
  shows "good w (m_command_prend (Some a) arg w)"
  using assms
  by (auto simp: m_command_prend_def get_player_eq good_reply Let_def split: option.split
      intro!: good_then_reply items_to_tiles_ok)

lemma pose_ok [cmd_ok]:
  assumes "wf_world w" "pheap w a = Some pl"
  shows "good w (m_command_pose (Some a) arg w)"
  using assms
  by (auto simp: m_command_pose_def get_player_eq good_reply Let_def split: option.split
      intro!: good_then_reply items_to_tiles_ok)

end
