(* ===== verification/Commands.thy ===== *)
theory Commands
  imports Preserve
begin

text \<open>
  The commands that read or change more than one player: \<open>voir\<close>, \<open>broadcast\<close>, \<open>avance\<close>, the two
  halves of the incantation and \<open>expulse\<close> keep the invariant. Fuel of one unit per slot of
  the clients array is enough for the walks along a tile's list.
\<close>

section \<open>Looking\<close>

lemma tile_head_alloc:
  assumes "wf_map w" "i < length (tiles w)" "t_players (tiles w ! i) = Some x"
  shows "\<exists>q. pheap w x = Some q"
proof -
  obtain occ where "tile_rep occ w" using assms(1) by (auto simp: wf_map_def)
  then have "dseg (pheap w) None (Some x) (occ i) None"
    using tile_repD(1) [of occ w i] assms(2,3) by simp
  then show ?thesis by (cases "occ i") auto
qed

lemma build_tile_vision_ok:
  assumes "wf_map w" "i < length (tiles w)" "pheap w a = Some pl"
  shows "\<exists>j. build_tile_vision (tiles w ! i) (Some a) w = Inr j"
proof (cases "t_players (tiles w ! i)")
  case None
  then show ?thesis using assms(3) by (simp add: build_tile_vision_def get_player_eq)
next
  case (Some x)
  with tile_head_alloc [OF assms(1,2)] obtain q where "pheap w x = Some q" by blast
  with Some assms(3) show ?thesis by (simp add: build_tile_vision_def get_player_eq)
qed

lemma cell_pos_in_map: "geometry w \<Longrightarrow> in_map w (cell_pos w pl d i)"
  by (simp add: in_map_def cell_pos_def geometry_def)

lemma view_tile_index:
  assumes "geometry w"
  shows "view_tile pl w (d, i) = Inr (int (tile_no w (cell_pos w pl d i)))"
    "tile_no w (cell_pos w pl d i) < length (tiles w)"
  using assms cell_pos_in_map [OF assms, of pl d i] tile_no_less view_tile_eq [of w pl d i] int_tile_no
  by (auto simp: geometry_def)

lemma voir_ok [cmd_ok]:
  assumes wf: "wf_world w" and pl: "pheap w a = Some pl"
  shows "good w (m_command_voir (Some a) arg w)"
proof -
  have geo: "geometry w" and map: "wf_map w"
    using wf by (simp_all add: wf_world_def wf_map_def)
  have "\<exists>js. traverse (\<lambda>di. and_then (view_tile pl w di) (\<lambda>t.
      and_then (get_tile t w) (\<lambda>T. build_tile_vision T (Some a) w))) (view_cells (p_level pl)) = Inr js"
  proof (rule traverse_ok)
    fix x :: "int \<times> int"
    obtain d i where x: "x = (d, i)" by (cases x)
    show "\<exists>y. and_then (view_tile pl w x) (\<lambda>t.
        and_then (get_tile t w) (\<lambda>T. build_tile_vision T (Some a) w)) = Inr y"
      unfolding x using view_tile_index [OF geo] build_tile_vision_ok [OF map _ pl]
      by (simp add: get_tile_eq)
  qed
  then obtain js where "traverse (\<lambda>di. and_then (view_tile pl w di) (\<lambda>t.
      and_then (get_tile t w) (\<lambda>T. build_tile_vision T (Some a) w))) (view_cells (p_level pl)) = Inr js" ..
  with wf pl show ?thesis
    by (simp add: m_command_voir_def get_player_eq server_send_json_def goodI)
qed

section \<open>Shouting\<close>

lemma wf_slot:
  assumes "wf_world w" "i < length (the (clients w))"
  obtains "get_slot (int i) w = Inr None"
    | c cl pa pl where "get_slot (int i) w = Inr (Some c)" "the (clients w) ! i = Some c" "cheap w c = Some cl"
      "c_player cl = Some pa" "pheap w pa = Some pl" "p_id pl = c_socket_fd cl"
proof -
  obtain cs where cs: "clients w = Some cs" using assms(1) by (auto simp: wf_world_def wf_roster_def)
  then have slot: "get_slot (int i) w = Inr (cs ! i)" using assms(2) by simp
  show thesis
  proof (cases "cs ! i")
    case None
    with slot that(1) show ?thesis by simp
  next
    case (Some c)
    then have "Some c \<in> set cs" using assms(2) cs by (metis nth_mem option.sel)
    then have "c \<in> set (live w)"
      using cs by (auto simp: live_def image_iff intro!: bexI [of _ "Some c"])
    then obtain cl where cl: "cheap w c = Some cl"
      using assms(1) unfolding wf_world_def wf_roster_def by blast
    then have "client_ok w cl"
      using assms(1) by (simp add: wf_world_def wf_roster_def)
    with that(2) slot Some cs cl show ?thesis by (auto simp: client_ok_def)
  qed
qed

lemma broadcast_loop_ok:
  assumes "wf_world w" "i + n = length (the (clients w))"
  shows "\<exists>w'. broadcast_loop e text n (int i) w = Inr w' \<and> wf_world w' \<and> keeps w w' \<and> cheap w' = cheap w"
  using assms
proof (induction n arbitrary: i w)
  case 0
  then show ?case by simp
next
  case (Suc n)
  then have i: "i < length (the (clients w))" by simp
  from Suc.prems(1) i show ?case
  proof (cases rule: wf_slot)
    case 1
    then show ?thesis using Suc.IH [OF Suc.prems(1), of "Suc i"] Suc.prems(2) by (simp add: add.commute)
  next
    case (2 c cl pa pl)
    let ?K = "compute_broadcast_direction (pos_x (p_pos pl)) (pos_y (p_pos pl)) (dir_int (p_dir pl))
      (pos_x (p_pos e)) (pos_y (p_pos e)) (map_x w) (map_y w)"
    let ?w1 = "send (p_id pl) (response_json ''message'' (Some (snprintf_d 4 ?K)) text) w"
    obtain w' where w': "broadcast_loop e text n (int (Suc i)) ?w1 = Inr w'" "wf_world w'"
      "keeps ?w1 w'" "cheap w' = cheap ?w1"
      using Suc.IH [of ?w1 "Suc i"] Suc.prems by auto
    have "broadcast_loop e text (Suc n) (int i) w = Inr w'"
      using 2 w'(1)
      by (simp add: get_client_def deref_Some get_player_eq server_create_response_to_command_def add.commute)
    with w' keeps_trans [OF keeps_send w'(3)] show ?thesis by auto
  qed
qed

lemma broadcast_ok [cmd_ok]:
  assumes wf: "wf_world w" and pl: "pheap w a = Some pl"
  shows "good w (m_command_broadcast (Some a) arg w)"
proof -
  have "nat (client_count w) = length (the (clients w))"
    using wf by (auto simp: wf_world_def wf_roster_def)
  then obtain w' where "broadcast_loop pl arg (nat (client_count w)) 0 w = Inr w'" "wf_world w'"
    "keeps w w'" "cheap w' = cheap w"
    using broadcast_loop_ok [OF wf, of 0 "nat (client_count w)" pl arg] by auto
  with pl show ?thesis
    by (simp add: m_command_broadcast_def get_player_eq good_reply)
qed

section \<open>Moving\<close>

lemma moved_member:
  "a \<in> set (moved occ a i j j)"
  "b \<noteq> a \<Longrightarrow> b \<in> set (moved occ a i j k) \<longleftrightarrow> b \<in> set (occ k)"
  by (auto simp: moved_def Let_def in_set_remove1 split: if_splits)

lemma wf_move:
  assumes wf: "wf_world w" and pl: "pheap w a = Some pl" and q: "in_map w q"
    and occ: "tile_rep occ w" "placed occ w"
  shows "\<exists>w'. m_game_move_player (Some a) (pos_x q) (pos_y q) w = Inr w' \<and> wf_world w' \<and>
    keeps w w' \<and> cheap w' = cheap w \<and> out w' = out w \<and>
    relinked ((pheap w)(a \<mapsto> pl\<lparr>p_pos := q\<rparr>)) w w' \<and>
    tile_rep (moved occ a (tile_no w (p_pos pl)) (tile_no w q)) w' \<and>
    placed (moved occ a (tile_no w (p_pos pl)) (tile_no w q)) w'"
proof -
  let ?i = "tile_no w (p_pos pl)" and ?j = "tile_no w q"
  note pos = wf_player_pos [OF wf pl]
  have q_eq: "\<lparr>pos_x = pos_x q, pos_y = pos_y q\<rparr> = q" by simp
  have on: "a \<in> set (occ ?i)" using occ(2) pl by (auto simp: placed_def)
  obtain w' where w': "m_game_move_player (Some a) (pos_x q) (pos_y q) w = Inr w'"
    "relinked ((pheap w)(a \<mapsto> pl\<lparr>p_pos := q\<rparr>)) w w'" "tile_rep (moved occ a ?i ?j) w'"
    using move_rep [OF pos(1) occ(1) pl pos(2) on, of "pos_x q" "pos_y q"] q unfolding q_eq by blast
  obtain h ts where e: "w' = w\<lparr>pheap := h, tiles := ts\<rparr>"
    and cores: "same_cores ((pheap w)(a \<mapsto> pl\<lparr>p_pos := q\<rparr>)) h"
    and tc: "map tile_core ts = map tile_core (tiles w)"
    using w'(2) by (rule relinkedE) blast
  have orig: "\<exists>r0. ((pheap w)(a \<mapsto> pl\<lparr>p_pos := q\<rparr>)) b = Some r0 \<and> core r = core r0" if "h b = Some r" for b r
    using that cores unfolding same_cores_def
    by (metis (no_types, lifting) map_option_eq_Some)
  have same_id: "map_option ident (h b) = map_option ident (pheap w b)" for b
  proof (cases "h b")
    case None
    then have "((pheap w)(a \<mapsto> pl\<lparr>p_pos := q\<rparr>)) b = None"
      using cores unfolding same_cores_def by (metis option.map_disc_iff)
    with None show ?thesis by (simp split: if_splits)
  next
    case (Some r)
    with orig obtain r0 where "((pheap w)(a \<mapsto> pl\<lparr>p_pos := q\<rparr>)) b = Some r0" "core r = core r0" by blast
    with Some coreD(1,2) [of r r0] pl show ?thesis by (auto simp: ident_def split: if_splits)
  qed
  have k: "keeps w w'"
    using keeps_touch [where w = w and h = h and ts = ts and os = "out w", OF same_id] e by simp
  have same: "in_map w' = in_map w" "tile_no w' = tile_no w"
    using relinked_in_map [OF w'(2)] by simp_all
  have placed': "placed (moved occ a ?i ?j) w'"
    unfolding placed_def same
  proof (intro allI impI)
    fix b r
    assume "pheap w' b = Some r"
    then obtain r0 where r0: "((pheap w)(a \<mapsto> pl\<lparr>p_pos := q\<rparr>)) b = Some r0" "core r = core r0"
      using orig e by auto
    have "p_pos r = p_pos r0" using coreD(4) [OF r0(2)] .
    show "in_map w (p_pos r) \<and> b \<in> set (moved occ a ?i ?j (tile_no w (p_pos r)))"
    proof (cases "b = a")
      case True
      with r0(1) have "p_pos r0 = q" by auto
      with True \<open>p_pos r = p_pos r0\<close> q show ?thesis by (simp add: moved_member)
    next
      case False
      with r0 occ(2) have "in_map w (p_pos r0)" "b \<in> set (occ (tile_no w (p_pos r0)))"
        by (auto simp: placed_def)
      with False \<open>p_pos r = p_pos r0\<close> show ?thesis by (simp add: moved_member)
    qed
  qed
  have "wf_world w'"
  proof (rule wf_worldI [OF k wf])
    show "wf_map w'"
      using relinked_geometry [OF w'(2)] pos(1) w'(3) placed' by (auto simp: wf_map_def)
    have "items_nonneg (t_items T)" if "T \<in> set ts" for T
    proof -
      obtain n where n: "n < length ts" "ts ! n = T" using \<open>T \<in> set ts\<close> by (auto simp: in_set_conv_nth)
      then have "t_items T = t_items (tiles w ! n)" "n < length (tiles w)"
        using tile_coreD(1,3) [OF tc] by auto
      then show ?thesis using wf_values_tile [OF wf nth_mem] by simp
    qed
    moreover have "player_values r" if hb: "h b = Some r" for b r
    proof -
      obtain r0 where r0: "((pheap w)(a \<mapsto> pl\<lparr>p_pos := q\<rparr>)) b = Some r0" "core r = core r0"
        using orig [OF hb] by blast
      have "p_level r = p_level r0" "p_inv r = p_inv r0" using coreD(3,6) [OF r0(2)] .
      with r0(1) pl wf_values_player [OF wf] show ?thesis
        by (cases "b = a") (auto simp: player_values_def)
    qed
    ultimately show "wf_values w'" using e by (simp add: wf_values_def)
    show "wf_buffers w'" using wf e by (simp add: wf_world_def wf_buffers_def)
  qed
  with w' k e placed' show ?thesis by auto
qed

lemma wf_occ:
  assumes "wf_world w"
  obtains occ where "tile_rep occ w" "placed occ w"
  using assms by (auto simp: wf_world_def wf_map_def)

lemma wf_move_ok:
  assumes "wf_world w" "pheap w a = Some pl" "in_map w q"
  shows "\<exists>w'. m_game_move_player (Some a) (pos_x q) (pos_y q) w = Inr w' \<and> wf_world w' \<and>
    keeps w w' \<and> cheap w' = cheap w"
  using wf_occ [OF assms(1)] wf_move [OF assms] by metis

lemma avance_ok [cmd_ok]:
  assumes wf: "wf_world w" and pl: "pheap w a = Some pl"
  shows "good w (m_command_avance (Some a) arg w)"
proof -
  note pos = wf_player_pos [OF wf pl]
  obtain w' where "m_game_move_player (Some a) (pos_x (front_pos w pl)) (pos_y (front_pos w pl)) w = Inr w'"
    "wf_world w'" "keeps w w'" "cheap w' = cheap w"
    using wf_move_ok [OF wf pl front_pos_in_map [OF pos(1,2)]] by blast
  with pl pos show ?thesis
    by (simp add: m_command_avance_def get_player_eq next_pos_eq good_reply)
qed

section \<open>Counting and raising levels on a tile\<close>

lemma count_level_dseg:
  "dseg (pheap w) q p xs None \<Longrightarrow> length xs \<le> fuel \<Longrightarrow>
   count_level fuel lvl p w
     = Inr (int (length (filter (\<lambda>a. map_option p_level (pheap w a) = Some lvl) xs)))"
proof (induction xs arbitrary: q p fuel)
  case Nil
  then show ?case by (subst count_level.simps) simp
next
  case (Cons a xs)
  then obtain n pl where n: "fuel = Suc n" "p = Some a" "pheap w a = Some pl"
    "dseg (pheap w) (Some a) (next_on_tile pl) xs None" "length xs \<le> n"
    by (cases fuel) auto
  with Cons.IH [OF n(4,5)] show ?case
    by (subst count_level.simps) (simp add: get_player_eq)
qed

lemma print_players_dseg:
  "dseg (pheap w) q p xs None \<Longrightarrow> length xs \<le> fuel \<Longrightarrow> \<exists>ls. print_players fuel p w = Inr ls"
proof (induction xs arbitrary: q p fuel)
  case Nil
  then show ?case by (subst print_players.simps) simp
next
  case (Cons a xs)
  then obtain n pl where n: "fuel = Suc n" "p = Some a" "pheap w a = Some pl"
    "dseg (pheap w) (Some a) (next_on_tile pl) xs None" "length xs \<le> n"
    by (cases fuel) auto
  with Cons.IH [OF n(4,5)] show ?case
    by (subst print_players.simps) (auto simp: get_player_eq)
qed

definition raise :: "int \<Rightarrow> player \<Rightarrow> player" where
  "raise lvl pl = (if p_level pl = lvl then pl\<lparr>p_level := lvl + 1\<rparr> else pl)"

definition raised :: "int \<Rightarrow> nat list \<Rightarrow> (nat \<rightharpoonup> player) \<Rightarrow> nat \<rightharpoonup> player" where
  "raised lvl xs h = (\<lambda>a. if a \<in> set xs then map_option (raise lvl) (h a) else h a)"

definition congratulations :: "int \<Rightarrow> nat list \<Rightarrow> (nat \<rightharpoonup> player) \<Rightarrow> (int \<times> json) list" where
  "congratulations lvl xs h =
     concat (map (\<lambda>a. case h a of None \<Rightarrow> [] | Some pl \<Rightarrow>
       if p_level pl = lvl
       then [(p_id pl, response_json ''incantation'' None (Some ''Level up!''))] else []) xs)"

lemma level_up_dseg:
  "dseg (pheap w) q p xs None \<Longrightarrow> length xs \<le> fuel \<Longrightarrow> distinct xs \<Longrightarrow>
   level_up_loop fuel lvl p w
     = Inr (w\<lparr>pheap := raised lvl xs (pheap w), out := out w @ congratulations lvl xs (pheap w)\<rparr>)"
proof (induction xs arbitrary: q p fuel w)
  case Nil
  then show ?case by (subst level_up_loop.simps) (simp add: raised_def congratulations_def)
next
  case (Cons a xs)
  then obtain n pl where n: "fuel = Suc n" "p = Some a" "pheap w a = Some pl"
    "dseg (pheap w) (Some a) (next_on_tile pl) xs None" "length xs \<le> n" "distinct xs" "a \<notin> set xs"
    by (cases fuel) auto
  show ?case
  proof (cases "p_level pl = lvl")
    case False
    have "raised lvl (a # xs) (pheap w) = raised lvl xs (pheap w)"
      using False n(3) by (auto simp: raised_def raise_def fun_eq_iff)
    then show ?thesis
      using Cons.IH [OF n(4,5,6)] n(1-3) False
      by (subst level_up_loop.simps) (simp add: get_player_eq congratulations_def)
  next
    case True
    let ?j = "response_json ''incantation'' None (Some ''Level up!'')"
    let ?w1 = "w\<lparr>pheap := (pheap w)(a \<mapsto> pl\<lparr>p_level := p_level pl + 1\<rparr>)\<rparr>"
    let ?w2 = "send (p_id pl) ?j ?w1"
    have seg: "dseg (pheap ?w2) (Some a) (next_on_tile pl) xs None"
      using dseg_update_other [OF n(4,7)] by simp
    have other: "raised lvl xs (pheap ?w2) = raised lvl (a # xs) (pheap w)"
      using n(3,7) True by (auto simp: raised_def raise_def fun_eq_iff)
    have more: "congratulations lvl xs (pheap ?w2) = congratulations lvl xs (pheap w)"
      using n(7) unfolding congratulations_def
      by (intro arg_cong [where f = concat] map_cong) (auto simp: send_def)
    have "level_up_loop n lvl (next_on_tile pl) ?w2
        = Inr (?w2\<lparr>pheap := raised lvl (a # xs) (pheap w),
              out := out ?w2 @ congratulations lvl xs (pheap w)\<rparr>)"
      using Cons.IH [OF seg n(5,6)] unfolding other more .
    then show ?thesis
      using n(1-3) True
      by (subst level_up_loop.simps)
        (simp add: get_player_eq upd_player_eq server_create_response_to_command_def
          congratulations_def send_def)
  qed
qed

section \<open>The roster\<close>

lemma live_alloc: "wf_world w \<Longrightarrow> c \<in> set (live w) \<longleftrightarrow> (\<exists>cl. cheap w c = Some cl)"
  unfolding wf_world_def wf_roster_def by blast

lemma live_slot: "clients w = Some cs \<Longrightarrow> c \<in> set (live w) \<longleftrightarrow> Some c \<in> set cs"
  by (force simp: live_def image_iff)

lemma roster_clients:
  assumes "wf_world w"
  obtains cs where "clients w = Some cs" "int (length cs) = client_count w" "0 \<le> client_count w"
    "\<And>c. Some c \<in> set cs \<longleftrightarrow> (\<exists>cl. cheap w c = Some cl)"
proof -
  obtain cs where cs: "clients w = Some cs" "int (length cs) = client_count w"
    using assms by (auto simp: wf_world_def wf_roster_def)
  then show thesis
    using that [of cs] live_alloc [OF assms] live_slot [OF cs(1)] by fastforce
qed

lemma owner_of_player:
  assumes "wf_world w" "pheap w a = Some pl"
  obtains c cl where "cheap w c = Some cl" "c_player cl = Some a" "c_socket_fd cl = p_id pl"
proof -
  obtain c cl where c: "cheap w c = Some cl" "c_player cl = Some a"
    using assms unfolding wf_world_def wf_roster_def by (metis option.distinct(1))
  then have "client_ok w cl"
    using assms(1) by (simp add: wf_world_def wf_roster_def)
  with c assms(2) that show thesis by (simp add: client_ok_def)
qed

lemma unique_client:
  assumes "wf_world w" "cheap w c = Some cl" "cheap w c' = Some cl'"
    "c_player cl = c_player cl' \<or> c_socket_fd cl = c_socket_fd cl'"
  shows "c = c'"
  using assms unfolding wf_world_def wf_roster_def by blast

text \<open>The client with a descriptor is found.\<close>

lemma find_own_client:
  assumes wf: "wf_world w" and cl: "cheap w c = Some cl"
  shows "m_game_get_client_from_fd (c_socket_fd cl) w = Inr (SUCCESS, Some c)"
proof -
  obtain cs where cs: "clients w = Some cs" "int (length cs) = client_count w"
    "\<And>c. Some c \<in> set cs \<longleftrightarrow> (\<exists>cl. cheap w c = Some cl)"
    using wf by (rule roster_clients) blast
  let ?P = "\<lambda>x. fd_of w x = Some (c_socket_fd cl)"
  have here: "Some c \<in> set cs" "?P (Some c)"
    using cl cs(3) by (auto simp: fd_of_def)
  have only: "x = Some c" if x: "x \<in> set cs" "?P x" for x
  proof -
    obtain c' cl' where "x = Some c'" "cheap w c' = Some cl'" "c_socket_fd cl' = c_socket_fd cl"
      using x by (auto simp: fd_of_def split: option.splits)
    with unique_client [OF wf cl] show ?thesis by metis
  qed
  have "find ?P cs = Some (Some c)"
  proof (cases "find ?P cs")
    case None
    with here show ?thesis by (auto simp: find_None_iff)
  next
    case (Some x)
    then have "x \<in> set cs" "?P x" by (auto simp: find_Some_iff)
    with Some only show ?thesis by simp
  qed
  moreover have "nat (client_count w) = length cs" using cs(2) by simp
  ultimately show ?thesis
    using find_client_spec [OF cs(1), of 0 "length cs" "c_socket_fd cl"] cs(1,3)
    by (simp add: m_game_get_client_from_fd_def)
qed

lemma no_client_found:
  assumes wf: "wf_world w" and none: "\<And>c cl. cheap w c = Some cl \<Longrightarrow> c_socket_fd cl \<noteq> fd"
  shows "m_game_get_client_from_fd fd w = Inr (ERROR, None)"
proof -
  obtain cs where cs: "clients w = Some cs" "int (length cs) = client_count w"
    "\<And>c. Some c \<in> set cs \<longleftrightarrow> (\<exists>cl. cheap w c = Some cl)"
    using wf by (rule roster_clients) blast
  have "find (\<lambda>x. fd_of w x = Some fd) cs = None"
    using none by (auto simp: find_None_iff fd_of_def split: option.splits)
  moreover have "nat (client_count w) = length cs" using cs(2) by simp
  ultimately show ?thesis
    using find_client_spec [OF cs(1), of 0 "length cs" fd] cs(1,3)
    by (simp add: m_game_get_client_from_fd_def)
qed

text \<open>There are at most as many players as client slots.\<close>

lemma players_bound:
  assumes wf: "wf_world w"
  shows "finite (dom (pheap w))" "card (dom (pheap w)) = length (live w)"
    "length (live w) \<le> nat (client_count w)"
proof -
  obtain cs where cs: "clients w = Some cs" "int (length cs) = client_count w"
    using wf by (rule roster_clients) blast
  let ?f = "\<lambda>c. the (c_player (the (cheap w c)))"
  have "?f ` set (live w) = dom (pheap w)"
  proof
    show "?f ` set (live w) \<subseteq> dom (pheap w)"
    proof (rule image_subsetI)
      fix c
      assume "c \<in> set (live w)"
      then obtain cl where cl: "cheap w c = Some cl" using live_alloc [OF wf] by blast
      then have "client_ok w cl" using wf by (simp add: wf_world_def wf_roster_def)
      with cl show "?f c \<in> dom (pheap w)" by (auto simp: client_ok_def)
    qed
    show "dom (pheap w) \<subseteq> ?f ` set (live w)"
    proof
      fix a
      assume "a \<in> dom (pheap w)"
      then obtain pl where "pheap w a = Some pl" by blast
      with wf obtain c cl where "cheap w c = Some cl" "c_player cl = Some a"
        using owner_of_player by metis
      then show "a \<in> ?f ` set (live w)"
        using live_alloc [OF wf] by (intro image_eqI [of _ _ c]) auto
    qed
  qed
  moreover have "inj_on ?f (set (live w))"
  proof (rule inj_onI)
    fix c c'
    assume "c \<in> set (live w)" "c' \<in> set (live w)" and eq: "?f c = ?f c'"
    then obtain cl cl' where "cheap w c = Some cl" "cheap w c' = Some cl'"
      using live_alloc [OF wf] by blast
    moreover from this have "client_ok w cl" "client_ok w cl'"
      using wf by (simp_all add: wf_world_def wf_roster_def)
    ultimately show "c = c'"
      using eq unique_client [OF wf] by (auto simp: client_ok_def)
  qed
  moreover have "card (set (live w)) = length (live w)"
    using wf by (intro distinct_card) (simp add: wf_world_def wf_roster_def)
  ultimately show "finite (dom (pheap w))" "card (dom (pheap w)) = length (live w)"
    by (metis finite_imageI finite_set, metis card_image)
  show "length (live w) \<le> nat (client_count w)"
    unfolding cs(2) [symmetric] using length_filter_le [of "\<lambda>c. c \<noteq> None" cs] cs(1)
    by (simp add: live_def)
qed

lemma occ_length:
  assumes "wf_world w" "tile_rep occ w" "i < length (tiles w)"
  shows "length (occ i) \<le> nat (client_count w)"
proof -
  have "set (occ i) \<subseteq> dom (pheap w)"
    using tile_repD(3) [OF assms(2,3)] by blast
  then have "card (set (occ i)) \<le> card (dom (pheap w))"
    using players_bound(1) [OF assms(1)] by (intro card_mono)
  then show ?thesis
    using players_bound(2,3) [OF assms(1)] distinct_card [OF tile_repD(2) [OF assms(2,3)]] by simp
qed

section \<open>The incantation\<close>

text \<open>Who counts on a tile, in the tile's order.\<close>

definition same_level :: "(nat \<rightharpoonup> player) \<Rightarrow> int \<Rightarrow> nat list \<Rightarrow> nat list" where
  "same_level h lvl xs = filter (\<lambda>a. map_option p_level (h a) = Some lvl) xs"

lemma level_reqs_nth: "1 \<le> l \<Longrightarrow> l < 7 \<Longrightarrow> arr_get level_reqs l = Inr (level_reqs ! nat l)"
  by (simp add: level_reqs_def)

lemma can_incantation_eq:
  assumes wf: "wf_world w" and pl: "pheap w a = Some pl" and fuel: "nat (client_count w) \<le> fuel"
    and occ: "tile_rep occ w"
  shows "m_game_check_can_incantation fuel (Some a) check w = Inr (
    if p_level pl \<ge> 7 then ERROR
    else if check \<and> \<not> items_suffice (t_items (tiles w ! tile_no w (p_pos pl))) (lr_inv (level_reqs ! nat (p_level pl)))
    then ERROR
    else if int (length (same_level (pheap w) (p_level pl) (occ (tile_no w (p_pos pl)))))
              < player_number (level_reqs ! nat (p_level pl))
    then ERROR else SUCCESS)"
proof (cases "p_level pl \<ge> 7")
  case True
  then show ?thesis using pl by (simp add: m_game_check_can_incantation_def get_player_eq)
next
  case False
  note pos = wf_player_pos [OF wf pl]
  have lvl: "1 \<le> p_level pl" using wf_values_player [OF wf pl] by (simp add: player_values_def)
  have "count_level fuel (p_level pl) (t_players (tiles w ! tile_no w (p_pos pl))) w
      = Inr (int (length (same_level (pheap w) (p_level pl) (occ (tile_no w (p_pos pl))))))"
    using count_level_dseg [OF tile_repD(1) [OF occ pos(3)]] occ_length [OF wf occ pos(3)] fuel
    by (simp add: same_level_def)
  with False lvl pl pos show ?thesis
    by (simp add: m_game_check_can_incantation_def get_player_eq level_reqs_nth get_tile_eq)
qed

lemma raised_ident: "map_option ident (raised lvl xs h a) = map_option ident (h a)"
  by (cases "h a") (auto simp: raised_def raise_def ident_def)

lemma raised_place: "map_option place (raised lvl xs h a) = map_option place (h a)"
  by (cases "h a") (auto simp: raised_def raise_def place_def links_def)

lemma real_incantation_run:
  assumes wf: "wf_world w" and pl: "pheap w a = Some pl" and fuel: "nat (client_count w) \<le> fuel"
    and occ: "tile_rep occ w"
  shows "m_command_real_incantation fuel (Some a) (Some s) w = Inr (SUCCESS,
    if p_level pl = atoi s \<and> p_level pl < 7 \<and> player_number (level_reqs ! nat (p_level pl))
         \<le> int (length (same_level (pheap w) (p_level pl) (occ (tile_no w (p_pos pl)))))
    then send (p_id pl) (response_json ''incantation'' None (Some ''ok''))
      (w\<lparr>pheap := raised (p_level pl) (occ (tile_no w (p_pos pl))) (pheap w),
         out := out w @ congratulations (p_level pl) (occ (tile_no w (p_pos pl))) (pheap w)\<rparr>)
    else send (p_id pl) (response_json ''incantation'' None (Some ''ko'')) w)"
proof -
  note can = can_incantation_eq [OF wf pl fuel occ, of False]
  note pos = wf_player_pos [OF wf pl]
  let ?i = "tile_no w (p_pos pl)"
  show ?thesis
  proof (cases "p_level pl = atoi s \<and> m_game_check_can_incantation fuel (Some a) False w = Inr SUCCESS")
    case False
    with can pl show ?thesis
      by (auto simp: m_command_real_incantation_def get_player_eq server_create_response_to_command_def
          split: if_splits)
  next
    case True
    then have lvl: "p_level pl < 7" using can by (auto split: if_splits)
    have loop: "level_up_loop fuel (p_level pl) (t_players (tiles w ! ?i)) w
      = Inr (w\<lparr>pheap := raised (p_level pl) (occ ?i) (pheap w),
          out := out w @ congratulations (p_level pl) (occ ?i) (pheap w)\<rparr>)"
      using level_up_dseg [OF tile_repD(1) [OF occ pos(3)]] occ_length [OF wf occ pos(3)] fuel
        tile_repD(2) [OF occ pos(3)]
      by simp
    from True can pl pos loop lvl show ?thesis
      by (simp add: m_command_real_incantation_def get_player_eq get_tile_eq
          server_create_response_to_command_def split: if_splits)
  qed
qed

lemma wf_raised:
  assumes wf: "wf_world w" and lvl: "lvl < 7"
  shows "wf_world (w\<lparr>pheap := raised lvl xs (pheap w), out := os\<rparr>)"
    "keeps w (w\<lparr>pheap := raised lvl xs (pheap w), out := os\<rparr>)"
proof -
  have vals: "player_values q" if hq: "raised lvl xs (pheap w) b = Some q" for b q
  proof -
    obtain q0 where q0: "pheap w b = Some q0" "q = q0 \<or> (p_level q0 = lvl \<and> q = raise lvl q0)"
      using hq by (auto simp: raised_def raise_def split: if_splits)
    with wf_values_player [OF wf q0(1)] lvl show ?thesis by (auto simp: player_values_def raise_def)
  qed
  have "wf_world (w\<lparr>pheap := raised lvl xs (pheap w), tiles := tiles w, out := os\<rparr>)"
    using vals wf_values_tile [OF wf] by (intro wf_touch [OF wf]) (auto simp: raised_ident raised_place)
  then show "wf_world (w\<lparr>pheap := raised lvl xs (pheap w), out := os\<rparr>)" by simp
  show "keeps w (w\<lparr>pheap := raised lvl xs (pheap w), out := os\<rparr>)"
    using keeps_touch [where w = w and ts = "tiles w" and h = "raised lvl xs (pheap w)"]
    by (simp add: raised_ident)
qed

lemma real_incantation_ok:
  assumes wf: "wf_world w" and pl: "pheap w a = Some pl" and fuel: "nat (client_count w) \<le> fuel"
  shows "good w (m_command_real_incantation fuel (Some a) (Some s) w)"
proof -
  obtain occ where occ: "tile_rep occ w" using wf by (auto simp: wf_world_def wf_map_def)
  let ?w1 = "w\<lparr>pheap := raised (p_level pl) (occ (tile_no w (p_pos pl))) (pheap w),
    out := out w @ congratulations (p_level pl) (occ (tile_no w (p_pos pl))) (pheap w)\<rparr>"
  have "good w (Inr (SUCCESS, send (p_id pl) j ?w1))" if "p_level pl < 7" for j
    using wf_raised [OF wf that] keeps_trans [OF _ keeps_send] by (intro goodI) auto
  moreover have "good w (Inr (SUCCESS, send (p_id pl) j w))" for j
    using wf by (intro goodI) auto
  ultimately show ?thesis unfolding real_incantation_run [OF wf pl fuel occ, of s] by (simp only: split: if_split) blast
qed

text \<open>The first half may also queue the second half on the player's own client.\<close>

definition good_inc :: "world \<Rightarrow> nat \<Rightarrow> (int \<times> world) res \<Rightarrow> bool" where
  "good_inc w a m \<longleftrightarrow> (\<exists>r w'. m = Inr (r, w') \<and> wf_world w' \<and> keeps w w' \<and>
     (cheap w' = cheap w \<or>
      (\<exists>c cl e. cheap w c = Some cl \<and> c_player cl = Some a \<and> length (pending (c_event_buffer cl)) < 10 \<and>
         cheap w' = (cheap w)(c \<mapsto> cl\<lparr>c_event_buffer := push_front e (c_event_buffer cl)\<rparr>))))"

lemma good_good_inc: "good w m \<Longrightarrow> good_inc w a m"
  by (auto simp: good_def good_inc_def)

lemma wf_upd_client:
  assumes wf: "wf_world w" and cl: "cheap w c = Some cl" and cl': "owner cl' = owner cl" "client_buffer cl'"
  shows "wf_world (w\<lparr>cheap := (cheap w)(c \<mapsto> cl')\<rparr>)" "keeps w (w\<lparr>cheap := (cheap w)(c \<mapsto> cl')\<rparr>)"
proof -
  let ?w = "w\<lparr>cheap := (cheap w)(c \<mapsto> cl')\<rparr>"
  have "map_option owner (((cheap w)(c \<mapsto> cl')) b) = map_option owner (cheap w b)" for b
    using cl cl'(1) by simp
  then show k: "keeps w ?w"
    using keepsI [where w = w and h = "pheap w" and ch = "(cheap w)(c \<mapsto> cl')" and ts = "tiles w"
        and os = "out w"] by simp
  show "wf_world ?w"
  proof (rule wf_worldI [OF k wf])
    have "wf_map w" using wf by (simp add: wf_world_def)
    then show "wf_map ?w" by (rule wf_map_cong) simp_all
    show "wf_values ?w" using wf by (simp add: wf_world_def wf_values_def)
    show "wf_buffers ?w" using wf cl'(2) by (simp add: wf_world_def wf_buffers_def)
  qed
qed

lemma items_minus_nonneg: "items_suffice i n \<Longrightarrow> items_nonneg (items_minus i n)"
  by (auto simp: items_suffice_def items_nonneg_def items_minus_def)

lemma wf_buffer_of: "wf_world w \<Longrightarrow> cheap w c = Some cl \<Longrightarrow> client_buffer cl"
  by (simp add: wf_world_def wf_buffers_def)

lemma wf_clock: "wf_world w \<Longrightarrow> \<exists>t. m_time w = Some t"
  by (auto simp: wf_world_def wf_rest_def)

text \<open>The second half of the ritual, as the first half schedules it.\<close>

definition ritual_event :: "world \<Rightarrow> time_api \<Rightarrow> nat \<Rightarrow> player \<Rightarrow> game_event" where
  "ritual_event w t a pl = \<lparr>exec_time = current_time_units t + of_int (m_incantation_time w),
     ev_callback = Some Real_Incantation, ev_data = Some a, ev_arg = Some (snprintf_d 12 (p_level pl))\<rparr>"

definition begun :: "world \<Rightarrow> time_api \<Rightarrow> nat \<Rightarrow> player \<Rightarrow> game_buffer \<Rightarrow> game_buffer" where
  "begun w t a pl b = (if length (pending b) < 10 then push_front (ritual_event w t a pl) b else b)"

lemma schedule_ritual:
  assumes "m_time w = Some t" "wf_buffer b"
  shows "snd (time_api_schedule_client_event_front None (m_time w) b (m_incantation_time w)
    (Some Real_Incantation) (Some a) (Some (snprintf_d 12 (p_level pl)))) = begun w t a pl b"
proof (cases "length (pending b) < 10")
  case True
  then have "eb_count b < 10" using count_less [OF assms(2)] by simp
  with assms(1) True show ?thesis
    by (simp add: schedule_front_eq [where tm = t] pick_api_def begun_def ritual_event_def)
next
  case False
  then have "eb_count b = 10" using length_pending_le [OF assms(2)] length_pending [OF assms(2)] by simp
  then show ?thesis using False by (simp add: schedule_full_eq begun_def)
qed

lemma incantation_run:
  assumes wf: "wf_world w" and pl: "pheap w a = Some pl" and fuel: "nat (client_count w) \<le> fuel"
    and occ: "tile_rep occ w" and cl: "cheap w c = Some cl" "c_player cl = Some a" and t: "m_time w = Some t"
  shows "m_command_incantation fuel (Some a) arg w = Inr (SUCCESS,
    if p_level pl < 7 \<and>
       items_suffice (t_items (tiles w ! tile_no w (p_pos pl))) (lr_inv (level_reqs ! nat (p_level pl))) \<and>
       player_number (level_reqs ! nat (p_level pl))
         \<le> int (length (same_level (pheap w) (p_level pl) (occ (tile_no w (p_pos pl)))))
    then send (p_id pl) (response_json ''incantation'' None (Some ''in_progress''))
      (w\<lparr>tiles := (tiles w)[tile_no w (p_pos pl) := (tiles w ! tile_no w (p_pos pl))\<lparr>t_items :=
           items_minus (t_items (tiles w ! tile_no w (p_pos pl))) (lr_inv (level_reqs ! nat (p_level pl)))\<rparr>],
         cheap := (cheap w)(c \<mapsto> cl\<lparr>c_event_buffer := begun w t a pl (c_event_buffer cl)\<rparr>)\<rparr>)
    else send (p_id pl) (response_json ''incantation'' None (Some ''ko'')) w)"
proof -
  note can = can_incantation_eq [OF wf pl fuel occ, of True]
  note pos = wf_player_pos [OF wf pl]
  let ?i = "tile_no w (p_pos pl)"
  show ?thesis
  proof (cases "m_game_check_can_incantation fuel (Some a) True w = Inr SUCCESS")
    case False
    with can pl show ?thesis
      by (auto simp: m_command_incantation_def get_player_eq server_create_response_to_command_def split: if_splits)
  next
    case True
    then have lvl: "p_level pl < 7"
      and suffice: "items_suffice (t_items (tiles w ! ?i)) (lr_inv (level_reqs ! nat (p_level pl)))"
      using can by (auto split: if_splits)
    have lvl1: "1 \<le> p_level pl" using wf_values_player [OF wf pl] by (simp add: player_values_def)
    let ?T = "(tiles w ! ?i)\<lparr>t_items := items_minus (t_items (tiles w ! ?i)) (lr_inv (level_reqs ! nat (p_level pl)))\<rparr>"
    let ?w1 = "w\<lparr>tiles := (tiles w)[?i := ?T]\<rparr>"
    obtain a' pl' where "c_player cl = Some a'" "pheap w a' = Some pl'" "p_id pl' = c_socket_fd cl"
      using wf cl(1) unfolding wf_world_def wf_roster_def client_ok_def by blast
    then have fd: "c_socket_fd cl = p_id pl" using cl(2) pl by simp
    have found: "m_game_get_client_from_fd (p_id pl) ?w1 = Inr (SUCCESS, Some c)"
    proof -
      have "wf_world ?w1"
        using wf_upd_tile(1) [OF wf pos(3), of ?T] items_minus_nonneg [OF suffice] by (simp add: tile_place_def)
      then show ?thesis using find_own_client [of ?w1 c cl] cl fd by simp
    qed
    have wb: "wf_buffer (c_event_buffer cl)" using wf_buffer_of [OF wf cl(1)] by (simp add: client_buffer_def)
    have ups: "upd_client (Some c) (\<lambda>cl. cl\<lparr>c_event_buffer := b\<rparr>) ?w1
        = Inr (?w1\<lparr>cheap := (cheap w)(c \<mapsto> cl\<lparr>c_event_buffer := b\<rparr>)\<rparr>)" for b
      using cl(1) by (simp add: upd_client_def update_ref_Some)
    have get: "get_client (Some c) ?w1 = Inr cl" using cl(1) by (simp add: get_client_def deref_Some)
    from True can pl lvl lvl1 found get ups schedule_ritual [OF t wb] pos(3,4) show ?thesis
      by (simp add: m_command_incantation_def get_player_eq level_reqs_nth upd_tile_head
          case_prod_unfold Let_def server_create_response_to_command_def split: if_splits)
  qed
qed

lemma incantation_ok:
  assumes wf: "wf_world w" and pl: "pheap w a = Some pl" and fuel: "nat (client_count w) \<le> fuel"
  shows "good_inc w a (m_command_incantation fuel (Some a) arg w)"
proof -
  obtain occ where occ: "tile_rep occ w" using wf by (auto simp: wf_world_def wf_map_def)
  obtain c cl where cl: "cheap w c = Some cl" "c_player cl = Some a" using wf pl by (rule owner_of_player)
  obtain t where t: "m_time w = Some t" using wf_clock [OF wf] by blast
  note run = incantation_run [OF wf pl fuel occ cl t, of arg]
  note pos = wf_player_pos [OF wf pl]
  let ?i = "tile_no w (p_pos pl)" and ?need = "lr_inv (level_reqs ! nat (p_level pl))"
  let ?T = "(tiles w ! ?i)\<lparr>t_items := items_minus (t_items (tiles w ! ?i)) ?need\<rparr>"
  let ?w1 = "w\<lparr>tiles := (tiles w)[?i := ?T]\<rparr>"
  let ?cl = "cl\<lparr>c_event_buffer := begun w t a pl (c_event_buffer cl)\<rparr>"
  let ?w2 = "?w1\<lparr>cheap := (cheap w)(c \<mapsto> ?cl)\<rparr>"
  have ko: "good_inc w a (Inr (SUCCESS, send (p_id pl) j w))" for j
    using wf by (intro good_good_inc goodI) auto
  have ok: "good_inc w a (Inr (SUCCESS, send (p_id pl) j ?w2))" if suffice: "items_suffice (t_items (tiles w ! ?i)) ?need" for j
  proof -
    have w1: "wf_world ?w1" "keeps w ?w1"
      using wf_upd_tile [OF wf pos(3), of ?T] items_minus_nonneg [OF suffice] by (simp_all add: tile_place_def)
    have buf: "wf_buffer (c_event_buffer cl)" "\<forall>e \<in> set (pending (c_event_buffer cl)). client_event (Some a) e"
      using wf_buffer_of [OF wf cl(1)] cl(2) by (simp_all add: client_buffer_def)
    then have "client_buffer ?cl"
      using cl(2) by (auto simp: client_buffer_def wf_push_front pending_push_front client_event_def begun_def ritual_event_def)
    then have w2: "wf_world ?w2" "keeps ?w1 ?w2"
      using wf_upd_client [OF w1(1), of c cl ?cl] cl by (simp_all add: owner_def)
    have "wf_world (send (p_id pl) j ?w2)" "keeps w (send (p_id pl) j ?w2)"
      using w1(2) w2 keeps_trans keeps_send wf_send by blast+
    moreover have "cheap (send (p_id pl) j ?w2) = cheap w \<or>
      (\<exists>c cl e. cheap w c = Some cl \<and> c_player cl = Some a \<and> length (pending (c_event_buffer cl)) < 10 \<and>
         cheap (send (p_id pl) j ?w2) = (cheap w)(c \<mapsto> cl\<lparr>c_event_buffer := push_front e (c_event_buffer cl)\<rparr>))"
      using cl by (cases "length (pending (c_event_buffer cl)) < 10")
        (simp_all add: fun_upd_idem begun_def, blast)
    ultimately show ?thesis unfolding good_inc_def by blast
  qed
  show ?thesis unfolding run using ko ok by simp
qed

section \<open>Expulsion\<close>

lemma placed_member:
  "placed occ w \<Longrightarrow> pheap w a = Some pl \<Longrightarrow> a \<in> set (occ (tile_no w (p_pos pl)))"
  by (simp add: placed_def)

lemma next_alloc:
  assumes "wf_world w" "pheap w a = Some pl" "next_on_tile pl = Some b"
  shows "\<exists>q. pheap w b = Some q"
proof -
  obtain occ where occ: "tile_rep occ w" "placed occ w" using assms(1) by (rule wf_occ)
  let ?i = "tile_no w (p_pos pl)"
  obtain us vs where "occ ?i = us @ a # vs"
    using split_list [OF placed_member [OF occ(2) assms(2)]] by blast
  then have "dseg (pheap w) None (t_players (tiles w ! ?i)) (us @ a # vs) None"
    using tile_repD(1) [OF occ(1) wf_player_pos(3) [OF assms(1,2)]] by simp
  then obtain pl' where "pheap w a = Some pl'" "dseg (pheap w) (Some a) (next_on_tile pl') vs None"
    by (rule dseg_member)
  with assms(2,3) show ?thesis by (cases vs) auto
qed

definition fine :: "world \<Rightarrow> (int \<times> world) res \<Rightarrow> bool" where
  "fine w m \<longleftrightarrow> m = Inl Out_Of_Fuel \<or> good w m"

lemma expulse_loop_ok:
  assumes "wf_world w" "in_map w q" "\<And>a. it = Some a \<Longrightarrow> \<exists>pl. pheap w a = Some pl"
  shows "expulse_loop fuel p (pos_x q) (pos_y q) it w = Inl Out_Of_Fuel \<or>
    (\<exists>w'. expulse_loop fuel p (pos_x q) (pos_y q) it w = Inr w' \<and> wf_world w' \<and> keeps w w' \<and> cheap w' = cheap w)"
  using assms
proof (induction fuel arbitrary: it w)
  case 0
  then show ?case by (subst (1 2) expulse_loop.simps) simp
next
  case (Suc n)
  show ?case
  proof (cases it)
    case None
    with Suc.prems show ?thesis by (subst (1 2) expulse_loop.simps) simp
  next
    case (Some a)
    then obtain pl where pl: "pheap w a = Some pl" using Suc.prems(3) by blast
    show ?thesis
    proof (cases "p_id pl = p_id p")
      case True
      have "\<And>b. next_on_tile pl = Some b \<Longrightarrow> \<exists>q. pheap w b = Some q"
        using next_alloc [OF Suc.prems(1) pl] .
      from Suc.IH [OF Suc.prems(1,2) this] Some pl True show ?thesis
        by (subst (1 2) expulse_loop.simps) (simp add: get_player_eq)
    next
      case False
      let ?j = "response_json ''deplacement'' None
        (Some (direction_table ! dir_no (p_dir p) ! dir_no (p_dir p)))"
      obtain w1 where w1: "m_game_move_player (Some a) (pos_x q) (pos_y q) w = Inr w1"
        "wf_world w1" "keeps w w1" "cheap w1 = cheap w"
        using wf_move_ok [OF Suc.prems(1) pl Suc.prems(2)] by blast
      let ?w2 = "send (p_id pl) ?j w1"
      obtain q2 where q2: "pheap ?w2 a = Some q2"
        using keeps_player [OF w1(3) pl] by auto
      have w2: "wf_world ?w2" using w1(2) by simp
      have map2: "in_map ?w2 q"
        using Suc.prems(2) keeps_fields(1,2) [OF w1(3)] by (simp add: in_map_def)
      have "\<And>b. next_on_tile q2 = Some b \<Longrightarrow> \<exists>q. pheap ?w2 b = Some q"
        using next_alloc [OF w2 q2] .
      with Suc.IH [OF w2 map2, of "next_on_tile q2"] keeps_trans [OF keeps_trans [OF w1(3) keeps_send]] w1(4)
      have "expulse_loop n p (pos_x q) (pos_y q) (next_on_tile q2) ?w2 = Inl Out_Of_Fuel \<or>
        (\<exists>w'. expulse_loop n p (pos_x q) (pos_y q) (next_on_tile q2) ?w2 = Inr w' \<and> wf_world w' \<and>
           keeps w w' \<and> cheap w' = cheap w)"
        by auto
      moreover have "expulse_loop (Suc n) p (pos_x q) (pos_y q) it w
          = expulse_loop n p (pos_x q) (pos_y q) (next_on_tile q2) ?w2"
        using Some pl False w1(1) q2
        by (subst expulse_loop.simps)
          (simp add: get_player_eq server_create_response_to_command_def)
      ultimately show ?thesis by simp
    qed
  qed
qed

lemma expulse_ok:
  assumes wf: "wf_world w" and pl: "pheap w a = Some pl"
  shows "fine w (m_command_expulse fuel (Some a) arg w)"
proof -
  note pos = wf_player_pos [OF wf pl]
  have heads: "\<And>b. t_players (tiles w ! tile_no w (p_pos pl)) = Some b \<Longrightarrow> \<exists>pl. pheap w b = Some pl"
    using tile_head_alloc [OF _ pos(3)] wf by (simp add: wf_world_def)
  show ?thesis
    using expulse_loop_ok [OF wf front_pos_in_map [OF pos(1,2)],
        of "t_players (tiles w ! tile_no w (p_pos pl))" fuel pl] heads wf pl pos
    by (auto simp: m_command_expulse_def get_player_eq get_tile_eq next_pos_eq fine_def good_reply)
qed

end
