(* ===== verification/Turns.thy ===== *)
theory Turns
  imports Commands
begin

text \<open>
  The events of a turn keep the invariant: a client's due event (through
  \<open>time_api_process_client_events\<close>, with the command running in between), the server's own
  respawn event, a death, and the whole of \<open>game_play\<close>.
\<close>

section \<open>Running a command\<close>

definition inc_cheap :: "world \<Rightarrow> nat \<Rightarrow> world \<Rightarrow> bool" where
  "inc_cheap w a w' \<longleftrightarrow> cheap w' = cheap w \<or>
     (\<exists>c cl e. cheap w c = Some cl \<and> c_player cl = Some a \<and> length (pending (c_event_buffer cl)) < 10 \<and>
        cheap w' = (cheap w)(c \<mapsto> cl\<lparr>c_event_buffer := push_front e (c_event_buffer cl)\<rparr>))"

lemma run_command_ok:
  assumes "wf_world w" "pheap w a = Some pl" "nat (client_count w) \<le> fuel" "cmd \<noteq> MAX_COMMANDS"
  shows "run_command fuel cmd (Some a) arg w = Inl Out_Of_Fuel \<or>
    good_inc w a (run_command fuel cmd (Some a) arg w)"
proof (cases cmd)
  case INCANTATION
  then show ?thesis using incantation_ok [OF assms(1-3)] by (simp add: run_command_def)
next
  case EXPULSE
  then show ?thesis
    using expulse_ok [OF assms(1,2), of fuel arg] by (auto simp: run_command_def fine_def intro: good_good_inc)
qed (use assms in \<open>simp_all add: run_command_def cmd_ok good_good_inc\<close>)

lemma run_callback_ok:
  assumes wf: "wf_world w" and pl: "pheap w a = Some pl" and fuel: "nat (client_count w) \<le> fuel"
    and ev: "client_event (Some a) e"
  obtains "run_callback fuel (the (ev_callback e)) (Some a) (ev_arg e) w = Inl Out_Of_Fuel"
    | w' where "run_callback fuel (the (ev_callback e)) (Some a) (ev_arg e) w = Inr w'" "wf_world w'"
        "keeps w w'" "inc_cheap w a w'"
proof -
  from ev obtain cb where cb: "ev_callback e = Some cb" by (auto simp: client_event_def split: option.splits)
  show thesis
  proof (cases cb)
    case (Command cmd)
    then have "cmd \<noteq> MAX_COMMANDS" using ev cb by (simp add: client_event_def)
    from run_command_ok [OF wf pl fuel this, of "ev_arg e"] show thesis
    proof
      assume "run_command fuel cmd (Some a) (ev_arg e) w = Inl Out_Of_Fuel"
      then show thesis using that(1) Command cb by (simp add: run_callback_def)
    next
      assume "good_inc w a (run_command fuel cmd (Some a) (ev_arg e) w)"
      then obtain r w' where w': "run_command fuel cmd (Some a) (ev_arg e) w = Inr (r, w')" "wf_world w'"
        "keeps w w'" "inc_cheap w a w'"
        unfolding good_inc_def inc_cheap_def by blast
      then show thesis using that(2) [of w'] Command cb by (simp add: run_callback_def)
    qed
  next
    case Real_Incantation
    then obtain s where "ev_arg e = Some s" using ev cb by (auto simp: client_event_def)
    moreover obtain r w' where "m_command_real_incantation fuel (Some a) (Some s) w = Inr (r, w')"
      "wf_world w'" "keeps w w'" "cheap w' = cheap w"
      using real_incantation_ok [OF wf pl fuel, of s] unfolding good_def by blast
    ultimately show thesis
      using that(2) [of w'] Real_Incantation cb by (simp add: run_callback_def inc_cheap_def)
  qed (use ev cb in \<open>simp_all add: client_event_def\<close>)
qed

section \<open>A client's event\<close>

lemma pop_client_buffer:
  assumes "client_buffer cl" "pending (c_event_buffer cl) \<noteq> []"
  shows "client_buffer (cl\<lparr>c_event_buffer := pop (c_event_buffer cl)\<rparr>)"
    "client_event (c_player cl) (front (c_event_buffer cl))"
  using assms pending_not_empty [of "c_event_buffer cl"] wf_pop [of "c_event_buffer cl"]
  by (auto simp: client_buffer_def)

lemma push_front_head_differs:
  assumes "wf_buffer b"
  shows "eb_head (push_front e b) \<noteq> eb_head b"
proof -
  have "eb_head (push_front e b) = (eb_head b - 1) mod 10"
    using push_front_head [OF assms] by (simp add: push_front_def Let_def)
  moreover have "(eb_head b - 1) mod 10 \<noteq> eb_head b mod 10"
    by presburger
  moreover have "eb_head b mod 10 = eb_head b" using assms by (simp add: wf_buffer_def)
  ultimately show ?thesis by simp
qed

lemma put_client_buffer_eq:
  "cheap w c = Some cl \<Longrightarrow>
   put_client_buffer (Some c) b w = Inr (w\<lparr>cheap := (cheap w)(c \<mapsto> cl\<lparr>c_event_buffer := b\<rparr>)\<rparr>)"
  by (simp add: put_client_buffer_def upd_client_def update_ref_Some)

lemma get_client_buffer_eq:
  "cheap w c = Some cl \<Longrightarrow> get_client_buffer (Some c) w = Inr (c_event_buffer cl)"
  by (simp add: get_client_buffer_def get_client_def deref_Some)

lemma process_client_ok:
  assumes wf: "wf_world w" and cl: "cheap w c = Some cl" and fuel: "nat (client_count w) \<le> fuel"
  shows "process_client fuel (Some c) w = Inl Out_Of_Fuel \<or>
    (\<exists>w'. process_client fuel (Some c) w = Inr (SUCCESS, w') \<and> wf_world w' \<and> keeps w w')"
proof -
  let ?b = "c_event_buffer cl"
  obtain tm where tm: "m_time w = Some tm" using wf_clock [OF wf] by blast
  have buf: "client_buffer cl" using wf_buffer_of [OF wf cl] .
  then have wb: "wf_buffer ?b" by (simp add: client_buffer_def)
  note get = get_client_buffer_eq [of w c, OF cl]
  show ?thesis
  proof (cases "pending ?b = [] \<or> current_time_units tm < exec_time (front ?b)")
    case True
    then have "process_client fuel (Some c) w = Inr (SUCCESS, w)"
      unfolding process_client_def
      by (rule process_not_due [where get = "get_client_buffer (Some c)" and b = ?b, OF tm get wb])
    with wf show ?thesis by simp
  next
    case False
    then have due: "pending ?b \<noteq> []" "exec_time (front ?b) \<le> current_time_units tm" by auto
    let ?cl1 = "cl\<lparr>c_event_buffer := pop ?b\<rparr>"
    let ?w1 = "w\<lparr>cheap := (cheap w)(c \<mapsto> ?cl1)\<rparr>"
    have w1: "wf_world ?w1" "keeps w ?w1"
      using wf_upd_client [OF wf cl, of ?cl1] pop_client_buffer(1) [OF buf due(1)] by (simp_all add: owner_def)
    have ev: "client_event (c_player cl) (front ?b)" using pop_client_buffer(2) [OF buf due(1)] .
    obtain a pl where a: "c_player cl = Some a" "pheap w a = Some pl"
      using wf cl unfolding wf_world_def wf_roster_def client_ok_def by blast
    then have pl1: "pheap ?w1 a = Some pl" by simp
    have data: "ev_data (front ?b) = Some a" and cb: "ev_callback (front ?b) = Some (the (ev_callback (front ?b)))"
      using ev a by (auto simp: client_event_def split: option.splits)
    have fuel1: "nat (client_count ?w1) \<le> fuel" using fuel by simp
    have ev1: "client_event (Some a) (front ?b)" using ev a by simp
    note run = process_due [where get = "get_client_buffer (Some c)" and b = ?b
        and put = "put_client_buffer (Some c)" and call = "run_callback fuel" and release = "\<lambda>_. Inr", OF tm get wb due]
    show ?thesis
    proof (rule run_callback_ok [OF w1(1) pl1 fuel1 ev1])
      assume "run_callback fuel (the (ev_callback (front ?b))) (Some a) (ev_arg (front ?b)) ?w1 = Inl Out_Of_Fuel"
      then show ?thesis
        unfolding process_client_def run put_client_buffer_eq [of w c, OF cl] data by (subst cb) simp
    next
      fix w2
      assume call: "run_callback fuel (the (ev_callback (front ?b))) (Some a) (ev_arg (front ?b)) ?w1 = Inr w2"
        and w2: "wf_world w2" "keeps ?w1 w2" "inc_cheap ?w1 a w2"
      have k2: "keeps w w2" using keeps_trans [OF w1(2) w2(2)] .
      have eq: "process_client fuel (Some c) w =
        and_then (get_client_buffer (Some c) w2) (\<lambda>b2.
          if eb_head (pop ?b) = eb_head b2 \<and> ev_arg (eb_events b2 ! nat (eb_head ?b)) \<noteq> None then
            and_then (put_client_buffer (Some c) (b2\<lparr>eb_events := (eb_events b2)[nat (eb_head ?b) :=
                 (eb_events b2 ! nat (eb_head ?b))\<lparr>ev_arg := None\<rparr>]\<rparr>) w2)
              (\<lambda>w3. Inr (SUCCESS, w3))
          else Inr (SUCCESS, w2))"
        unfolding process_client_def run put_client_buffer_eq [of w c, OF cl] data
        by (subst cb) (simp add: call cong: if_cong)
      consider "cheap w2 = (cheap w)(c \<mapsto> ?cl1)"
        | e where "cheap w2 = (cheap w)(c \<mapsto> ?cl1\<lparr>c_event_buffer := push_front e (pop ?b)\<rparr>)"
      proof (cases "cheap w2 = cheap ?w1")
        case True
        then show thesis by (intro that(1)) simp
      next
        case False
        then obtain c2 cl2 e where e: "cheap ?w1 c2 = Some cl2" "c_player cl2 = Some a"
          "cheap w2 = (cheap ?w1)(c2 \<mapsto> cl2\<lparr>c_event_buffer := push_front e (c_event_buffer cl2)\<rparr>)"
          using w2(3) unfolding inc_cheap_def by blast
        have "c2 = c"
          using unique_client [OF w1(1) e(1), of c ?cl1] e(2) a(1) by simp
        moreover from this e(1) have "cl2 = ?cl1" by simp
        ultimately show thesis using e(3) by (intro that(2) [of e]) simp
      qed
      then show ?thesis
      proof cases
        case 1
        then have get2: "get_client_buffer (Some c) w2 = Inr (pop ?b)"
          by (simp add: get_client_buffer_eq [of w2 c ?cl1])
        let ?b3 = "(pop ?b)\<lparr>eb_events := (eb_events (pop ?b))[nat (eb_head ?b) :=
                 (eb_events (pop ?b) ! nat (eb_head ?b))\<lparr>ev_arg := None\<rparr>]\<rparr>"
        have "pending ?b3 = pending (pop ?b)" "wf_buffer ?b3"
          using pending_update_front_arg [OF wb due(1)] wf_pop [OF wb due(1)]
          by (simp_all add: pop_def wf_buffer_def)
        then have "client_buffer (?cl1\<lparr>c_event_buffer := ?b3\<rparr>)"
          using pop_client_buffer(1) [OF buf due(1)] by (simp add: client_buffer_def)
        then have "wf_world (w2\<lparr>cheap := (cheap w2)(c \<mapsto> ?cl1\<lparr>c_event_buffer := ?b3\<rparr>)\<rparr>)"
          "keeps w2 (w2\<lparr>cheap := (cheap w2)(c \<mapsto> ?cl1\<lparr>c_event_buffer := ?b3\<rparr>)\<rparr>)"
          using wf_upd_client [OF w2(1), of c ?cl1 "?cl1\<lparr>c_event_buffer := ?b3\<rparr>"] 1
          by (simp_all add: owner_def)
        with keeps_trans [OF k2] w2(1) k2 get2 show ?thesis
          using put_client_buffer_eq [of w2 c ?cl1 ?b3] 1 unfolding eq by auto
      next
        case 2
        then have get2: "get_client_buffer (Some c) w2 = Inr (push_front e (pop ?b))"
          by (simp add: get_client_buffer_eq [of w2 c "?cl1\<lparr>c_event_buffer := push_front e (pop ?b)\<rparr>"])
        have "eb_head (pop ?b) \<noteq> eb_head (push_front e (pop ?b))"
          using push_front_head_differs [OF wf_pop [OF wb due(1)]] by metis
        with w2(1) k2 get2 show ?thesis unfolding eq by simp
      qed
    qed
  qed
qed

section \<open>The server's event\<close>

text \<open>The invariant reads the following fields only.\<close>

lemma wf_world_cong:
  assumes wf: "wf_world w" and sb: "wf_server_buffer w'"
    and eqs: "map_x w' = map_x w" "map_y w' = map_y w" "tiles w' = tiles w" "pheap w' = pheap w"
      "cheap w' = cheap w" "clients w' = clients w" "client_count w' = client_count w"
      "teams w' = teams w" "team_count w' = team_count w" "m_time w' = m_time w"
      "command_delays w' = command_delays w" "next_addr w' = next_addr w"
      "list_heap w' = list_heap w" "m_clients w' = m_clients w" "m_max_fd w' = m_max_fd w"
      "oheap w' = oheap w"
  shows "wf_world w'"
  unfolding wf_world_def
proof (intro conjI)
  have parts: "wf_map w" "wf_roster w" "wf_teams w" "wf_values w" "wf_buffers w" "wf_rest w"
    using wf by (simp_all add: wf_world_def)
  show "wf_map w'" using parts(1) by (rule wf_map_cong) (simp_all add: eqs)
  have "client_ok w' = client_ok w" "live w' = live w" "members w' = members w"
    by (simp_all add: fun_eq_iff client_ok_def live_def members_def eqs)
  then show "wf_roster w'" "wf_teams w'"
    using parts(2,3) unfolding wf_roster_def wf_teams_def eqs by simp_all
  show "wf_values w'" "wf_buffers w'" "wf_rest w'"
    using parts(4-6) unfolding wf_values_def wf_buffers_def wf_rest_def eqs by simp_all
  show "wf_server_buffer w'" by (rule sb)
qed

lemma wf_server_part:
  "wf_world w \<Longrightarrow> wf_server_buffer w"
  "wf_world (w\<lparr>rnd_pos := n\<rparr>) \<Longrightarrow> wf_server_buffer w"
  "wf_world w \<Longrightarrow> wf_server_buffer (w\<lparr>rnd_pos := n\<rparr>)"
  by (simp_all add: wf_world_def wf_server_buffer_def)

lemma wf_rnd [simp]: "wf_world (w\<lparr>rnd_pos := n\<rparr>) = wf_world w"
proof
  assume "wf_world (w\<lparr>rnd_pos := n\<rparr>)"
  then show "wf_world w"
    by (rule wf_world_cong [OF _ wf_server_part(2) [OF \<open>wf_world (w\<lparr>rnd_pos := n\<rparr>)\<close>]]) simp_all
next
  assume "wf_world w"
  show "wf_world (w\<lparr>rnd_pos := n\<rparr>)"
    by (rule wf_world_cong [OF \<open>wf_world w\<close> wf_server_part(3) [OF \<open>wf_world w\<close>]]) simp_all
qed

text \<open>Drawing numbers changes the position in their sequence only.\<close>

definition draws :: "('a \<Rightarrow> bool) \<Rightarrow> world \<Rightarrow> ('a \<times> world) res \<Rightarrow> bool" where
  "draws P w m \<longleftrightarrow> m = Inl Out_Of_Fuel \<or> (\<exists>x n. m = Inr (x, w\<lparr>rnd_pos := n\<rparr>) \<and> P x)"

lemma draws_Inr: "P x \<Longrightarrow> draws P w (Inr (x, w\<lparr>rnd_pos := n\<rparr>))"
  by (auto simp: draws_def)

lemma draws_shift [simp]: "draws P (w\<lparr>rnd_pos := n\<rparr>) m = draws P w m"
  by (simp add: draws_def)

lemma draws_bind:
  assumes "draws P w m" "\<And>x n. P x \<Longrightarrow> draws Q w (f (x, w\<lparr>rnd_pos := n\<rparr>))"
  shows "draws Q w (and_then m f)"
proof (cases "m = Inl Out_Of_Fuel")
  case True
  then show ?thesis by (simp add: draws_def)
next
  case False
  then obtain x n where "m = Inr (x, w\<lparr>rnd_pos := n\<rparr>)" "P x"
    using assms(1) by (auto simp: draws_def)
  with assms(2) show ?thesis by simp
qed

lemma count_loop_draws: "0 \<le> count \<Longrightarrow> draws (\<lambda>c. 0 \<le> c) w (count_loop fuel p0 prd count w)"
proof (induction fuel arbitrary: prd count w)
  case 0
  then show ?case by (simp add: draws_def)
next
  case (Suc k)
  let ?prd = "prd * (of_int (int (rnd w (rnd_pos w))) / RAND_MAX)"
  show ?case
    using Suc.IH [of "count + 1" "w\<lparr>rnd_pos := rnd_pos w + 1\<rparr>" ?prd] Suc.prems
    by (auto simp: rand_def intro: draws_Inr)
qed

lemma random_count_draws: "draws (\<lambda>c. 0 \<le> c) w (m_game_random_resource_count fuel l w)"
  by (simp add: m_game_random_resource_count_def count_loop_draws)

lemma random_count_draws_shift:
  "draws (\<lambda>c. 0 \<le> c) w (m_game_random_resource_count fuel l (w\<lparr>rnd_pos := n\<rparr>))"
  using random_count_draws [of "w\<lparr>rnd_pos := n\<rparr>"] by simp

lemma random_inventory_draws: "draws items_nonneg w (random_inventory fuel ctx w)"
  unfolding random_inventory_def
  by (rule draws_bind [OF random_count_draws], simp only: case_prod_conv,
      (rule draws_bind [OF random_count_draws_shift], simp only: case_prod_conv)+)
    (auto intro!: draws_Inr simp: items_nonneg_def)

lemma items_plus_nonneg: "items_nonneg i \<Longrightarrow> items_nonneg n \<Longrightarrow> items_nonneg (items_plus i n)"
  by (simp add: items_nonneg_def items_plus_def)

text \<open>What respawning keeps: everything but the items, the random numbers and its own state.\<close>

definition respawned :: "world \<Rightarrow> world \<Rightarrow> bool" where
  "respawned w w' \<longleftrightarrow> (\<exists>ts n. w' = w\<lparr>tiles := ts, rnd_pos := n\<rparr>)"

lemma respawnedI: "respawned w (w\<lparr>tiles := ts, rnd_pos := n\<rparr>)"
  unfolding respawned_def by blast

lemma respawned_refl: "respawned w w"
  using respawnedI [where w = w and ts = "tiles w" and n = "rnd_pos w"] by simp

lemma respawned_trans: "respawned w w1 \<Longrightarrow> respawned w1 w2 \<Longrightarrow> respawned w w2"
  unfolding respawned_def by (elim exE) (simp, blast)

lemma respawned_fields:
  assumes "respawned w w'"
  shows "map_x w' = map_x w" "map_y w' = map_y w" "m_ctx w' = m_ctx w" "m_time w' = m_time w"
    "s_event_buffer w' = s_event_buffer w" "cheap w' = cheap w" "pheap w' = pheap w"
    "clients w' = clients w" "client_count w' = client_count w" "teams w' = teams w" "oheap w' = oheap w"
  using assms by (auto simp: respawned_def)

lemma spawn_on_tile_ok:
  assumes wf: "wf_world w" and i: "0 \<le> i"
  shows "spawn_on_tile fuel i w = Inl Out_Of_Fuel \<or>
    (\<exists>w'. spawn_on_tile fuel i w = Inr w' \<and> wf_world w' \<and> respawned w w')"
proof -
  have geo: "geometry w" using wf by (simp add: wf_world_def wf_map_def)
  then have dims: "0 < map_x w" "0 < map_y w" "int (length (tiles w)) = map_x w * map_y w"
    by (simp_all add: geometry_def)
  have idx0: "0 \<le> next_idx (m_ctx w)" using wf by (simp add: wf_world_def wf_server_buffer_def)
  let ?idx = "(next_idx (m_ctx w) + i) mod (map_x w * map_y w)"
  define t where "t = nat ?idx"
  have pos: "0 < map_x w * map_y w" using dims by simp
  have range: "0 \<le> ?idx" "?idx < map_x w * map_y w" using pos by simp_all
  have t: "t < length (tiles w)" and idx: "?idx = int t"
    using range dims(3) unfolding t_def by linarith+
  have MAP: "MAP (int t mod map_x w) (int t div map_x w) w = int t"
    by (simp add: MAP_def)
  have "c_rem (next_idx (m_ctx w) + i) (map_x w * map_y w) = Inr (int t)"
    "c_rem (int t) (map_x w) = Inr (int t mod map_x w)" "c_div (int t) (map_x w) = Inr (int t div map_x w)"
    using idx0 i pos dims by (simp_all add: c_rem_nonneg c_div_nonneg idx)
  then have eq: "spawn_on_tile fuel i w =
      (if inventory_sum (t_items (tiles w ! t)) > 15 then Inr w
       else and_then (random_inventory fuel (m_ctx w) w) (\<lambda>(inv, w1).
         upd_tile (int t) (\<lambda>T. T\<lparr>t_items := items_plus (t_items T) inv\<rparr>) w1))"
    using t by (simp add: spawn_on_tile_def Let_def MAP get_tile_eq)
  show ?thesis
  proof (cases "inventory_sum (t_items (tiles w ! t)) > 15")
    case True
    with eq wf respawned_refl show ?thesis by simp
  next
    case False
    from random_inventory_draws [of w fuel "m_ctx w"] consider
      "random_inventory fuel (m_ctx w) w = Inl Out_Of_Fuel"
      | inv n where "random_inventory fuel (m_ctx w) w = Inr (inv, w\<lparr>rnd_pos := n\<rparr>)" "items_nonneg inv"
      unfolding draws_def by blast
    then show ?thesis
    proof cases
      case 1
      with eq False show ?thesis by simp
    next
      case 2
      let ?w1 = "w\<lparr>rnd_pos := n\<rparr>"
      let ?T = "(tiles w ! t)\<lparr>t_items := items_plus (t_items (tiles w ! t)) inv\<rparr>"
      have "wf_world (?w1\<lparr>tiles := (tiles w)[t := ?T]\<rparr>)"
        using wf_upd_tile(1) [of ?w1 t ?T] wf t 2(2) wf_values_tile [OF wf nth_mem [OF t]]
        by (simp add: tile_place_def items_plus_nonneg)
      moreover have "respawned w (?w1\<lparr>tiles := (tiles w)[t := ?T]\<rparr>)"
      proof -
        have "?w1\<lparr>tiles := (tiles w)[t := ?T]\<rparr> = w\<lparr>tiles := (tiles w)[t := ?T], rnd_pos := n\<rparr>"
          by simp
        then show ?thesis by (simp only: respawnedI)
      qed
      ultimately show ?thesis
        using eq False 2(1) t upd_tile_head [of t ?w1] by simp
    qed
  qed
qed

lemma spawn_loop_ok:
  assumes "wf_world w" "\<And>i. i \<in> set is \<Longrightarrow> 0 \<le> i"
  shows "for_each is (spawn_on_tile fuel) w = Inl Out_Of_Fuel \<or>
    (\<exists>w'. for_each is (spawn_on_tile fuel) w = Inr w' \<and> wf_world w' \<and> respawned w w')"
  using assms
proof (induction "is" arbitrary: w)
  case Nil
  then show ?case by (simp add: respawned_refl)
next
  case (Cons i "is")
  have "0 \<le> i" using Cons.prems(2) by simp
  from spawn_on_tile_ok [OF Cons.prems(1) this, of fuel] show ?case
  proof
    assume "\<exists>w'. spawn_on_tile fuel i w = Inr w' \<and> wf_world w' \<and> respawned w w'"
    then obtain w1 where w1: "spawn_on_tile fuel i w = Inr w1" "wf_world w1" "respawned w w1" by blast
    then show ?thesis
      using Cons.IH [OF w1(2)] Cons.prems(2) respawned_trans [OF w1(3)] by fastforce
  qed simp
qed

lemma wf_server_state:
  assumes "wf_world w" "0 \<le> nx" "wf_buffer b" "\<forall>e \<in> set (pending b). spawn_event e"
  shows "wf_world (w\<lparr>m_ctx := (m_ctx w)\<lparr>next_idx := nx\<rparr>, s_event_buffer := b\<rparr>)"
  using assms(1) by (rule wf_world_cong) (use assms in \<open>simp_all add: wf_server_buffer_def\<close>)

lemma spawn_ok:
  assumes wf: "wf_world w"
  shows "m_game_spawn_resources fuel d None w = Inl Out_Of_Fuel \<or>
    (\<exists>w'. m_game_spawn_resources fuel d None w = Inr (0, w') \<and> wf_world w' \<and>
       cheap w' = cheap w \<and> pheap w' = pheap w \<and> clients w' = clients w \<and> client_count w' = client_count w \<and>
       teams w' = teams w \<and> m_time w' = m_time w \<and> oheap w' = oheap w \<and>
       (s_event_buffer w' = s_event_buffer w \<or>
        (\<exists>e. ev_arg e = None \<and> s_event_buffer w' = push_back e (s_event_buffer w))))"
proof -
  let ?sz = "map_x w * map_y w" and ?k = "spawn_batch (map_x w * map_y w)"
  have dims: "0 < ?sz" using wf by (simp add: wf_world_def wf_map_def geometry_def)
  have "\<And>i. i \<in> set (map int [0..<nat ?k]) \<Longrightarrow> 0 \<le> i" by auto
  from spawn_loop_ok [OF wf this, where fuel = fuel] show ?thesis
  proof
    assume "for_each (map int [0..<nat ?k]) (spawn_on_tile fuel) w = Inl Out_Of_Fuel"
    then show ?thesis by (simp add: m_game_spawn_resources_def Let_def)
  next
    assume "\<exists>w'. for_each (map int [0..<nat ?k]) (spawn_on_tile fuel) w = Inr w' \<and> wf_world w' \<and> respawned w w'"
    then obtain w1 where w1: "for_each (map int [0..<nat ?k]) (spawn_on_tile fuel) w = Inr w1" "wf_world w1"
      "respawned w w1" by blast
    note same = respawned_fields [OF w1(3)]
    have sb: "wf_buffer (s_event_buffer w1)" "\<forall>e \<in> set (pending (s_event_buffer w1)). spawn_event e"
      "0 \<le> next_idx (m_ctx w1)"
      using w1(2) by (simp_all add: wf_world_def wf_server_buffer_def)
    have k: "0 \<le> ?k" by (simp add: spawn_batch_def Let_def)
    let ?nx = "(next_idx (m_ctx w1) + ?k) mod ?sz"
    have nx: "c_rem (next_idx (m_ctx w1) + ?k) ?sz = Inr ?nx" "0 \<le> ?nx"
      using sb(3) k dims by (simp_all add: c_rem_nonneg)
    obtain t where t: "m_time w1 = Some t" using wf_clock [OF w1(2)] by blast
    let ?b = "snd (time_api_schedule_client_event None (m_time w1) (s_event_buffer w1) (period (m_ctx w1))
      (Some Spawn_Resources) d None)"
    have b: "wf_buffer ?b \<and> (\<forall>e \<in> set (pending ?b). spawn_event e) \<and>
      (?b = s_event_buffer w1 \<or> (\<exists>e. ev_arg e = None \<and> ?b = push_back e (s_event_buffer w1)))"
    proof (cases "length (pending (s_event_buffer w1)) < 10")
      case True
      then have "eb_count (s_event_buffer w1) < 10" using count_less [OF sb(1)] by simp
      define e :: game_event where "e = \<lparr>exec_time = due_time t (s_event_buffer w1) (period (m_ctx w1)),
        ev_callback = Some Spawn_Resources, ev_data = d, ev_arg = None\<rparr>"
      have "?b = push_back e (s_event_buffer w1)"
        using t \<open>eb_count (s_event_buffer w1) < 10\<close>
        by (simp add: schedule_eq [where tm = t] pick_api_def e_def)
      moreover have "spawn_event e" by (simp add: spawn_event_def e_def)
      ultimately show ?thesis
        using sb True by (auto simp: wf_push_back pending_push_back spawn_event_def)
    next
      case False
      then have "eb_count (s_event_buffer w1) = 10"
        using length_pending_le [OF sb(1)] length_pending [OF sb(1)] by simp
      with sb show ?thesis by (simp add: schedule_full_eq)
    qed
    let ?w2 = "w1\<lparr>m_ctx := (m_ctx w1)\<lparr>next_idx := ?nx\<rparr>, s_event_buffer := ?b\<rparr>"
    have "wf_world ?w2" using wf_server_state [OF w1(2) nx(2)] b by blast
    moreover have "m_game_spawn_resources fuel d None w = Inr (0, ?w2)"
      using w1(1) nx(1) by (simp add: m_game_spawn_resources_def Let_def case_prod_unfold)
    moreover have "?b = s_event_buffer w \<or> (\<exists>e. ev_arg e = None \<and> ?b = push_back e (s_event_buffer w))"
      using b same(5) by simp
    ultimately show ?thesis using same by simp
  qed
qed

lemma wf_put_server_buffer:
  assumes "wf_world w" "wf_buffer b" "\<forall>e \<in> set (pending b). spawn_event e"
  shows "wf_world (w\<lparr>s_event_buffer := b\<rparr>)"
  using assms(1) by (rule wf_world_cong) (use assms in \<open>simp_all add: wf_server_buffer_def wf_world_def\<close>)

lemma process_server_ok:
  assumes wf: "wf_world w"
  shows "process_server fuel w = Inl Out_Of_Fuel \<or>
    (\<exists>w'. process_server fuel w = Inr (SUCCESS, w') \<and> wf_world w' \<and> fewer w w')"
proof -
  let ?b = "s_event_buffer w"
  obtain tm where tm: "m_time w = Some tm" using wf_clock [OF wf] by blast
  have sb: "wf_buffer ?b" "\<forall>e \<in> set (pending ?b). spawn_event e"
    using wf by (simp_all add: wf_world_def wf_server_buffer_def)
  have get: "(\<lambda>w. Inr (s_event_buffer w)) w = Inr ?b" by simp
  show ?thesis
  proof (cases "pending ?b = [] \<or> current_time_units tm < exec_time (front ?b)")
    case True
    then have "process_server fuel w = Inr (SUCCESS, w)"
      unfolding process_server_def
      by (rule process_not_due [where get = "\<lambda>w. Inr (s_event_buffer w)" and b = ?b, OF tm get sb(1)])
    with wf show ?thesis by simp
  next
    case False
    then have due: "pending ?b \<noteq> []" "exec_time (front ?b) \<le> current_time_units tm" by auto
    let ?w1 = "w\<lparr>s_event_buffer := pop ?b\<rparr>"
    have cons: "pending ?b = front ?b # pending (pop ?b)" using pending_not_empty [OF sb(1) due(1)] .
    then have fr: "spawn_event (front ?b)" "\<forall>e \<in> set (pending (pop ?b)). spawn_event e"
      using sb(2) by (metis list.set_intros)+
    have w1: "wf_world ?w1" using wf_put_server_buffer [OF wf wf_pop [OF sb(1) due(1)] fr(2)] .
    note run = process_due [where get = "\<lambda>w. Inr (s_event_buffer w)" and b = ?b
        and put = "\<lambda>b w. Inr (w\<lparr>s_event_buffer := b\<rparr>)" and call = "run_callback fuel" and release = "\<lambda>_. Inr", OF tm get sb(1) due]
    from spawn_ok [OF w1, of fuel "ev_data (front ?b)"] show ?thesis
    proof
      assume "m_game_spawn_resources fuel (ev_data (front ?b)) None ?w1 = Inl Out_Of_Fuel"
      then show ?thesis
        unfolding process_server_def run using fr(1) by (simp add: spawn_event_def run_callback_def)
    next
      assume "\<exists>w'. m_game_spawn_resources fuel (ev_data (front ?b)) None ?w1 = Inr (0, w') \<and> wf_world w' \<and>
        cheap w' = cheap ?w1 \<and> pheap w' = pheap ?w1 \<and> clients w' = clients ?w1 \<and>
        client_count w' = client_count ?w1 \<and> teams w' = teams ?w1 \<and> m_time w' = m_time ?w1 \<and> oheap w' = oheap ?w1 \<and>
        (s_event_buffer w' = s_event_buffer ?w1 \<or>
         (\<exists>e. ev_arg e = None \<and> s_event_buffer w' = push_back e (s_event_buffer ?w1)))"
      then obtain w2 where w2: "m_game_spawn_resources fuel (ev_data (front ?b)) None ?w1 = Inr (0, w2)"
        "wf_world w2" "fewer w w2"
        "s_event_buffer w2 = pop ?b \<or> (\<exists>e. ev_arg e = None \<and> s_event_buffer w2 = push_back e (pop ?b))"
        using fewer_same [of _ w] by auto
      have len: "length (eb_events ?b) = 10" "0 \<le> eb_head ?b" "eb_head ?b < 10"
        using sb(1) by (simp_all add: wf_buffer_def)
      have arg: "ev_arg (eb_events (s_event_buffer w2) ! nat (eb_head ?b)) = None"
        using w2(4) fr(1) len
        by (cases "nat (eb_tail ?b) = nat (eb_head ?b)")
          (auto simp: pop_def push_back_def front_def spawn_event_def)
      have "process_server fuel w = Inr (SUCCESS, w2)"
        unfolding process_server_def run using fr(1) w2(1) arg by (simp add: spawn_event_def run_callback_def)
      with w2 show ?thesis by simp
    qed
  qed
qed

end
