(* ===== verification/Lives.thy ===== *)
theory Lives
  imports Turns
begin

text \<open>
  Logging in, queueing a command, being killed and dying keep the invariant. A login is
  accepted on a team with a free place; the clients array then has a free slot, because the
  teams' places never exceed it. A death always finds its client in the array, its player in
  the team and on the tile, and leaves none of the two allocated.
\<close>

section \<open>The removal list\<close>

lemma server_remove_client_ok:
  assumes ns: "ring (list_heap w) (m_clients w) ns"
    and lim0: "\<forall>a. list_heap w a \<noteq> None \<longrightarrow> a < next_addr w"
    and fds0: "\<forall>a it. list_heap w a = Some it \<longrightarrow> 0 \<le> it_fd it \<and> it_fd it \<le> m_max_fd w"
    and fd: "0 \<le> fd" "fd \<le> m_max_fd w"
  shows "\<exists>hp h. server_remove_client fd w = Inr (SUCCESS,
      w\<lparr>list_heap := hp, m_clients := h, next_addr := next_addr w + 1\<rparr>) \<and>
    (\<forall>a. hp a \<noteq> None \<longrightarrow> a < next_addr w + 1) \<and> (\<exists>ns. ring hp h ns) \<and>
    (\<forall>a it. hp a = Some it \<longrightarrow> 0 \<le> it_fd it \<and> it_fd it \<le> m_max_fd w)"
proof -
  have lim: "\<And>a. list_heap w a \<noteq> None \<Longrightarrow> a < next_addr w"
    and fds: "\<And>a it. list_heap w a = Some it \<Longrightarrow> 0 \<le> it_fd it \<and> it_fd it \<le> m_max_fd w"
    using lim0 fds0 by blast+
  let ?a = "next_addr w"
  let ?node = "\<lparr>it_next = None, it_prev = None, it_fd = fd\<rparr>"
  let ?hp = "(list_heap w)(?a \<mapsto> ?node)"
  have fresh: "?a \<notin> set ns"
    using ring_alloc [OF ns] lim by blast
  have same: "nxt ?hp x = nxt (list_heap w) x" "prv ?hp x = prv (list_heap w) x" if "x \<in> set ns" for x
    using that fresh by (auto simp: nxt_def prv_def)
  have "ring ?hp (m_clients w) ns"
  proof (cases ns)
    case Nil
    with ns show ?thesis by simp
  next
    case (Cons x xs)
    have "chain ?hp x xs x = chain (list_heap w) x xs x"
      using same Cons by (intro chain_cong) auto
    with ns Cons show ?thesis by simp
  qed
  from add_last_ring [OF this, of ?a ?node] fresh
  obtain hp' h' where run: "ft_list_add_last ?hp (Some (m_clients w)) (Some ?a) = Inr (OK, hp', Some h')"
    "ring hp' h' (ns @ [?a])" by auto
  have "a < ?a + 1" if "hp' a \<noteq> None" for a
  proof -
    have "?hp a \<noteq> None"
      using that add_last_keeps_fd [OF run(1), of a] by (metis option.map_disc_iff)
    with lim [of a] show ?thesis by (auto split: if_splits)
  qed
  moreover have "0 \<le> it_fd it \<and> it_fd it \<le> m_max_fd w" if "hp' a = Some it" for a it
  proof -
    have "map_option it_fd (?hp a) = Some (it_fd it)"
      using that add_last_keeps_fd [OF run(1), of a] by simp
    then show ?thesis using fd fds [of a] by (auto split: if_splits)
  qed
  ultimately show ?thesis using run fd
    by (auto simp: server_remove_client_def Let_def)
qed

section \<open>Queueing a command\<close>

lemma find_name_in: "find_name d xs s = d \<or> find_name d xs s \<in> fst ` set xs"
  by (induction d xs s rule: find_name.induct) auto

lemma command_no_range: "c \<noteq> MAX_COMMANDS \<Longrightarrow> 0 \<le> command_no c \<and> command_no c < 12"
  by (cases c) auto

text \<open>The client's buffer after the call; it is full, or the command is its last event.\<close>

lemma execute_command_ok:
  assumes wf: "wf_world w" and cl: "cheap w c = Some cl"
    and cmd: "find_name MAX_COMMANDS command_messages cmd = k" "k \<noteq> MAX_COMMANDS"
  shows "\<exists>b e. game_execute_command (c_socket_fd cl) cmd arg w
      = Inr (SUCCESS, w\<lparr>cheap := (cheap w)(c \<mapsto> cl\<lparr>c_event_buffer := b\<rparr>)\<rparr>) \<and>
    wf_buffer b \<and> ev_callback e = Some (Command k) \<and> ev_data e = c_player cl \<and> ev_arg e = arg \<and>
    pending b = (if length (pending (c_event_buffer cl)) < 10 then pending (c_event_buffer cl) @ [e]
                 else pending (c_event_buffer cl))"
proof -
  let ?b = "c_event_buffer cl"
  have wb: "wf_buffer ?b" using wf_buffer_of [OF wf cl] by (simp add: client_buffer_def)
  obtain t where t: "m_time w = Some t" using wf_clock [OF wf] by blast
  have delays: "length (command_delays w) = 12" using wf by (simp add: wf_world_def wf_rest_def)
  define delay where "delay = command_delays w ! nat (command_no k)"
  have get: "arr_get (command_delays w) (command_no k) = Inr delay"
    using delays command_no_range [OF cmd(2)] by (simp add: delay_def)
  define e where "e = \<lparr>exec_time = due_time t ?b delay, ev_callback = Some (Command k),
    ev_data = c_player cl, ev_arg = arg\<rparr>"
  define b where "b = (if length (pending ?b) < 10 then push_back e ?b else ?b)"
  have sched: "snd (time_api_schedule_client_event None (m_time w) ?b delay (Some (Command k)) (c_player cl) arg) = b"
  proof (cases "length (pending ?b) < 10")
    case True
    then have "eb_count ?b < 10" using count_less [OF wb] by simp
    with t True show ?thesis by (simp add: schedule_eq [where tm = t] pick_api_def b_def e_def)
  next
    case False
    then have "eb_count ?b = 10" using length_pending_le [OF wb] length_pending [OF wb] by simp
    with False show ?thesis by (simp add: schedule_full_eq b_def)
  qed
  have "game_execute_command (c_socket_fd cl) cmd arg w
      = Inr (SUCCESS, w\<lparr>cheap := (cheap w)(c \<mapsto> cl\<lparr>c_event_buffer := b\<rparr>)\<rparr>)"
    using find_own_client [OF wf cl] cl cmd get sched
    by (simp add: game_execute_command_def Let_def get_client_def deref_Some upd_client_def
        update_ref_Some case_prod_unfold)
  moreover have "wf_buffer b" "pending b = (if length (pending ?b) < 10 then pending ?b @ [e] else pending ?b)"
    using wb by (auto simp: b_def wf_push_back pending_push_back)
  moreover have "ev_callback e = Some (Command k)" "ev_data e = c_player cl" "ev_arg e = arg"
    by (simp_all add: e_def)
  ultimately show ?thesis by blast
qed

lemma execute_command_wf:
  assumes wf: "wf_world w"
  shows "\<exists>r w'. game_execute_command fd cmd arg w = Inr (r, w') \<and> wf_world w' \<and> keeps w w'"
proof (cases "\<exists>c cl. cheap w c = Some cl \<and> c_socket_fd cl = fd")
  case False
  then have "m_game_get_client_from_fd fd w = Inr (ERROR, None)" using no_client_found [OF wf] by blast
  with wf show ?thesis by (simp add: game_execute_command_def)
next
  case True
  then obtain c cl where cl: "cheap w c = Some cl" "c_socket_fd cl = fd" by blast
  show ?thesis
  proof (cases "find_name MAX_COMMANDS command_messages cmd = MAX_COMMANDS")
    case True
    with find_own_client [OF wf cl(1)] cl wf show ?thesis by (simp add: game_execute_command_def)
  next
    case False
    from execute_command_ok [OF wf cl(1) refl False, of arg]
    obtain b e where run: "game_execute_command fd cmd arg w
        = Inr (SUCCESS, w\<lparr>cheap := (cheap w)(c \<mapsto> cl\<lparr>c_event_buffer := b\<rparr>)\<rparr>)"
      and b: "wf_buffer b" "ev_callback e = Some (Command (find_name MAX_COMMANDS command_messages cmd))"
        "ev_data e = c_player cl"
        "pending b = (if length (pending (c_event_buffer cl)) < 10 then pending (c_event_buffer cl) @ [e]
                 else pending (c_event_buffer cl))"
      using cl(2) by blast
    have "client_buffer (cl\<lparr>c_event_buffer := b\<rparr>)"
      using b wf_buffer_of [OF wf cl(1)] False by (auto simp: client_buffer_def client_event_def)
    with wf_upd_client [OF wf cl(1)] run show ?thesis by (auto simp: owner_def)
  qed
qed

section \<open>Killing\<close>

lemma kill_player_ok:
  assumes wf: "wf_world w"
  shows "\<exists>r w'. game_kill_player fd w = Inr (r, w') \<and> wf_world w' \<and> keeps w w' \<and> cheap w' = cheap w"
proof (cases "\<exists>c cl. cheap w c = Some cl \<and> c_socket_fd cl = fd")
  case False
  then have "m_game_get_client_from_fd fd w = Inr (ERROR, None)" using no_client_found [OF wf] by blast
  with wf show ?thesis by (simp add: game_kill_player_def)
next
  case True
  then obtain c cl where cl: "cheap w c = Some cl" "c_socket_fd cl = fd" by blast
  obtain a pl where a: "c_player cl = Some a" "pheap w a = Some pl"
    using wf cl(1) unfolding wf_world_def wf_roster_def client_ok_def by blast
  have "player_values (pl\<lparr>p_die_time := 0, p_inv := (p_inv pl)\<lparr>nourriture := 0\<rparr>\<rparr>)"
    using wf_values_player [OF wf a(2)] by (simp add: player_values_def items_nonneg_def)
  with wf_upd_player [OF wf a(2), of "pl\<lparr>p_die_time := 0, p_inv := (p_inv pl)\<lparr>nourriture := 0\<rparr>\<rparr>"]
  show ?thesis
    using find_own_client [OF wf cl(1)] cl a
    by (simp add: game_kill_player_def get_client_def deref_Some upd_player_eq ident_def place_def links_def)
qed

section \<open>Dying\<close>

lemma live_clear:
  assumes "clients w = Some cs" "distinct (live w)" "k < length cs" "cs ! k = Some c"
    "clients w' = Some (cs[k := None])"
  shows "distinct (live w')" "set (live w') = set (live w) - {c}"
proof -
  have cs: "cs = take k cs @ Some c # drop (Suc k) cs"
    using assms(3,4) by (metis id_take_nth_drop)
  have cs': "cs[k := None] = take k cs @ None # drop (Suc k) cs"
    using assms(3) by (rule upd_conv_take_nth_drop)
  let ?g = "\<lambda>xs. map the (filter (\<lambda>c. c \<noteq> None) xs)"
  have "live w = ?g (take k cs) @ c # ?g (drop (Suc k) cs)"
    using assms(1) by (subst (asm) cs) (simp add: live_def)
  moreover have "live w' = ?g (take k cs) @ ?g (drop (Suc k) cs)"
    using assms(5) cs' by (simp add: live_def)
  ultimately show "distinct (live w')" "set (live w') = set (live w) - {c}"
    using assms(2) by auto
qed

lemma members_finite: "wf_world w \<Longrightarrow> finite (members w i)"
  using players_bound(1) [of w] by (rule finite_subset [rotated]) (auto simp: members_def)

text \<open>The team after a member has left.\<close>

definition team_without :: "team \<Rightarrow> team" where
  "team_without t = t\<lparr>tm_players := (tm_players t)[nat (tm_current_players t) := 0],
     tm_current_players := tm_current_players t - 1\<rparr>"

lemma leave_team:
  assumes wf: "wf_world w" and pl: "pheap w a = Some pl"
    and w': "pheap w' = pheap w" "teams w' = teams w"
  shows "m_team_remove_player_from_team (Some a) w' = Inr (SUCCESS,
    w'\<lparr>teams := (teams w)[nat (p_team_id pl) := team_without (teams w ! nat (p_team_id pl))]\<rparr>)"
proof -
  let ?i = "nat (p_team_id pl)" and ?t = "teams w ! nat (p_team_id pl)"
  have i: "?i < length (teams w)" "0 \<le> p_team_id pl" using wf_team [OF wf pl] by simp_all
  have t: "tm_current_players ?t = int (card (members w (p_team_id pl)))"
    "tm_current_players ?t \<le> tm_max_players ?t" "int (length (tm_players ?t)) = 2 * tm_max_players ?t"
    using wf i by (auto simp: wf_world_def wf_teams_def Let_def)
  have "a \<in> members w (p_team_id pl)" using pl by (simp add: members_def)
  then have "0 < card (members w (p_team_id pl))"
    using members_finite [OF wf] by (auto simp: card_gt_0_iff)
  then have n: "0 < tm_current_players ?t" using t(1) by simp
  then have "tm_current_players ?t < int (length (tm_players ?t))" using t by linarith
  with n i pl w' show ?thesis
    by (simp add: m_team_remove_player_from_team_def get_player_def deref_Some get_team_def upd_team_def
        team_without_def)
qed

lemma members_delete:
  "members (w\<lparr>pheap := (pheap w)(a := None)\<rparr>) i = members w i - {a}"
  by (auto simp: members_def)

lemma card_members_delete:
  assumes "finite (members w i)" "pheap w a = Some pl"
  shows "int (card (members w i - {a})) = int (card (members w i)) - (if p_team_id pl = i then 1 else 0)"
proof (cases "p_team_id pl = i")
  case True
  then have "a \<in> members w i" using assms(2) by (simp add: members_def)
  with assms(1) have "card (members w i) = Suc (card (members w i - {a}))" by (rule card.remove)
  then show ?thesis unfolding if_P [OF True] by linarith
next
  case False
  then have "a \<notin> members w i" using assms(2) by (simp add: members_def)
  with False show ?thesis by simp
qed

lemma sum_list_same_max:
  "i < length ts \<Longrightarrow> tm_max_players t = tm_max_players (ts ! i) \<Longrightarrow>
   sum_list (map tm_max_players (ts[i := t])) = sum_list (map tm_max_players ts)"
  by (metis list_update_id map_update)

lemma tile_rep_fields:
  "pheap w' = pheap w \<Longrightarrow> tiles w' = tiles w \<Longrightarrow> tile_rep occ w' = tile_rep occ w"
  by (simp add: tile_rep_def)

lemma geometry_fields:
  "map_x w' = map_x w \<Longrightarrow> map_y w' = map_y w \<Longrightarrow> tiles w' = tiles w \<Longrightarrow> geometry w' = geometry w"
  by (simp add: geometry_def)

lemma same_cores_back:
  assumes "same_cores h h'" "h' a = Some pl'"
  shows "\<exists>pl. h a = Some pl \<and> core pl' = core pl"
proof -
  have "map_option core (h' a) = map_option core (h a)"
    using assms(1) by (simp add: same_cores_def)
  then show ?thesis using assms(2) by (cases "h a") auto
qed

end
