(* ===== verification/Deaths.thy ===== *)
theory Deaths
  imports Lives
begin

text \<open>
  The death of a player: what \<open>game_player_die\<close> leaves, once \<open>die_run\<close> has run it, is the state
  \<open>left_by\<close>; each part of the invariant is shown for it by a lemma of its own.
\<close>

section \<open>What a death leaves\<close>

abbreviation (input) left_by ::
  "world \<Rightarrow> nat \<Rightarrow> nat \<Rightarrow> player \<Rightarrow> ptr list \<Rightarrow> nat \<Rightarrow> (nat \<rightharpoonup> player) \<Rightarrow> tile list \<Rightarrow>
   (int \<times> json) list \<Rightarrow> items \<Rightarrow> ptr \<Rightarrow> world" where
  "left_by w c a pl cs k h ts os hp hh \<equiv>
     w\<lparr>clients := Some (cs[k := None]),
       teams := (teams w)[nat (p_team_id pl) := team_without (teams w ! nat (p_team_id pl))],
       pheap := h(a := None), tiles := ts, out := os,
       list_heap := hp, m_clients := hh, next_addr := next_addr w + 1, cheap := (cheap w)(c := None)\<rparr>"

definition leaving ::
  "world \<Rightarrow> nat \<Rightarrow> nat \<Rightarrow> client \<Rightarrow> player \<Rightarrow> ptr list \<Rightarrow> nat \<Rightarrow> (nat \<rightharpoonup> player) \<Rightarrow> tile list \<Rightarrow>
   items \<Rightarrow> ptr \<Rightarrow> (nat \<Rightarrow> nat list) \<Rightarrow> bool" where
  "leaving w c a cl pl cs k h ts hp hh occ \<longleftrightarrow> wf_world w \<and>
     cheap w c = Some cl \<and> c_player cl = Some a \<and> pheap w a = Some pl \<and>
     clients w = Some cs \<and> k < length cs \<and> cs ! k = Some c \<and>
     same_cores (pheap w) h \<and> map tile_core ts = map tile_core (tiles w) \<and> tile_rep occ w \<and> placed occ w \<and>
     tile_rep (occ(tile_no w (p_pos pl) := remove1 a (occ (tile_no w (p_pos pl))))) (w\<lparr>pheap := h, tiles := ts\<rparr>) \<and>
     (\<forall>b. hp b \<noteq> None \<longrightarrow> b < next_addr w + 1) \<and> (\<exists>ns. ring hp hh ns) \<and>
     (\<forall>b it. hp b = Some it \<longrightarrow> 0 \<le> it_fd it \<and> it_fd it \<le> m_max_fd w)"

lemma leavingD:
  assumes "leaving w c a cl pl cs k h ts hp hh occ"
  shows "wf_world w" "cheap w c = Some cl" "c_player cl = Some a" "pheap w a = Some pl"
    "clients w = Some cs" "k < length cs" "cs ! k = Some c"
    "same_cores (pheap w) h" "map tile_core ts = map tile_core (tiles w)" "tile_rep occ w" "placed occ w"
    "tile_rep (occ(tile_no w (p_pos pl) := remove1 a (occ (tile_no w (p_pos pl))))) (w\<lparr>pheap := h, tiles := ts\<rparr>)"
    "hp b \<noteq> None \<Longrightarrow> b < next_addr w + 1" "\<exists>ns. ring hp hh ns"
    "hp b = Some it \<Longrightarrow> 0 \<le> it_fd it \<and> it_fd it \<le> m_max_fd w"
  using assms by (auto simp: leaving_def)

lemma death_logged:
  assumes wf: "wf_world w" and pl: "pheap w a = Some pl" and fuel: "nat (client_count w) \<le> fuel"
  obtains ls t where "m_time w = Some t"
    "get_tile (MAP (pos_x (p_pos pl)) (pos_y (p_pos pl)) w) w = Inr (tiles w ! tile_no w (p_pos pl))"
    "m_game_print_players_on_tile fuel (tiles w ! tile_no w (p_pos pl)) w = Inr ls"
proof -
  obtain occ where occ: "tile_rep occ w" "placed occ w" using wf by (rule wf_occ)
  note pos = wf_player_pos [OF wf pl]
  have "length (occ (tile_no w (p_pos pl))) \<le> fuel" using occ_length [OF wf occ(1) pos(3)] fuel by simp
  from print_players_dseg [OF tile_repD(1) [OF occ(1) pos(3)] this] obtain ls where
    "print_players fuel (t_players (tiles w ! tile_no w (p_pos pl))) w = Inr ls" by blast
  then show thesis
    using get_tile_eq [OF pos(3)] pos(4) wf_clock [OF wf] that by (auto simp: m_game_print_players_on_tile_def)
qed

lemma die_run:
  assumes wf: "wf_world w" and cl: "cheap w c = Some cl" "c_player cl = Some a" and pl: "pheap w a = Some pl"
    and starved: "nourriture (p_inv pl) \<le> 0" and fuel: "nat (client_count w) \<le> fuel"
  obtains cs k h ts hp hh occ os where
    "game_player_die fuel (Some c) w = Inr (SUCCESS, left_by w c a pl cs k h ts os hp hh)"
    "leaving w c a cl pl cs k h ts hp hh occ"
proof -
  obtain cs where cs: "clients w = Some cs" "int (length cs) = client_count w"
    "\<And>c. Some c \<in> set cs \<longleftrightarrow> (\<exists>cl. cheap w c = Some cl)"
    using wf by (rule roster_clients) blast
  obtain k where k: "k < length cs" "cs ! k = Some c"
    and clear: "clear_slot (Some c) (length cs) 0 w = Inr (SUCCESS, w\<lparr>clients := Some (cs[k := None])\<rparr>)"
    using clear_slot_spec [OF cs(1), of 0 "length cs" "Some c"] cs(3) cl(1) by auto
  let ?w1 = "w\<lparr>clients := Some (cs[k := None])\<rparr>"
  have "nat (client_count w) = length cs" using cs(2) by simp
  with clear have w1: "m_remove_client_from_server (Some c) w = Inr (SUCCESS, ?w1)"
    by (simp add: m_remove_client_from_server_def)
  let ?ts = "(teams w)[nat (p_team_id pl) := team_without (teams w ! nat (p_team_id pl))]"
  let ?w2 = "?w1\<lparr>teams := ?ts\<rparr>"
  have w2: "m_team_remove_player_from_team (Some a) ?w1 = Inr (SUCCESS, ?w2)"
    using leave_team [OF wf pl, of ?w1] by simp
  obtain occ where occ: "tile_rep occ w" "placed occ w" using wf by (rule wf_occ)
  note pos = wf_player_pos [OF wf pl]
  obtain ls t where log: "m_time w = Some t"
    "get_tile (MAP (pos_x (p_pos pl)) (pos_y (p_pos pl)) w) w = Inr (tiles w ! tile_no w (p_pos pl))"
    "m_game_print_players_on_tile fuel (tiles w ! tile_no w (p_pos pl)) w = Inr ls"
    using death_logged [OF wf pl fuel] by blast
  have same: "in_map ?w2 = in_map w" "tile_no ?w2 = tile_no w"
    by (simp_all add: fun_eq_iff in_map_def tile_no_def MAP_def)
  have geo2: "geometry ?w2" using pos(1) geometry_fields [of ?w2 w] by simp
  have rep2: "tile_rep occ ?w2" using occ(1) tile_rep_fields [of ?w2 w] by simp
  have "pheap ?w2 a = Some pl" "in_map ?w2 (p_pos pl)" "a \<in> set (occ (tile_no ?w2 (p_pos pl)))"
    using pl pos(2) placed_member [OF occ(2) pl] unfolding same by simp_all
  from remove_rep [OF geo2 rep2 this] obtain w3 where w3: "m_game_remove_player_from_tile (Some a) ?w2 = Inr w3"
    "relinked (pheap ?w2) ?w2 w3"
    "tile_rep (occ(tile_no w (p_pos pl) := remove1 a (occ (tile_no w (p_pos pl))))) w3"
    unfolding same by blast
  from w3(2) obtain h ts where e: "w3 = ?w2\<lparr>pheap := h, tiles := ts\<rparr>" "same_cores (pheap w) h"
    "map tile_core ts = map tile_core (tiles w)"
    by (elim relinkedE) auto
  have ha: "h a \<noteq> None" using same_coresD [OF e(2) pl] by blast
  let ?w4 = "w3\<lparr>pheap := h(a := None)\<rparr>"
  have w4: "free_player (Some a) w3 = Inr ?w4" using ha e(1) by (simp add: free_player_def)
  let ?j = "response_json ''-'' (Some ''die'') None"
  let ?w5 = "send (c_socket_fd cl) ?j ?w4"
  have rest: "\<exists>ns. ring (list_heap w) (m_clients w) ns" "\<And>a. list_heap w a \<noteq> None \<Longrightarrow> a < next_addr w"
    "\<And>a it. list_heap w a = Some it \<Longrightarrow> 0 \<le> it_fd it \<and> it_fd it \<le> m_max_fd w"
    "0 \<le> c_socket_fd cl" "c_socket_fd cl \<le> m_max_fd w"
    using wf cl(1) by (auto simp: wf_world_def wf_rest_def)
  then obtain ns where "ring (list_heap w) (m_clients w) ns" by blast
  then have "ring (list_heap ?w5) (m_clients ?w5) ns" "\<forall>a. list_heap ?w5 a \<noteq> None \<longrightarrow> a < next_addr ?w5"
    "\<forall>a it. list_heap ?w5 a = Some it \<longrightarrow> 0 \<le> it_fd it \<and> it_fd it \<le> m_max_fd ?w5"
    "0 \<le> c_socket_fd cl" "c_socket_fd cl \<le> m_max_fd ?w5"
    using rest e(1) by (simp_all add: send_def)
  from server_remove_client_ok [OF this] obtain hp hh where w6: "server_remove_client (c_socket_fd cl) ?w5
      = Inr (SUCCESS, ?w5\<lparr>list_heap := hp, m_clients := hh, next_addr := next_addr ?w5 + 1\<rparr>)"
    "\<forall>a. hp a \<noteq> None \<longrightarrow> a < next_addr ?w5 + 1" "\<exists>ns. ring hp hh ns"
    "\<forall>a it. hp a = Some it \<longrightarrow> 0 \<le> it_fd it \<and> it_fd it \<le> m_max_fd ?w5" by blast
  let ?w6 = "?w5\<lparr>list_heap := hp, m_clients := hh, next_addr := next_addr ?w5 + 1\<rparr>"
  have w7: "free_client (Some c) ?w6 = Inr (?w6\<lparr>cheap := (cheap w)(c := None)\<rparr>)"
    using cl(1) e(1) by (simp add: free_client_def send_def)
  have die: "game_player_die fuel (Some c) w = Inr (SUCCESS, ?w6\<lparr>cheap := (cheap w)(c := None)\<rparr>)"
    using cl pl starved log w1 w2 w3(1) w4 w6(1) w7
    by (simp add: game_player_die_def get_client_def deref_Some get_player_eq
        server_create_response_to_command_def)
  have final: "?w6\<lparr>cheap := (cheap w)(c := None)\<rparr> =
      w\<lparr>clients := Some (cs[k := None]), teams := ?ts,
         pheap := h(a := None), tiles := ts, out := out w @ [(c_socket_fd cl, ?j)],
         list_heap := hp, m_clients := hh, next_addr := next_addr w + 1, cheap := (cheap w)(c := None)\<rparr>"
    using e(1) by (simp add: send_def)
  have rep: "tile_rep (occ(tile_no w (p_pos pl) := remove1 a (occ (tile_no w (p_pos pl))))) (w\<lparr>pheap := h, tiles := ts\<rparr>)"
    using w3(3) e(1) tile_rep_fields [of "w\<lparr>pheap := h, tiles := ts\<rparr>" w3] by simp
  have "leaving w c a cl pl cs k h ts hp hh occ"
    using wf cl pl cs(1) k e(1-3) occ rep w6(2-4) by (simp add: leaving_def send_def)
  with die [unfolded final] show thesis by (rule that)
qed

section \<open>The invariant afterwards\<close>

lemma left_player:
  assumes j: "leaving w c a cl pl cs k h ts hp hh occ"
    and r: "pheap (left_by w c a pl cs k h ts os hp hh) b = Some r"
  obtains r0 where "pheap w b = Some r0" "core r = core r0" "b \<noteq> a"
proof -
  have "h b = Some r" "b \<noteq> a" using r by (simp_all split: if_splits)
  with same_cores_back [OF leavingD(8) [OF j]] that show thesis by blast
qed

lemma left_map:
  assumes j: "leaving w c a cl pl cs k h ts hp hh occ"
  shows "wf_map (left_by w c a pl cs k h ts os hp hh)" (is "wf_map ?w'")
proof -
  let ?i = "tile_no w (p_pos pl)"
  let ?occ = "occ(?i := remove1 a (occ ?i))"
  note occ = leavingD(10-12) [OF j]
  note pos = wf_player_pos [OF leavingD(1,4) [OF j]]
  have len: "length ts = length (tiles w)" using tile_coreD(1) [OF leavingD(9) [OF j]] .
  have same: "in_map ?w' = in_map w" "tile_no ?w' = tile_no w"
    by (simp_all add: fun_eq_iff in_map_def tile_no_def MAP_def)
  have off: "a \<notin> set (?occ n)" if "n < length (tiles w)" for n
    using occ_disjoint [OF pos(1) occ(1) that pos(3) _ placed_member [OF occ(2) leavingD(4) [OF j]]]
      tile_repD(2) [OF occ(1) pos(3)]
    by (auto simp: set_remove1_eq)
  have "tile_rep ?occ (w\<lparr>pheap := h, tiles := ts, pheap := h(a := None)\<rparr>)"
    using tile_rep_upd_off [OF occ(3), of a None] off len by simp
  then have "tile_rep ?occ ?w'"
    by (rule tile_rep_fields [THEN iffD1, rotated 2]) simp_all
  moreover have "placed ?occ ?w'"
    unfolding placed_def same
  proof (intro allI impI)
    fix b r
    assume "pheap ?w' b = Some r"
    with j obtain r0 where r0: "pheap w b = Some r0" "core r = core r0" and "b \<noteq> a" by (rule left_player)
    moreover have "in_map w (p_pos r0)" "b \<in> set (occ (tile_no w (p_pos r0)))"
      using occ(2) r0(1) by (simp_all add: placed_def)
    ultimately show "in_map w (p_pos r) \<and> b \<in> set (?occ (tile_no w (p_pos r)))"
      using coreD(4) [OF r0(2)] by (cases "tile_no w (p_pos r0) = ?i") (simp_all add: in_set_remove1)
  qed
  moreover have "geometry ?w'" using pos(1) geometry_cong [of ?w' w] leavingD(9) [OF j] by simp
  ultimately show ?thesis by (auto simp: wf_map_def)
qed

lemma left_roster:
  assumes j: "leaving w c a cl pl cs k h ts hp hh occ"
  shows "wf_roster (left_by w c a pl cs k h ts os hp hh)" (is "wf_roster ?w'")
  unfolding wf_roster_def
proof (intro conjI allI impI)
  have r: "wf_roster w" using leavingD(1) [OF j] by (simp add: wf_world_def)
  then have dl: "distinct (live w)" "dom (cheap w) = set (live w)" by (simp_all add: wf_roster_def)
  have "clients ?w' = Some (cs[k := None])" by simp
  note live = live_clear [OF leavingD(5) [OF j] dl(1) leavingD(6,7) [OF j] this]
  show "clients ?w' \<noteq> None" "int (length (the (clients ?w'))) = client_count ?w'"
    using r leavingD(5) [OF j] by (simp_all add: wf_roster_def)
  show "distinct (live ?w')" by (rule live(1))
  show "dom (cheap ?w') = set (live ?w')" unfolding live(2) using dl(2) by auto
next
  fix b cl'
  assume "cheap ?w' b = Some cl'"
  then have b: "cheap w b = Some cl'" "b \<noteq> c" by (auto split: if_splits)
  obtain pa q where q: "c_player cl' = Some pa" "pheap w pa = Some q" "p_id q = c_socket_fd cl'"
    using leavingD(1) [OF j] b(1) unfolding wf_world_def wf_roster_def client_ok_def by blast
  have "pa \<noteq> a" using unique_client [OF leavingD(1,2) [OF j] b(1)] b(2) leavingD(3) [OF j] q(1) by auto
  moreover obtain q' where "h pa = Some q'" "core q' = core q"
    using same_coresD [OF leavingD(8) [OF j] q(2)] by blast
  ultimately show "client_ok ?w' cl'"
    using q coreD(1) [of q' q] by (simp add: client_ok_def)
next
  fix b b' d d'
  assume "cheap ?w' b = Some d" "cheap ?w' b' = Some d'" "c_player d = c_player d' \<or> c_socket_fd d = c_socket_fd d'"
  then show "b = b'" using unique_client [OF leavingD(1) [OF j], of b d b' d'] by (auto split: if_splits)
next
  fix pa
  assume "pheap ?w' pa \<noteq> None"
  then obtain r where "pheap ?w' pa = Some r" by blast
  with j obtain r0 where pa: "pa \<noteq> a" "pheap w pa = Some r0" by (rule left_player)
  then obtain b d where b: "cheap w b = Some d" "c_player d = Some pa"
    using leavingD(1) [OF j] unfolding wf_world_def wf_roster_def by blast
  then have "b \<noteq> c" using leavingD(2,3) [OF j] pa(1) by auto
  with b show "\<exists>b d. cheap ?w' b = Some d \<and> c_player d = Some pa" by (intro exI [of _ b] exI [of _ d]) simp
qed

lemma left_members:
  assumes j: "leaving w c a cl pl cs k h ts hp hh occ"
  shows "members (left_by w c a pl cs k h ts os hp hh) i = members w i - {a}" (is "members ?w' i = _")
proof -
  have team: "map_option p_team_id (h pa) = map_option p_team_id (pheap w pa)" for pa
  proof -
    have "map_option core (h pa) = map_option core (pheap w pa)" using leavingD(8) [OF j] by (simp add: same_cores_def)
    then show ?thesis by (cases "h pa"; cases "pheap w pa") (auto dest: coreD(2))
  qed
  have mem_iff: "pa \<in> members v i \<longleftrightarrow> map_option p_team_id (pheap v pa) = Some i" for pa v
    by (auto simp: members_def)
  have "pa \<in> members ?w' i \<longleftrightarrow> pa \<in> members w i - {a}" for pa
  proof (cases "pa = a")
    case True
    then show ?thesis by (simp add: members_def)
  next
    case False
    then have "pheap ?w' pa = h pa" by simp
    with False show ?thesis by (simp only: mem_iff Diff_iff team singleton_iff simp_thms)
  qed
  then show ?thesis by blast
qed

lemma left_teams:
  assumes j: "leaving w c a cl pl cs k h ts hp hh occ"
  shows "wf_teams (left_by w c a pl cs k h ts os hp hh)" (is "wf_teams ?w'")
  unfolding wf_teams_def Let_def
proof (intro conjI allI impI)
  let ?t = "nat (p_team_id pl)"
  note wf = leavingD(1) [OF j] and pl = leavingD(4) [OF j]
  have r: "wf_teams w" using wf by (simp add: wf_world_def)
  have t: "?t < length (teams w)" "0 \<le> p_team_id pl" using wf_team [OF wf pl] by simp_all
  show "int (length (teams ?w')) = team_count ?w'" using r by (simp add: wf_teams_def)
  show "sum_list (map tm_max_players (teams ?w')) \<le> client_count ?w'"
    using r sum_list_same_max [OF t(1)] by (simp add: wf_teams_def team_without_def)
  fix i
  assume "i < length (teams ?w')"
  then have i: "i < length (teams w)" by simp
  have wi: "tm_current_players (teams w ! i) = int (card (members w (int i)))"
    "tm_current_players (teams w ! i) \<le> tm_max_players (teams w ! i)"
    "int (length (tm_players (teams w ! i))) = 2 * tm_max_players (teams w ! i)"
    using r i unfolding wf_teams_def Let_def by blast+
  have eq: "p_team_id pl = int i \<longleftrightarrow> i = ?t" using t(2) by auto
  note card = card_members_delete [OF members_finite [OF wf] pl, of "int i"]
  show "tm_current_players (teams ?w' ! i) = int (card (members ?w' (int i)))"
    unfolding left_members [OF j] card eq using wi(1) i by (cases "i = ?t") (simp_all add: team_without_def)
  show "tm_current_players (teams ?w' ! i) \<le> tm_max_players (teams ?w' ! i)"
    "int (length (tm_players (teams ?w' ! i))) = 2 * tm_max_players (teams ?w' ! i)"
    using wi i by (cases "i = ?t", simp_all add: team_without_def)+
next
  fix pa r
  assume "pheap ?w' pa = Some r"
  with j obtain r0 where "pheap w pa = Some r0" "core r = core r0" by (rule left_player)
  then show "0 \<le> p_team_id r" "p_team_id r < team_count ?w'"
    using leavingD(1) [OF j] coreD(2) [of r r0] by (simp_all add: wf_world_def wf_teams_def)
qed

lemma left_values:
  assumes j: "leaving w c a cl pl cs k h ts hp hh occ"
  shows "wf_values (left_by w c a pl cs k h ts os hp hh)" (is "wf_values ?w'")
  unfolding wf_values_def
proof (intro conjI allI impI ballI)
  fix b r
  assume "pheap ?w' b = Some r"
  with j obtain r0 where "pheap w b = Some r0" "core r = core r0" by (rule left_player)
  then show "player_values r"
    using wf_values_player [OF leavingD(1) [OF j]] coreD(3,6) [of r r0] by (auto simp: player_values_def)
next
  fix T
  assume "T \<in> set (tiles ?w')"
  then obtain n where n: "n < length (tiles w)" "ts ! n = T"
    using tile_coreD(1) [OF leavingD(9) [OF j]] by (auto simp: in_set_conv_nth)
  then have "t_items T = t_items (tiles w ! n)" using tile_coreD(3) [OF leavingD(9) [OF j]] by auto
  then show "items_nonneg (t_items T)" using wf_values_tile [OF leavingD(1) [OF j] nth_mem [OF n(1)]] by simp
qed

lemma left_rest:
  assumes j: "leaving w c a cl pl cs k h ts hp hh occ"
  shows "wf_rest (left_by w c a pl cs k h ts os hp hh)" (is "wf_rest ?w'")
proof -
  have r: "wf_rest w" using leavingD(1) [OF j] by (simp add: wf_world_def)
  then have lim: "pheap w b \<noteq> None \<or> cheap w b \<noteq> None \<Longrightarrow> b < next_addr w" for b unfolding wf_rest_def by blast
  have "b < next_addr ?w'" if "pheap ?w' b \<noteq> None \<or> cheap ?w' b \<noteq> None \<or> list_heap ?w' b \<noteq> None" for b
  proof -
    have "pheap w b \<noteq> None \<or> cheap w b \<noteq> None" if "hp b = None"
    proof (cases "pheap ?w' b")
      case None
      then have "cheap ?w' b \<noteq> None" using \<open>pheap ?w' b \<noteq> None \<or> _\<close> that by simp
      then show ?thesis by (simp split: if_splits)
    next
      case (Some q)
      with j show ?thesis by (rule left_player) simp
    qed
    then show ?thesis using lim [of b] leavingD(13) [OF j, of b] by (cases "hp b = None") auto
  qed
  moreover have "0 \<le> c_socket_fd d \<and> c_socket_fd d \<le> m_max_fd ?w'" if "cheap ?w' b = Some d" for b d
  proof -
    have "cheap w b = Some d" using that by (auto split: if_splits)
    then show ?thesis using r by (simp add: wf_rest_def)
  qed
  moreover have "\<forall>b. oheap w b \<noteq> None \<longrightarrow> b < next_addr w + 1" using r by (auto simp: wf_rest_def)
  ultimately show ?thesis using r leavingD(14,15) [OF j] by (simp add: wf_rest_def)
qed

lemma die_ok:
  assumes wf: "wf_world w" and cl: "cheap w c = Some cl" "c_player cl = Some a" and pl: "pheap w a = Some pl"
    and starved: "nourriture (p_inv pl) \<le> 0" and fuel: "nat (client_count w) \<le> fuel"
  shows "\<exists>w'. game_player_die fuel (Some c) w = Inr (SUCCESS, w') \<and> wf_world w' \<and>
    cheap w' = (cheap w)(c := None) \<and> dom (pheap w') = dom (pheap w) - {a} \<and>
    fewer w w' \<and> m_time w' = m_time w"
  using wf cl pl starved fuel
proof (rule die_run)
  fix cs k h ts hp hh occ os
  assume run: "game_player_die fuel (Some c) w = Inr (SUCCESS, left_by w c a pl cs k h ts os hp hh)" (is "_ = Inr (_, ?w')")
    and j: "leaving w c a cl pl cs k h ts hp hh occ"
  have "wf_buffers ?w'" "wf_server_buffer ?w'"
    using wf by (simp_all add: wf_world_def wf_buffers_def wf_server_buffer_def)
  then have "wf_world ?w'"
    using left_map [OF j] left_roster [OF j] left_teams [OF j] left_values [OF j] left_rest [OF j]
    by (simp add: wf_world_def)
  moreover have "dom (h(a := None)) = dom (pheap w) - {a}"
  proof -
    have "h b = None \<longleftrightarrow> pheap w b = None" for b
      using same_cores_back [OF leavingD(8) [OF j], of b] same_coresD [OF leavingD(8) [OF j], of b]
      by (cases "h b"; cases "pheap w b") auto
    then have "dom h = dom (pheap w)" by (intro set_eqI) (simp only: domIff)
    then show ?thesis by simp
  qed
  moreover have "fewer w ?w'"
    unfolding fewer_def
  proof (intro conjI)
    show "seats ?w' = seats w" by (simp add: seats_def seats_update team_without_def)
    show "lobby ?w' \<subseteq> lobby w"
    proof (rule subrelI)
      fix fd t
      assume "(fd, t) \<in> lobby ?w'"
      then obtain b pl' where b: "h b = Some pl'" "p_id pl' = fd" "p_team_id pl' = t"
        by (auto simp: lobby_iff split: if_splits)
      from same_cores_back [OF leavingD(8) [OF j] b(1)] obtain pb where "pheap w b = Some pb" "core pl' = core pb" by blast
      with b(2,3) coreD(1,2) [OF this(2)] show "(fd, t) \<in> lobby w" unfolding lobby_iff by auto
    qed
  qed simp_all
  ultimately show ?thesis using run by simp
qed

end
