(* ===== verification/Joins.thy ===== *)
theory Joins
  imports Lives
begin

text \<open>
  A login (\<open>game_register_player\<close>) on a team with a free place always finds a free slot in
  the clients array and puts a player on the map that owns its client; the invariant is kept
  when the descriptor is not logged in yet.
\<close>

section \<open>A place is a slot\<close>

lemma dom_members:
  assumes "wf_teams w"
  shows "dom (pheap w) = (\<Union>i < length (teams w). members w (int i))"
proof -
  have "\<exists>i < length (teams w). a \<in> members w (int i)" if "pheap w a = Some pl" for a pl
  proof -
    have "0 \<le> p_team_id pl" "p_team_id pl < int (length (teams w))"
      using assms that by (auto simp: wf_teams_def)
    then show ?thesis using that by (intro exI [of _ "nat (p_team_id pl)"]) (auto simp: members_def)
  qed
  then show ?thesis by (fastforce simp: members_def)
qed

lemma card_players:
  assumes wf: "wf_world w"
  shows "int (card (dom (pheap w))) = (\<Sum>i < length (teams w). tm_current_players (teams w ! i))"
proof -
  have teams: "wf_teams w" using wf by (simp add: wf_world_def)
  have "card (dom (pheap w)) = (\<Sum>i < length (teams w). card (members w (int i)))"
    unfolding dom_members [OF teams]
    using members_finite [OF wf] by (intro card_UN_disjoint) (auto simp: members_def)
  also have "int \<dots> = (\<Sum>i < length (teams w). int (card (members w (int i))))" by simp
  also have "\<dots> = (\<Sum>i < length (teams w). tm_current_players (teams w ! i))"
    using teams by (intro sum.cong) (auto simp: wf_teams_def Let_def)
  finally show ?thesis .
qed

text \<open>A place in a team is a slot in the clients array.\<close>

lemma free_slot:
  assumes wf: "wf_world w" and t: "t < length (teams w)"
    and room: "tm_current_players (teams w ! t) < tm_max_players (teams w ! t)"
    and cs: "clients w = Some cs"
  shows "None \<in> set cs"
proof (rule ccontr)
  assume none: "None \<notin> set cs"
  then have "filter (\<lambda>c. c \<noteq> None) cs = cs" by (intro filter_True) (metis (full_types))
  then have "length (live w) = length cs" using cs by (simp add: live_def)
  moreover have "int (length cs) = client_count w" using wf cs by (auto simp: wf_world_def wf_roster_def)
  ultimately have "client_count w = (\<Sum>i < length (teams w). tm_current_players (teams w ! i))"
    using players_bound(2) [OF wf] card_players [OF wf] by simp
  also have "\<dots> < (\<Sum>i < length (teams w). tm_max_players (teams w ! i))"
  proof (rule sum_strict_mono_ex1)
    show "\<forall>i \<in> {..<length (teams w)}. tm_current_players (teams w ! i) \<le> tm_max_players (teams w ! i)"
      using wf by (auto simp: wf_world_def wf_teams_def Let_def)
    show "\<exists>i \<in> {..<length (teams w)}. tm_current_players (teams w ! i) < tm_max_players (teams w ! i)"
      using t room by blast
  qed simp
  also have "\<dots> = sum_list (map tm_max_players (teams w))"
    by (simp add: sum_list_sum_nth atLeast0LessThan)
  also have "\<dots> \<le> client_count w" using wf by (simp add: wf_world_def wf_teams_def)
  finally show False by simp
qed

lemma live_fill:
  assumes "clients w = Some cs" "distinct (live w)" "k < length cs" "cs ! k = None" "c \<notin> set (live w)"
    "clients w' = Some (cs[k := Some c])"
  shows "distinct (live w')" "set (live w') = insert c (set (live w))"
proof -
  have cs: "cs = take k cs @ None # drop (Suc k) cs"
    using assms(3,4) by (metis id_take_nth_drop)
  have cs': "cs[k := Some c] = take k cs @ Some c # drop (Suc k) cs"
    using assms(3) by (rule upd_conv_take_nth_drop)
  let ?g = "\<lambda>xs. map the (filter (\<lambda>c. c \<noteq> None) xs)"
  have "live w = ?g (take k cs) @ ?g (drop (Suc k) cs)"
    using assms(1) by (subst (asm) cs) (simp add: live_def)
  moreover have "live w' = ?g (take k cs) @ c # ?g (drop (Suc k) cs)"
    using assms(6) cs' by (simp add: live_def)
  ultimately show "distinct (live w')" "set (live w') = insert c (set (live w))"
    using assms(2,5) by auto
qed

text \<open>The team found has the name, and is one of the teams.\<close>

lemma find_team_range: "find_team name i ts = ERROR \<or> (i \<le> find_team name i ts \<and> find_team name i ts < i + int (length ts))"
  by (induction name i ts rule: find_team.induct) auto

lemma team_id_range:
  assumes "wf_world w" "0 \<le> m_game_get_team_id name w"
  shows "nat (m_game_get_team_id name w) < length (teams w)" "m_game_get_team_id name w < team_count w"
proof -
  have len: "int (length (teams w)) = team_count w" using assms(1) by (simp add: wf_world_def wf_teams_def)
  then have "m_game_get_team_id name w = find_team name 0 (teams w)"
    by (simp add: m_game_get_team_id_def len [symmetric])
  with find_team_range [of name 0 "teams w"] assms(2) len
  show "nat (m_game_get_team_id name w) < length (teams w)" "m_game_get_team_id name w < team_count w"
    by auto
qed

lemma direction_of_range: "direction_of (int n mod 4) \<in> {NORTH, EAST, SOUTH, WEST}"
  by (simp add: direction_of_def)

lemma start_pos_eq:
  assumes "0 < map_x w" "0 < map_y w"
  shows "m_game_get_start_pos w = Inr (
    \<lparr>pos_x = int (rnd w (rnd_pos w)) mod map_x w, pos_y = int (rnd w (rnd_pos w + 1)) mod map_y w\<rparr>,
    direction_of (int (rnd w (rnd_pos w + 2)) mod 4), w\<lparr>rnd_pos := rnd_pos w + 3\<rparr>)"
  using assms by (simp add: m_game_get_start_pos_def rand_def c_rem_nonneg)

definition team_with :: "int \<Rightarrow> team \<Rightarrow> team" where
  "team_with fd t = t\<lparr>tm_players := (tm_players t)[nat (tm_current_players t) := fd],
     tm_current_players := tm_current_players t + 1\<rparr>"

text \<open>The player as it enters the world.\<close>

definition start_player :: "world \<Rightarrow> int \<Rightarrow> int \<Rightarrow> u64 \<Rightarrow> player" where
  "start_player w fd team now = (new_player fd team)
     \<lparr>p_pos := \<lparr>pos_x = int (rnd w (rnd_pos w)) mod map_x w, pos_y = int (rnd w (rnd_pos w + 1)) mod map_y w\<rparr>,
      p_dir := direction_of (int (rnd w (rnd_pos w + 2)) mod 4),
      p_die_time := now + word_of_int (LIFE_UNIT w * START_LIFE_UNITS w), p_start_time := now\<rparr>"

text \<open>
  The world after the login: the client is in slot \<open>k\<close>, \<open>h\<close> and \<open>ts\<close> are players and tiles.
\<close>

definition entered :: "world \<Rightarrow> int \<Rightarrow> int \<Rightarrow> ptr list \<Rightarrow> nat \<Rightarrow> (nat \<rightharpoonup> player) \<Rightarrow> tile list \<Rightarrow> world" where
  "entered w fd t cs k h ts =
     w\<lparr>clients := Some (cs[k := Some (next_addr w + 1)]),
       teams := (teams w)[nat t := team_with fd (teams w ! nat t)],
       pheap := h, tiles := ts,
       cheap := (cheap w)(next_addr w + 1 \<mapsto> new_client fd (Some (next_addr w))),
       next_addr := next_addr w + 2, rnd_pos := rnd_pos w + 3\<rparr>"

lemma entered_fields [simp]:
  "clients (entered w fd t cs k h ts) = Some (cs[k := Some (next_addr w + 1)])"
  "teams (entered w fd t cs k h ts) = (teams w)[nat t := team_with fd (teams w ! nat t)]"
  "pheap (entered w fd t cs k h ts) = h" "tiles (entered w fd t cs k h ts) = ts"
  "cheap (entered w fd t cs k h ts) = (cheap w)(next_addr w + 1 \<mapsto> new_client fd (Some (next_addr w)))"
  "next_addr (entered w fd t cs k h ts) = next_addr w + 2" "oheap (entered w fd t cs k h ts) = oheap w"
  "map_x (entered w fd t cs k h ts) = map_x w" "map_y (entered w fd t cs k h ts) = map_y w"
  "client_count (entered w fd t cs k h ts) = client_count w"
  "team_count (entered w fd t cs k h ts) = team_count w"
  "s_event_buffer (entered w fd t cs k h ts) = s_event_buffer w" "m_ctx (entered w fd t cs k h ts) = m_ctx w"
  "m_time (entered w fd t cs k h ts) = m_time w"
  "command_delays (entered w fd t cs k h ts) = command_delays w"
  "list_heap (entered w fd t cs k h ts) = list_heap w" "m_clients (entered w fd t cs k h ts) = m_clients w"
  "m_max_fd (entered w fd t cs k h ts) = m_max_fd w" "out (entered w fd t cs k h ts) = out w"
  by (simp_all add: entered_def)

lemma register_run:
  assumes wf: "wf_world w" and id: "m_game_get_team_id name w = t" "0 \<le> t"
    and room: "tm_current_players (teams w ! nat t) < tm_max_players (teams w ! nat t)"
    and now: "m_time w = Some tm"
  defines "a \<equiv> next_addr w"
  obtains cs k h ts occ where
    "clients w = Some cs" "k < length cs" "cs ! k = None" "tile_rep occ w" "placed occ w"
    "game_register_player fd name w = Inr (SUCCESS, entered w fd t cs k h ts)"
    "same_cores ((pheap w)(a \<mapsto> start_player w fd t (current_time_units tm))) h"
    "map tile_core ts = map tile_core (tiles w)"
    "tile_rep (occ(tile_no w (p_pos (start_player w fd t 0)) := a # occ (tile_no w (p_pos (start_player w fd t 0)))))
       (w\<lparr>pheap := h, tiles := ts\<rparr>)"
proof -
  have geo: "geometry w" using wf by (simp add: wf_world_def wf_map_def)
  then have dims: "0 < map_x w" "0 < map_y w" by (simp_all add: geometry_def)
  have fresh: "pheap w a = None" "cheap w a = None" "cheap w (a + 1) = None"
    using wf unfolding wf_world_def wf_rest_def a_def by (meson less_irrefl not_add_less1)+
  let ?q = "\<lparr>pos_x = int (rnd w (rnd_pos w)) mod map_x w, pos_y = int (rnd w (rnd_pos w + 1)) mod map_y w\<rparr>"
  let ?d = "direction_of (int (rnd w (rnd_pos w + 2)) mod 4)"
  have q: "in_map w ?q" using dims by (simp add: in_map_def)
  let ?i = "tile_no w ?q"
  let ?pl = "(new_player fd t)\<lparr>p_pos := ?q, p_dir := ?d\<rparr>"
  let ?cl = "new_client fd (Some a)"
  let ?w2 = "w\<lparr>pheap := (pheap w)(a \<mapsto> new_player fd t), cheap := (cheap w)(a + 1 \<mapsto> ?cl), next_addr := a + 2\<rparr>"
  let ?w4 = "?w2\<lparr>rnd_pos := rnd_pos w + 3, pheap := (pheap w)(a \<mapsto> ?pl)\<rparr>"
  obtain occ where occ: "tile_rep occ w" "placed occ w" using wf by (rule wf_occ)
  have off: "a \<notin> set (occ j)" if "j < length (tiles w)" for j
    using tile_repD(3) [OF occ(1) that, of a] fresh(1) by auto
  have rep4: "tile_rep occ ?w4"
    using tile_rep_upd_off [OF occ(1), of a "Some ?pl"] off
      tile_rep_fields [of ?w4 "w\<lparr>pheap := (pheap w)(a \<mapsto> ?pl)\<rparr>"] by simp
  have geo4: "geometry ?w4" using geo geometry_fields [of ?w4 w] by simp
  have i: "?i < length (tiles ?w4)" using tile_no_less [OF geo q] by simp
  have tpos: "t_pos (tiles ?w4 ! ?i) = ?q" using t_pos_tile_no [OF geo q] by simp
  have same_pl: "?pl\<lparr>p_pos := t_pos (tiles ?w4 ! ?i)\<rparr> = ?pl" unfolding tpos by simp
  have "pheap ?w4 a = Some ?pl" by simp
  from add_rep [OF rep4 this i geo4] off obtain w5 where w5:
    "m_game_add_player_to_tile (int ?i) (Some a) ?w4 = Inr (SUCCESS, w5)"
    "relinked ((pheap ?w4)(a \<mapsto> ?pl)) ?w4 w5" "tile_rep (occ(?i := a # occ ?i)) w5"
    unfolding same_pl by auto
  from w5(2) obtain h5 ts where e: "w5 = ?w4\<lparr>pheap := h5, tiles := ts\<rparr>" "same_cores ((pheap w)(a \<mapsto> ?pl)) h5"
    "map tile_core ts = map tile_core (tiles w)"
    by (elim relinkedE) auto
  obtain pl5 where pl5: "h5 a = Some pl5" "core pl5 = core ?pl"
    using same_coresD [OF e(2), of a ?pl] by auto
  let ?now = "current_time_units tm"
  let ?pl6 = "pl5\<lparr>p_die_time := ?now + word_of_int (TIME_TO_DIE w5), p_start_time := ?now\<rparr>"
  let ?h = "h5(a \<mapsto> ?pl6)"
  let ?w6 = "w5\<lparr>pheap := ?h\<rparr>"
  let ?t = "teams w ! nat t"
  let ?w7 = "?w6\<lparr>teams := (teams w)[nat t := team_with fd ?t]\<rparr>"
  have tid: "p_team_id pl5 = t" "p_id pl5 = fd"
    using coreD(1,2) [OF pl5(2)] by (simp_all add: new_player_def)
  have tlen: "nat t < length (teams w)" using team_id_range(1) [OF wf, of name] id by simp
  have "tm_current_players ?t = int (card (members w (int (nat t))))" "int (length (tm_players ?t)) = 2 * tm_max_players ?t"
    using wf tlen unfolding wf_world_def wf_teams_def Let_def by blast+
  then have bound: "0 \<le> tm_current_players ?t" "tm_current_players ?t < int (length (tm_players ?t))"
    using room by linarith+
  have w7: "m_team_add_player_to_team (Some a) ?w6 = Inr (SUCCESS, ?w7)"
    using tid id(2) tlen bound room e(1)
    by (simp add: m_team_add_player_to_team_def get_player_def deref_Some get_team_def upd_team_def team_with_def)
  obtain cs where cs: "clients w = Some cs" "int (length cs) = client_count w"
    using wf by (rule roster_clients) blast
  have "None \<in> set cs" using free_slot [OF wf tlen room cs(1)] .
  from fill_slot_spec [of ?w7 cs 0 "length cs" "Some (a + 1)"] this cs(1) e(1)
  obtain k where k: "k < length cs" "cs ! k = None"
    "fill_slot (Some (a + 1)) (length cs) 0 ?w7 = Inr (SUCCESS, ?w7\<lparr>clients := Some (cs[k := Some (a + 1)])\<rparr>)"
    by auto
  let ?w8 = "?w7\<lparr>clients := Some (cs[k := Some (a + 1)])\<rparr>"
  have "nat (client_count ?w7) = length cs" using cs(2) e(1) by simp
  then have w8: "m_add_client_to_server (Some (a + 1)) ?w7 = Inr (SUCCESS, ?w8)"
    using k(3) by (simp add: m_add_client_to_server_def)
  have MAP4: "MAP (pos_x ?q) (pos_y ?q) ?w4 = int ?i"
    using int_tile_no [OF geo q] by (simp add: MAP_def)
  have full: "TEAM_IS_FULL t w = Inr False"
    using id(2) tlen room by (simp add: TEAM_IS_FULL_def get_team_def)
  have start: "m_game_get_start_pos ?w2 = Inr (?q, ?d, ?w2\<lparr>rnd_pos := rnd_pos w + 3\<rparr>)"
    using start_pos_eq [of ?w2] dims by simp
  have mall: "malloc_player (new_player fd t) w = (Some a, w\<lparr>pheap := (pheap w)(a \<mapsto> new_player fd t), next_addr := a + 1\<rparr>)"
    "malloc_client (new_client fd (Some a)) (w\<lparr>pheap := (pheap w)(a \<mapsto> new_player fd t), next_addr := a + 1\<rparr>) = (Some (a + 1), ?w2)"
    by (simp_all add: malloc_player_def malloc_client_def a_def)
  have up4: "upd_player (Some a) (\<lambda>pl. pl\<lparr>p_pos := ?q, p_dir := ?d\<rparr>) (?w2\<lparr>rnd_pos := rnd_pos w + 3\<rparr>) = Inr ?w4"
    by (simp add: upd_player_def update_ref_Some)
  have up6: "upd_player (Some a) (\<lambda>pl. pl\<lparr>p_die_time := ?now + word_of_int (TIME_TO_DIE w5), p_start_time := ?now\<rparr>) w5 = Inr ?w6"
    using pl5(1) e(1) by (simp add: upd_player_def update_ref_Some)
  have time5: "m_time w5 = Some tm" using now e(1) by simp
  have run: "game_register_player fd name w = Inr (SUCCESS, ?w8)"
    unfolding game_register_player_def Let_def id(1)
    by (simp only: linorder_not_less [THEN iffD2, OF id(2)] full if_False and_then_Inr prod.case option.case mall start up4 MAP4 w5(1) up6 w7 w8 time5)
  have final: "?w8 = entered w fd t cs k ?h ts"
    using e(1) by (simp add: entered_def a_def)
  have ttd: "TIME_TO_DIE w5 = LIFE_UNIT w * START_LIFE_UNITS w" using e(1) by (simp add: TIME_TO_DIE_def)
  have "core ?pl6 = core (start_player w fd t ?now)"
    using pl5(2) unfolding ttd start_player_def by (cases pl5) (simp add: core_def new_player_def)
  then have cores: "same_cores ((pheap w)(a \<mapsto> start_player w fd t ?now)) ?h"
    using e(2) by (auto simp: same_cores_def)
  have sp: "p_pos (start_player w fd t 0) = ?q" by (simp add: start_player_def)
  have rep: "tile_rep (occ(?i := a # occ ?i)) (w\<lparr>pheap := ?h, tiles := ts\<rparr>)"
  proof -
    have "dseg ?h None (t_players (ts ! j)) ((occ(?i := a # occ ?i)) j) None"
      if j: "j < length ts" for j
    proof -
      have "dseg h5 None (t_players (ts ! j)) ((occ(?i := a # occ ?i)) j) None"
        using tile_repD(1) [OF w5(3), of j] j e(1) by simp
      then show ?thesis by (rule dseg_frame) (simp add: pl5(1) links_def)
    qed
    moreover have "distinct ((occ(?i := a # occ ?i)) j)" if "j < length ts" for j
      using tile_repD(2) [OF w5(3), of j] that e(1) by simp
    moreover have "\<exists>r. ?h b = Some r \<and> p_pos r = t_pos (ts ! j)" if "j < length ts" "b \<in> set ((occ(?i := a # occ ?i)) j)" for j b
      using tile_repD(3) [OF w5(3), of j b] that e(1) pl5(1) by auto
    ultimately show ?thesis by (simp add: tile_rep_def del: fun_upd_apply)
  qed
  show thesis
    by (rule that [OF cs(1) k(1,2) occ run [unfolded final] cores e(3)]) (use rep in \<open>simp only: sp\<close>)
qed


section \<open>The invariant after a login\<close>

text \<open>What the login leaves, as \<open>register_run\<close> gives it, for a descriptor not logged in.\<close>

definition joining :: "world \<Rightarrow> int \<Rightarrow> int \<Rightarrow> player \<Rightarrow> ptr list \<Rightarrow> nat \<Rightarrow> (nat \<rightharpoonup> player) \<Rightarrow> tile list \<Rightarrow>
    (nat \<Rightarrow> nat list) \<Rightarrow> bool" where
  "joining w fd t pl cs k h ts occ \<longleftrightarrow> wf_world w \<and>
     (\<forall>c cl. cheap w c = Some cl \<longrightarrow> c_socket_fd cl \<noteq> fd) \<and> 0 \<le> fd \<and> fd \<le> m_max_fd w \<and>
     0 \<le> t \<and> nat t < length (teams w) \<and>
     tm_current_players (teams w ! nat t) < tm_max_players (teams w ! nat t) \<and>
     p_id pl = fd \<and> p_team_id pl = t \<and> player_values pl \<and> in_map w (p_pos pl) \<and>
     clients w = Some cs \<and> k < length cs \<and> cs ! k = None \<and> tile_rep occ w \<and> placed occ w \<and>
     same_cores ((pheap w)(next_addr w \<mapsto> pl)) h \<and> map tile_core ts = map tile_core (tiles w) \<and>
     tile_rep (occ(tile_no w (p_pos pl) := next_addr w # occ (tile_no w (p_pos pl))))
       (w\<lparr>pheap := h, tiles := ts\<rparr>)"

lemma joiningD:
  assumes "joining w fd t pl cs k h ts occ"
  shows "wf_world w" "cheap w c = Some cl \<Longrightarrow> c_socket_fd cl \<noteq> fd" "0 \<le> fd" "fd \<le> m_max_fd w"
    "0 \<le> t" "nat t < length (teams w)"
    "tm_current_players (teams w ! nat t) < tm_max_players (teams w ! nat t)"
    "p_id pl = fd" "p_team_id pl = t" "player_values pl" "in_map w (p_pos pl)"
    "clients w = Some cs" "k < length cs" "cs ! k = None" "tile_rep occ w" "placed occ w"
    "same_cores ((pheap w)(next_addr w \<mapsto> pl)) h" "map tile_core ts = map tile_core (tiles w)"
    "tile_rep (occ(tile_no w (p_pos pl) := next_addr w # occ (tile_no w (p_pos pl))))
       (w\<lparr>pheap := h, tiles := ts\<rparr>)"
  using assms by (auto simp: joining_def)

lemma unused_addr:
  assumes "wf_world w"
  shows "pheap w (next_addr w + n) = None" "cheap w (next_addr w + n) = None"
  using assms unfolding wf_world_def wf_rest_def by (meson not_add_less1)+

lemma joined_player:
  assumes j: "joining w fd t pl cs k h ts occ" and r: "h b = Some r"
  shows "(b = next_addr w \<and> core r = core pl) \<or> (\<exists>r0. pheap w b = Some r0 \<and> core r = core r0 \<and> b \<noteq> next_addr w)"
  using same_cores_back [OF joiningD(17) [OF j] r] by (auto split: if_splits)

lemma joined_new:
  assumes j: "joining w fd t pl cs k h ts occ"
  shows "\<exists>r. h (next_addr w) = Some r \<and> core r = core pl"
  using same_coresD [OF joiningD(17) [OF j], of "next_addr w" pl] by simp

lemma joined_old:
  assumes j: "joining w fd t pl cs k h ts occ" and r: "pheap w b = Some r"
  shows "\<exists>r'. h b = Some r' \<and> core r' = core r" "b \<noteq> next_addr w"
proof -
  show new: "b \<noteq> next_addr w" using r unused_addr(1) [OF joiningD(1) [OF j], of 0] by auto
  with r have "((pheap w)(next_addr w \<mapsto> pl)) b = Some r" by simp
  from same_coresD [OF joiningD(17) [OF j] this] show "\<exists>r'. h b = Some r' \<and> core r' = core r" .
qed

lemma joined_map:
  assumes j: "joining w fd t pl cs k h ts occ"
  shows "wf_map (entered w fd t cs k h ts)"
proof -
  let ?w' = "entered w fd t cs k h ts" and ?i = "tile_no w (p_pos pl)" and ?a = "next_addr w"
  let ?occ = "occ(?i := ?a # occ ?i)"
  have same: "in_map ?w' = in_map w" "tile_no ?w' = tile_no w"
    by (simp_all add: fun_eq_iff in_map_def tile_no_def MAP_def)
  have "tile_rep ?occ ?w'"
    using joiningD(19) [OF j] by (rule tile_rep_fields [THEN iffD1, rotated 2]) simp_all
  moreover have "geometry ?w'"
    using joiningD(1) [OF j] geometry_cong [of ?w' w] joiningD(18) [OF j]
    by (simp add: wf_world_def wf_map_def)
  moreover have "placed ?occ ?w'"
    unfolding placed_def same
  proof (intro allI impI)
    fix b r
    assume "pheap ?w' b = Some r"
    then have "h b = Some r" by simp
    with joined_player [OF j] consider "b = ?a" "core r = core pl"
      | r0 where "pheap w b = Some r0" "core r = core r0" by blast
    then show "in_map w (p_pos r) \<and> b \<in> set (?occ (tile_no w (p_pos r)))"
    proof cases
      case 1
      then show ?thesis using coreD(4) [OF 1(2)] joiningD(11) [OF j] by simp
    next
      case 2
      then have "in_map w (p_pos r0)" "b \<in> set (occ (tile_no w (p_pos r0)))"
        using joiningD(16) [OF j] by (simp_all add: placed_def)
      then show ?thesis
        using coreD(4) [OF 2(2)] by (cases "tile_no w (p_pos r0) = ?i") simp_all
    qed
  qed
  ultimately show ?thesis by (auto simp: wf_map_def)
qed

lemma joined_roster:
  assumes j: "joining w fd t pl cs k h ts occ"
  shows "wf_roster (entered w fd t cs k h ts)" (is "wf_roster ?w'")
  unfolding wf_roster_def
proof (intro conjI allI impI)
  let ?a = "next_addr w"
  note wf = joiningD(1) [OF j]
  have r: "wf_roster w" using wf by (simp add: wf_world_def)
  then have dl: "distinct (live w)" "dom (cheap w) = set (live w)" by (simp_all add: wf_roster_def)
  have new: "?a + 1 \<notin> set (live w)" using unused_addr(2) [OF wf, of 1] dl(2) by auto
  have "clients ?w' = Some (cs[k := Some (?a + 1)])" by simp
  note live = live_fill [OF joiningD(12) [OF j] dl(1) joiningD(13,14) [OF j] new this]
  show "clients ?w' \<noteq> None" by simp
  show "int (length (the (clients ?w'))) = client_count ?w'"
    using r joiningD(12) [OF j] by (simp add: wf_roster_def)
  show "distinct (live ?w')" by (rule live(1))
  show "dom (cheap ?w') = set (live ?w')" unfolding live(2) using dl(2) by simp
next
  fix b cl
  assume "cheap ?w' b = Some cl"
  then have "cl = new_client fd (Some (next_addr w)) \<or> cheap w b = Some cl"
    by (cases "b = next_addr w + 1") simp_all
  then consider "cl = new_client fd (Some (next_addr w))" | "cheap w b = Some cl" by blast
  then show "client_ok ?w' cl"
  proof cases
    case 1
    then show ?thesis
      using joined_new [OF j] joiningD(8) [OF j] by (auto simp: client_ok_def new_client_def dest: coreD(1))
  next
    case 2
    then obtain pa q where q: "c_player cl = Some pa" "pheap w pa = Some q" "p_id q = c_socket_fd cl"
      using joiningD(1) [OF j] unfolding wf_world_def wf_roster_def client_ok_def by blast
    then show ?thesis using joined_old(1) [OF j q(2)] by (auto simp: client_ok_def dest: coreD(1))
  qed
next
  fix b b' d d'
  assume h: "cheap ?w' b = Some d" "cheap ?w' b' = Some d'" "c_player d = c_player d' \<or> c_socket_fd d = c_socket_fd d'"
  have old: "c_socket_fd e \<noteq> fd \<and> c_player e \<noteq> Some (next_addr w)" if e: "cheap w x = Some e" for x e
  proof -
    obtain pa q where "c_player e = Some pa" "pheap w pa = Some q"
      using e joiningD(1) [OF j] unfolding wf_world_def wf_roster_def client_ok_def by blast
    then show ?thesis using joined_old(2) [OF j] joiningD(2) [OF j e] by auto
  qed
  show "b = b'"
    using h old [of b d] old [of b' d'] unique_client [OF joiningD(1) [OF j], of b d b' d']
    by (auto simp: new_client_def split: if_splits)
next
  fix pa
  assume "pheap ?w' pa \<noteq> None"
  then obtain r where "h pa = Some r" by auto
  with joined_player [OF j] consider "pa = next_addr w" | r0 where "pheap w pa = Some r0" by blast
  then show "\<exists>b d. cheap ?w' b = Some d \<and> c_player d = Some pa"
  proof cases
    case 1
    then show ?thesis 
      by (intro exI [of _ "next_addr w + 1"] exI [of _ "new_client fd (Some (next_addr w))"])
        (simp add: new_client_def)
  next
    case 2
    then obtain b d where d: "cheap w b = Some d" "c_player d = Some pa"
      using owner_of_player [OF joiningD(1) [OF j]] by metis
    then have "b \<noteq> next_addr w + 1" using unused_addr(2) [OF joiningD(1) [OF j], of 1] by auto
    with d show ?thesis by (intro exI [of _ b] exI [of _ d]) simp
  qed
qed

lemma joined_members:
  assumes j: "joining w fd t pl cs k h ts occ"
  shows "members (entered w fd t cs k h ts) i = (if i = t then insert (next_addr w) (members w i) else members w i)"
proof (rule set_eqI)
  fix b
  have "b \<in> members (entered w fd t cs k h ts) i \<longleftrightarrow> (b = next_addr w \<and> i = t) \<or> b \<in> members w i"
  proof
    assume "b \<in> members (entered w fd t cs k h ts) i"
    then obtain r where "h b = Some r" "p_team_id r = i" by (auto simp: members_def)
    with joined_player [OF j, of b r] joiningD(9) [OF j] show "(b = next_addr w \<and> i = t) \<or> b \<in> members w i"
      by (auto simp: members_def dest: coreD(2))
  next
    assume "(b = next_addr w \<and> i = t) \<or> b \<in> members w i"
    then show "b \<in> members (entered w fd t cs k h ts) i"
      using joined_new [OF j] joined_old(1) [OF j, of b] joiningD(9) [OF j]
      by (fastforce simp: members_def dest: coreD(2))
  qed
  then show "b \<in> members (entered w fd t cs k h ts) i \<longleftrightarrow>
    b \<in> (if i = t then insert (next_addr w) (members w i) else members w i)" by auto
qed

lemma joined_teams:
  assumes j: "joining w fd t pl cs k h ts occ"
  shows "wf_teams (entered w fd t cs k h ts)" (is "wf_teams ?w'")
  unfolding wf_teams_def Let_def
proof (intro conjI allI impI)
  note wf = joiningD(1) [OF j]
  have wt: "wf_teams w" using wf by (simp add: wf_world_def)
  show "int (length (teams ?w')) = team_count ?w'" using wt by (simp add: wf_teams_def)
  show "sum_list (map tm_max_players (teams ?w')) \<le> client_count ?w'"
    using wt sum_list_same_max [OF joiningD(6) [OF j]] by (simp add: wf_teams_def team_with_def)
  fix i
  assume "i < length (teams ?w')"
  then have i: "i < length (teams w)" by simp
  have wi: "tm_current_players (teams w ! i) = int (card (members w (int i)))"
    "tm_current_players (teams w ! i) \<le> tm_max_players (teams w ! i)"
    "int (length (tm_players (teams w ! i))) = 2 * tm_max_players (teams w ! i)"
    using wt i unfolding wf_teams_def Let_def by blast+
  have eq: "int i = t \<longleftrightarrow> i = nat t" using joiningD(5) [OF j] by auto
  have "next_addr w \<notin> members w (int i)" using unused_addr(1) [OF wf, of 0] by (auto simp: members_def)
  then have card: "card (insert (next_addr w) (members w (int i))) = Suc (card (members w (int i)))"
    using members_finite [OF wf] by simp
  show "tm_current_players (teams ?w' ! i) = int (card (members ?w' (int i)))"
    unfolding joined_members [OF j] eq using wi(1) i card by (cases "i = nat t") (simp_all add: team_with_def)
  show "tm_current_players (teams ?w' ! i) \<le> tm_max_players (teams ?w' ! i)"
    "int (length (tm_players (teams ?w' ! i))) = 2 * tm_max_players (teams ?w' ! i)"
    using wi i joiningD(7) [OF j] by (cases "i = nat t", simp_all add: team_with_def)+
next
  fix pa r
  assume "pheap ?w' pa = Some r"
  then have "h pa = Some r" by simp
  have wt: "wf_teams w" using joiningD(1) [OF j] by (simp add: wf_world_def)
  have lt: "t < team_count w" using wt joiningD(5,6) [OF j] by (simp add: wf_teams_def nat_less_iff)
  from joined_player [OF j \<open>h pa = Some r\<close>]
  have "0 \<le> p_team_id r \<and> p_team_id r < team_count w"
    using wt lt joiningD(5,9) [OF j] by (auto simp: wf_teams_def dest: coreD(2))
  then show "0 \<le> p_team_id r" "p_team_id r < team_count ?w'" by simp_all
qed

lemma empty_buffer_wf: "wf_buffer (empty_buffer None)" "pending (empty_buffer None) = []"
  by (simp_all add: wf_buffer_def pending_def empty_buffer_def)

lemma joined_values:
  assumes j: "joining w fd t pl cs k h ts occ"
  shows "wf_values (entered w fd t cs k h ts)" (is "wf_values ?w'")
  unfolding wf_values_def
proof (intro conjI allI impI ballI)
  note wf = joiningD(1) [OF j]
  fix b r
  assume "pheap ?w' b = Some r"
  then have "h b = Some r" by simp
  from joined_player [OF j this] show "player_values r"
    using wf_values_player [OF wf] joiningD(10) [OF j] by (auto simp: player_values_def dest: coreD(3,6))
next
  note wf = joiningD(1) [OF j]
  fix T
  assume "T \<in> set (tiles ?w')"
  then obtain n where n: "n < length (tiles w)" "ts ! n = T"
    using tile_coreD(1) [OF joiningD(18) [OF j]] by (auto simp: in_set_conv_nth)
  then have "t_items T = t_items (tiles w ! n)" using tile_coreD(3) [OF joiningD(18) [OF j]] by auto
  then show "items_nonneg (t_items T)" using wf_values_tile [OF wf nth_mem [OF n(1)]] by simp
qed

lemma joined_rest:
  assumes j: "joining w fd t pl cs k h ts occ"
  shows "wf_rest (entered w fd t cs k h ts)" (is "wf_rest ?w'")
proof -
  have r: "wf_rest w" using joiningD(1) [OF j] by (simp add: wf_world_def)
  then have lim: "pheap w b \<noteq> None \<or> cheap w b \<noteq> None \<or> list_heap w b \<noteq> None \<Longrightarrow> b < next_addr w" for b
    unfolding wf_rest_def by blast
  have "b < next_addr ?w'" if "pheap ?w' b \<noteq> None \<or> cheap ?w' b \<noteq> None \<or> list_heap ?w' b \<noteq> None" for b
  proof -
    have "h b \<noteq> None \<or> b = next_addr w + 1 \<or> cheap w b \<noteq> None \<or> list_heap w b \<noteq> None"
      using that by (cases "b = next_addr w + 1") simp_all
    then consider r where "h b = Some r" | "b = next_addr w + 1" | "cheap w b \<noteq> None" | "list_heap w b \<noteq> None"
      by blast
    then show ?thesis
    proof cases
      case 1
      from joined_player [OF j this] lim [of b] show ?thesis by auto
    qed (use lim [of b] in auto)
  qed
  moreover have "0 \<le> c_socket_fd d \<and> c_socket_fd d \<le> m_max_fd ?w'" if "cheap ?w' b = Some d" for b d
  proof (cases "cheap w b = Some d")
    case True
    then show ?thesis using r by (auto simp: wf_rest_def)
  next
    case False
    then have "d = new_client fd (Some (next_addr w))" using that by (auto split: if_splits)
    then show ?thesis using joiningD(3,4) [OF j] by (simp add: new_client_def)
  qed
  moreover have "\<forall>b. oheap w b \<noteq> None \<longrightarrow> b < next_addr w + 2" using r by (auto simp: wf_rest_def)
  ultimately show ?thesis using r by (simp add: wf_rest_def)
qed

lemma joined_ok:
  assumes j: "joining w fd t pl cs k h ts occ"
  shows "wf_world (entered w fd t cs k h ts)"
proof -
  have w: "wf_buffers w" "wf_server_buffer w" using joiningD(1) [OF j] by (simp_all add: wf_world_def)
  have "wf_buffers (entered w fd t cs k h ts)"
    using w(1) empty_buffer_wf by (auto simp: wf_buffers_def client_buffer_def new_client_def)
  moreover have "wf_server_buffer (entered w fd t cs k h ts)" using w(2) by (simp add: wf_server_buffer_def)
  ultimately show ?thesis
    using joined_map [OF j] joined_roster [OF j] joined_teams [OF j] joined_values [OF j] joined_rest [OF j]
    by (simp add: wf_world_def)
qed

text \<open>A login either changes nothing or is \<open>entered\<close>.\<close>

lemma register_ok:
  assumes wf: "wf_world w" and new: "\<And>c cl. cheap w c = Some cl \<Longrightarrow> c_socket_fd cl \<noteq> fd"
    and fd: "0 \<le> fd" "fd \<le> m_max_fd w"
  shows "\<exists>r w'. game_register_player fd name w = Inr (r, w') \<and> wf_world w' \<and>
    (r = SUCCESS \<or> w' = w) \<and> client_count w' = client_count w \<and> m_max_fd w' = m_max_fd w \<and>
    oheap w' = oheap w"
proof -
  let ?t = "m_game_get_team_id name w"
  consider "?t < 0" | "0 \<le> ?t" "\<not> tm_current_players (teams w ! nat ?t) < tm_max_players (teams w ! nat ?t)"
    | "0 \<le> ?t" "tm_current_players (teams w ! nat ?t) < tm_max_players (teams w ! nat ?t)" by linarith
  then show ?thesis
  proof cases
    case 1
    then show ?thesis using wf by (simp add: game_register_player_def Let_def)
  next
    case 2
    then have "TEAM_IS_FULL ?t w = Inr True"
      using team_id_range(1) [OF wf 2(1)] by (simp add: TEAM_IS_FULL_def get_team_def)
    then show ?thesis using wf 2(1) by (simp add: game_register_player_def Let_def)
  next
    case 3
    obtain tm where tm: "m_time w = Some tm" using wf_clock [OF wf] by blast
    have dims: "0 < map_x w" "0 < map_y w" using wf by (simp_all add: wf_world_def wf_map_def geometry_def)
    let ?pl = "start_player w fd ?t (current_time_units tm)"
    have pos: "p_pos (start_player w fd ?t 0) = p_pos ?pl" by (simp add: start_player_def)
    have pl: "player_values ?pl" "in_map w (p_pos ?pl)" "p_id ?pl = fd" "p_team_id ?pl = ?t"
      using dims by (simp_all add: start_player_def new_player_def player_values_def items_nonneg_def
          empty_inventory_def in_map_def)
    show ?thesis
      using wf refl 3 tm
    proof (rule register_run)
      fix cs k h ts occ
      assume run: "game_register_player fd name w = Inr (SUCCESS, entered w fd ?t cs k h ts)"
        and rest: "clients w = Some cs" "k < length cs" "cs ! k = None" "tile_rep occ w" "placed occ w"
          "same_cores ((pheap w)(next_addr w \<mapsto> ?pl)) h" "map tile_core ts = map tile_core (tiles w)"
          "tile_rep (occ(tile_no w (p_pos (start_player w fd ?t 0)) :=
             next_addr w # occ (tile_no w (p_pos (start_player w fd ?t 0))))) (w\<lparr>pheap := h, tiles := ts\<rparr>)"
      have "joining w fd ?t ?pl cs k h ts occ"
        unfolding joining_def using wf new fd 3 team_id_range(1) [OF wf 3(1)] rest pl unfolding pos by blast
      with run joined_ok [OF this] show ?thesis by simp
    qed
  qed
qed

end
