(* ===== verification/Session.thy ===== *)
theory Session
  imports Deaths Joins
begin

text \<open>
  Whole runs of the game: a turn (\<open>game_play\<close>), the start (\<open>game_init\<close>) and the shutdown
  (\<open>game_clean\<close>), and the states reachable from the start by logins, commands, kills, turns
  and the passing of time (\<open>game_step\<close>). Every reachable state satisfies \<open>wf_world\<close>, and
  no operation on a reachable state touches memory it does not own: what is left is a loop
  that does not end (\<open>Out_Of_Fuel\<close>).
\<close>

section \<open>Out of food or not\<close>

text \<open>The player after eating one unit.\<close>

definition ate :: "world \<Rightarrow> player \<Rightarrow> player" where
  "ate w pl = pl\<lparr>p_inv := item_add NOURRITURE (- 1) (p_inv pl), p_die_time := p_die_time pl + word_of_int (LIFE_UNIT w)\<rparr>"

lemma die_fed:
  assumes wf: "wf_world w" and cl: "cheap w c = Some cl" "c_player cl = Some a" and pl: "pheap w a = Some pl"
    and fed: "0 < nourriture (p_inv pl)"
  shows "game_player_die fuel (Some c) w = Inr (SUCCESS, w\<lparr>pheap := (pheap w)(a \<mapsto> ate w pl)\<rparr>)"
    "wf_world (w\<lparr>pheap := (pheap w)(a \<mapsto> ate w pl)\<rparr>)" "keeps w (w\<lparr>pheap := (pheap w)(a \<mapsto> ate w pl)\<rparr>)"
proof -
  show "game_player_die fuel (Some c) w = Inr (SUCCESS, w\<lparr>pheap := (pheap w)(a \<mapsto> ate w pl)\<rparr>)"
    using cl pl fed by (simp add: game_player_die_def get_client_def deref_Some get_player_eq upd_player_eq ate_def)
  have "player_values (ate w pl)"
    using wf_values_player [OF wf pl] fed by (simp add: player_values_def items_nonneg_def ate_def)
  then show "wf_world (w\<lparr>pheap := (pheap w)(a \<mapsto> ate w pl)\<rparr>)" "keeps w (w\<lparr>pheap := (pheap w)(a \<mapsto> ate w pl)\<rparr>)"
    using wf_upd_player [OF wf pl, of "ate w pl"] by (simp_all add: ident_def place_def links_def ate_def)
qed

lemma client_player:
  assumes "wf_world w" "cheap w c = Some cl"
  obtains a pl where "c_player cl = Some a" "pheap w a = Some pl" "p_id pl = c_socket_fd cl"
  using assms unfolding wf_world_def wf_roster_def client_ok_def by blast

lemma die_any:
  assumes wf: "wf_world w" and cl: "cheap w c = Some cl" and fuel: "nat (client_count w) \<le> fuel"
  shows "\<exists>w'. game_player_die fuel (Some c) w = Inr (SUCCESS, w') \<and> wf_world w' \<and> fewer w w'"
  using wf cl
proof (rule client_player)
  fix a pl
  assume a: "c_player cl = Some a" "pheap w a = Some pl"
  show ?thesis
  proof (cases "0 < nourriture (p_inv pl)")
    case True
    from die_fed [OF wf cl a True] show ?thesis by (auto intro: keeps_fewer)
  next
    case False
    then have "nourriture (p_inv pl) \<le> 0" by simp
    from die_ok [OF wf cl a this fuel] show ?thesis by blast
  qed
qed

section \<open>A turn\<close>

lemma play_client_ok:
  assumes wf: "wf_world w" and fuel: "nat (client_count w) \<le> fuel" and i: "0 \<le> i" "i < client_count w"
  shows "play_client fuel now i (b, w) = Inl Out_Of_Fuel \<or>
    (\<exists>b' w'. play_client fuel now i (b, w) = Inr (b', w') \<and> wf_world w' \<and> fewer w w')"
proof -
  obtain cs where cs: "clients w = Some cs" "int (length cs) = client_count w"
    "\<And>c. Some c \<in> set cs \<longleftrightarrow> (\<exists>cl. cheap w c = Some cl)"
    using wf by (rule roster_clients) blast
  have n: "nat i < length cs" using i cs(2) by linarith
  have slot: "get_slot i w = Inr (cs ! nat i)" using cs(1) n i by (simp add: get_slot_def)
  show ?thesis
  proof (cases "cs ! nat i")
    case None
    with slot wf show ?thesis by (simp add: play_client_def)
  next
    case (Some c)
    then obtain cl where cl: "cheap w c = Some cl" using cs(3) nth_mem [OF n] by metis
    obtain a pl where a: "c_player cl = Some a" "pheap w a = Some pl" using wf cl by (rule client_player)
    have eq: "play_client fuel now i (b, w) =
        (if \<not> p_die_time pl > now then and_then (game_player_die fuel (Some c) w) (\<lambda>(r, w1). Inr (b, w1))
         else if CLIENT_HAS_ACTIONS cl now then and_then (process_client fuel (Some c) w) (\<lambda>(r, w1). Inr (True, w1))
         else Inr (b, w))"
      using slot Some cl a
      by (simp add: play_client_def PLAYER_IS_ALIVE_def get_client_def deref_Some get_player_eq)
    show ?thesis
    proof (cases "p_die_time pl > now")
      case False
      from die_any [OF wf cl fuel] False show ?thesis unfolding eq by auto
    next
      case True
      show ?thesis
      proof (cases "CLIENT_HAS_ACTIONS cl now")
        case False
        with True wf show ?thesis unfolding eq by simp
      next
        case act: True
        from process_client_ok [OF wf cl fuel] show ?thesis
          unfolding eq using True act by (auto dest: keeps_fewer)
      qed
    qed
  qed
qed

lemma play_loop_ok:
  assumes "wf_world w" "nat (client_count w) \<le> fuel" "\<And>i. i \<in> set is \<Longrightarrow> 0 \<le> i \<and> i < client_count w"
  shows "for_each is (play_client fuel now) (b, w) = Inl Out_Of_Fuel \<or>
    (\<exists>b' w'. for_each is (play_client fuel now) (b, w) = Inr (b', w') \<and> wf_world w' \<and>
       fewer w w')"
  using assms
proof (induction "is" arbitrary: b w)
  case Nil
  then show ?case by simp
next
  case (Cons i "is")
  have i: "0 \<le> i" "i < client_count w" using Cons.prems(3) by simp_all
  from play_client_ok [OF Cons.prems(1,2) i, of now b] show ?case
  proof
    assume "\<exists>b' w'. play_client fuel now i (b, w) = Inr (b', w') \<and> wf_world w' \<and> fewer w w'"
    then obtain b1 w1 where w1: "play_client fuel now i (b, w) = Inr (b1, w1)" "wf_world w1"
      "fewer w w1" by blast
    have "nat (client_count w1) \<le> fuel" "\<And>j. j \<in> set is \<Longrightarrow> 0 \<le> j \<and> j < client_count w1"
      using fewer_count [OF w1(3)] Cons.prems(2,3) by simp_all
    from Cons.IH [OF w1(2) this, of b1] w1(1,3) fewer_trans show ?thesis by auto
  qed simp
qed

lemma play_ok:
  assumes wf: "wf_world w" and fuel: "nat (client_count w) \<le> fuel"
  shows "game_play fuel w = Inl Out_Of_Fuel \<or>
    (\<exists>r w'. game_play fuel w = Inr (r, w') \<and> wf_world w' \<and> fewer w w')"
proof -
  obtain tm where tm: "m_time w = Some tm" using wf_clock [OF wf] by blast
  let ?is = "map int [0..<nat (client_count w)]"
  have "\<And>i. i \<in> set ?is \<Longrightarrow> 0 \<le> i \<and> i < client_count w" by auto
  from play_loop_ok [where now = "current_time_units tm" and b = False, OF wf fuel this] show ?thesis
  proof
    assume "\<exists>b' w'. for_each ?is (play_client fuel (current_time_units tm)) (False, w) = Inr (b', w') \<and>
      wf_world w' \<and> fewer w w'"
    then obtain b1 w1 where w1: "for_each ?is (play_client fuel (current_time_units tm)) (False, w) = Inr (b1, w1)"
      "wf_world w1" "fewer w w1" by blast
    from process_server_ok [OF w1(2), of fuel] w1 tm fewer_trans [OF w1(3)] show ?thesis
      by (auto simp: game_play_def)
  next
    assume "for_each ?is (play_client fuel (current_time_units tm)) (False, w) = Inl Out_Of_Fuel"
    then show ?thesis by (simp add: game_play_def tm)
  qed
qed

section \<open>The start\<close>

text \<open>The tile numbered \<open>n\<close> after its initialisation.\<close>

definition tile_ready :: "int \<Rightarrow> nat \<Rightarrow> tile \<Rightarrow> bool" where
  "tile_ready W n T \<longleftrightarrow> t_pos T = \<lparr>pos_x = int n mod W, pos_y = int n div W\<rparr> \<and> t_players T = None \<and>
     items_nonneg (t_items T)"

lemma init_tile_ok:
  assumes i: "0 \<le> i" "i < map_x w" "0 \<le> j" "j < map_y w" and len: "int (length (tiles w)) = map_x w * map_y w"
  shows "init_tile fuel dst (i, j) w = Inl Out_Of_Fuel \<or>
    (\<exists>T n. init_tile fuel dst (i, j) w = Inr (w\<lparr>tiles := (tiles w)[nat (MAP i j w) := T], rnd_pos := n\<rparr>) \<and>
       tile_ready (map_x w) (nat (MAP i j w)) T)"
proof -
  have m: "0 \<le> MAP i j w" "MAP i j w < map_x w * map_y w"
  proof -
    have "(j + 1) * map_x w \<le> map_y w * map_x w" using i by (intro mult_right_mono) auto
    then show "MAP i j w < map_x w * map_y w" using i by (simp add: MAP_def algebra_simps)
    show "0 \<le> MAP i j w" using i by (simp add: MAP_def)
  qed
  define n where "n = nat (MAP i j w)"
  have n: "n < length (tiles w)" "int n = MAP i j w" using m len by (simp_all add: n_def)
  have pos: "int n mod map_x w = i" "int n div map_x w = j" using i unfolding n(2) MAP_def by auto
  let ?T1 = "(tiles w ! n)\<lparr>t_pos := \<lparr>pos_x = i, pos_y = j\<rparr>, t_players := None\<rparr>"
  let ?w1 = "w\<lparr>tiles := (tiles w)[n := ?T1]\<rparr>"
  have run: "init_tile fuel dst (i, j) w = and_then (random_inventory fuel dst ?w1)
      (\<lambda>(inv, w2). upd_tile (int n) (\<lambda>T. T\<lparr>t_items := inv\<rparr>) w2)"
    using n by (simp add: init_tile_def Let_def upd_tile_def n(2) [symmetric])
  from random_inventory_draws [of ?w1 fuel dst] consider "random_inventory fuel dst ?w1 = Inl Out_Of_Fuel"
    | inv k where "random_inventory fuel dst ?w1 = Inr (inv, ?w1\<lparr>rnd_pos := k\<rparr>)" "items_nonneg inv"
    unfolding draws_def by blast
  then show ?thesis
  proof cases
    case 1
    then show ?thesis by (simp add: run)
  next
    case 2
    have "init_tile fuel dst (i, j) w = Inr (w\<lparr>tiles := (tiles w)[n := ?T1\<lparr>t_items := inv\<rparr>], rnd_pos := k\<rparr>)"
      using 2(1) n(1) by (simp add: run upd_tile_def)
    moreover have "tile_ready (map_x w) n (?T1\<lparr>t_items := inv\<rparr>)"
      using 2(2) pos by (simp add: tile_ready_def)
    ultimately show ?thesis unfolding n_def [symmetric] by blast
  qed
qed

lemma init_loop_ok:
  assumes "\<And>i j. (i, j) \<in> set ps \<Longrightarrow> 0 \<le> i \<and> i < map_x w \<and> 0 \<le> j \<and> j < map_y w"
    and "int (length (tiles w)) = map_x w * map_y w"
  shows "for_each ps (init_tile fuel dst) w = Inl Out_Of_Fuel \<or>
    (\<exists>ts n. for_each ps (init_tile fuel dst) w = Inr (w\<lparr>tiles := ts, rnd_pos := n\<rparr>) \<and> length ts = length (tiles w) \<and>
       (\<forall>k < length ts. int k \<in> (\<lambda>(i, j). MAP i j w) ` set ps \<or> tile_ready (map_x w) k (tiles w ! k) \<longrightarrow>
          tile_ready (map_x w) k (ts ! k)))"
  using assms
proof (induction ps arbitrary: w)
  case Nil
  then show ?case by (auto intro!: exI [of _ "tiles w"] exI [of _ "rnd_pos w"])
next
  case (Cons p ps)
  obtain i j where p: "p = (i, j)" by (cases p)
  have ij: "0 \<le> i" "i < map_x w" "0 \<le> j" "j < map_y w" using Cons.prems(1) [of i j] p by simp_all
  from init_tile_ok [OF ij Cons.prems(2), of fuel dst] show ?case
  proof
    assume "\<exists>T n. init_tile fuel dst (i, j) w = Inr (w\<lparr>tiles := (tiles w)[nat (MAP i j w) := T], rnd_pos := n\<rparr>) \<and>
       tile_ready (map_x w) (nat (MAP i j w)) T"
    then obtain T n where T: "init_tile fuel dst (i, j) w = Inr (w\<lparr>tiles := (tiles w)[nat (MAP i j w) := T], rnd_pos := n\<rparr>)"
      "tile_ready (map_x w) (nat (MAP i j w)) T" by blast
    let ?w1 = "w\<lparr>tiles := (tiles w)[nat (MAP i j w) := T], rnd_pos := n\<rparr>"
    have MAP: "MAP x y ?w1 = MAP x y w" for x y by (simp add: MAP_def)
    have pre: "\<And>i j. (i, j) \<in> set ps \<Longrightarrow> 0 \<le> i \<and> i < map_x ?w1 \<and> 0 \<le> j \<and> j < map_y ?w1"
      "int (length (tiles ?w1)) = map_x ?w1 * map_y ?w1"
      using Cons.prems(1) [OF list.set_intros(2)] Cons.prems(2) by simp_all
    from Cons.IH [OF pre] show ?case
    proof
      assume "for_each ps (init_tile fuel dst) ?w1 = Inl Out_Of_Fuel"
      then show ?case using T(1) p by simp
    next
      assume "\<exists>ts n. for_each ps (init_tile fuel dst) ?w1 = Inr (?w1\<lparr>tiles := ts, rnd_pos := n\<rparr>) \<and>
         length ts = length (tiles ?w1) \<and>
         (\<forall>k < length ts. int k \<in> (\<lambda>(i, j). MAP i j ?w1) ` set ps \<or> tile_ready (map_x ?w1) k (tiles ?w1 ! k) \<longrightarrow>
            tile_ready (map_x ?w1) k (ts ! k))"
      then obtain ts m where ts: "for_each ps (init_tile fuel dst) ?w1 = Inr (?w1\<lparr>tiles := ts, rnd_pos := m\<rparr>)"
        "length ts = length (tiles ?w1)"
        "\<forall>k < length ts. int k \<in> (\<lambda>(i, j). MAP i j ?w1) ` set ps \<or> tile_ready (map_x ?w1) k (tiles ?w1 ! k) \<longrightarrow>
            tile_ready (map_x ?w1) k (ts ! k)" by blast
      have "tile_ready (map_x w) k (ts ! k)"
        if k: "k < length ts" "int k \<in> (\<lambda>(i, j). MAP i j w) ` set (p # ps) \<or> tile_ready (map_x w) k (tiles w ! k)" for k
      proof -
        have "int k = MAP i j w \<or> int k \<in> (\<lambda>(i, j). MAP i j w) ` set ps \<or> tile_ready (map_x w) k (tiles w ! k)"
          using k(2) unfolding p list.set(2) image_insert by simp
        then consider "int k = MAP i j w" | "int k \<in> (\<lambda>(i, j). MAP i j w) ` set ps"
          | "int k \<noteq> MAP i j w" "tile_ready (map_x w) k (tiles w ! k)" by blast
        then have "int k \<in> (\<lambda>(i, j). MAP i j ?w1) ` set ps \<or> tile_ready (map_x ?w1) k (tiles ?w1 ! k)"
        proof cases
          case 1
          then have "nat (MAP i j w) = k" by simp
          then show ?thesis using T(2) k(1) ts(2) by simp
        next
          case 2
          then show ?thesis by (simp add: MAP)
        next
          case 3
          then have "nat (MAP i j w) \<noteq> k \<or> k \<ge> length (tiles w)" using ij by (auto simp: MAP_def)
          then show ?thesis using 3 k(1) ts(2) by auto
        qed
        then show ?thesis using ts(3) [rule_format, OF k(1)] by simp
      qed
      moreover have "for_each (p # ps) (init_tile fuel dst) w = Inr (w\<lparr>tiles := ts, rnd_pos := m\<rparr>)"
        using T(1) ts(1) p by simp
      moreover have "length ts = length (tiles w)" using ts(2) by simp
      ultimately show ?case by blast
    qed
  qed (simp add: p)
qed


text \<open>The process before \<open>game_init\<close>: nothing allocated, nothing pending, the clock running.\<close>

definition booted :: "world \<Rightarrow> bool" where
  "booted w \<longleftrightarrow> pheap w = Map.empty \<and> cheap w = Map.empty \<and> list_heap w = Map.empty \<and> oheap w = Map.empty \<and>
     m_clients w = None \<and> m_time w \<noteq> None \<and> s_event_buffer w = empty_buffer None \<and> next_idx (m_ctx w) = 0 \<and>
     m_max_fd w < 1024"

definition config_ok :: "game_config \<Rightarrow> int \<Rightarrow> int \<Rightarrow> string list \<Rightarrow> int \<Rightarrow> int \<Rightarrow> bool" where
  "config_ok cfg width height names nb_clients nb_teams \<longleftrightarrow>
     0 < width \<and> 0 < height \<and> 0 < nb_teams \<and> nb_teams \<le> nb_clients \<and> nb_teams \<le> int (length names) \<and>
     length (g_delays cfg) = 12"

lemma pairs_cover:
  assumes "0 < W" "0 < H" "k < nat (W * H)" "map_x w = W"
  shows "int k \<in> (\<lambda>(i, j). MAP i j w) ` set (concat (map (\<lambda>i. map (\<lambda>j. (int i, int j)) [0..<nat H]) [0..<nat W]))"
proof -
  have r: "0 \<le> int k mod W" "int k mod W < W" "0 \<le> int k div W"
    using assms by (simp_all add: pos_imp_zdiv_nonneg_iff)
  have "int k < W * H" using assms by linarith
  moreover have "int k div W * W \<le> int k"
    using div_mult_mod_eq [of "int k" W] pos_mod_sign [OF assms(1), of "int k"] by linarith
  ultimately have "int k div W * W < H * W" by (simp add: mult.commute)
  then have "int k div W < H" using assms(1) by (simp add: mult_less_cancel_right)
  with r have "(int k mod W, int k div W) \<in> set (concat (map (\<lambda>i. map (\<lambda>j. (int i, int j)) [0..<nat H]) [0..<nat W]))"
    by (auto intro!: bexI [of _ "nat (int k mod W)"] image_eqI [of _ _ "nat (int k div W)"])
  moreover have "MAP (int k mod W) (int k div W) w = int k" using assms(4) by (simp add: MAP_def)
  ultimately show ?thesis by (intro image_eqI [of _ _ "(int k mod W, int k div W)"]) simp_all
qed

lemma traverse_teams:
  assumes "n \<le> length names" "c_div c t = Inr q"
  shows "traverse (\<lambda>i. and_then (arr_get names (int i)) (\<lambda>name. and_then (c_div c t)
      (\<lambda>n. Inr (m_game_init_team name n)))) [0..<n] = Inr (map (\<lambda>i. m_game_init_team (names ! i) q) [0..<n])"
  using assms by (intro traverse_map) auto

lemma teams_start:
  assumes "0 < nb_teams" "0 \<le> nb_clients"
  shows "sum_list (map tm_max_players (map (\<lambda>i. m_game_init_team (names ! i) (nb_clients div nb_teams)) [0..<nat nb_teams]))
    \<le> nb_clients"
proof -
  have "sum_list (map tm_max_players (map (\<lambda>i. m_game_init_team (names ! i) q) [0..<n])) = int n * q" for n q
    by (induction n) (simp_all add: m_game_init_team_def algebra_simps)
  moreover have "nb_teams * (nb_clients div nb_teams) \<le> nb_clients"
    using assms by (metis mult.commute div_mult_mod_eq le_add_same_cancel1 pos_mod_sign)
  ultimately show ?thesis using assms(1) by simp
qed


lemma start_map:
  assumes "0 < map_x w" "0 < map_y w" "int (length (tiles w)) = map_x w * map_y w" "pheap w = Map.empty"
    and ready: "\<And>k. k < length (tiles w) \<Longrightarrow> tile_ready (map_x w) k (tiles w ! k)"
  shows "wf_map w" "T \<in> set (tiles w) \<Longrightarrow> items_nonneg (t_items T)"
proof -
  have "geometry w" using assms by (simp add: geometry_def tile_ready_def)
  moreover have "tile_rep (\<lambda>_. []) w" using ready by (simp add: tile_rep_def tile_ready_def)
  moreover have "placed (\<lambda>_. []) w" using assms(4) by (simp add: placed_def)
  ultimately show "wf_map w" by (auto simp: wf_map_def)
  assume "T \<in> set (tiles w)"
  then obtain k where "k < length (tiles w)" "tiles w ! k = T" by (auto simp: in_set_conv_nth)
  with ready show "items_nonneg (t_items T)" by (auto simp: tile_ready_def)
qed

text \<open>The first event of the server, when resources respawn.\<close>

lemma first_event:
  assumes "m_time w = Some t" "s_event_buffer w = empty_buffer None"
  shows "wf_buffer (snd (time_api_schedule_client_event None (m_time w) (s_event_buffer w) d (Some Spawn_Resources) None None))"
    "\<forall>e \<in> set (pending (snd (time_api_schedule_client_event None (m_time w) (s_event_buffer w) d (Some Spawn_Resources) None None))).
       spawn_event e"
proof -
  have "eb_count (empty_buffer None :: game_buffer) < 10" by (simp add: empty_buffer_def)
  then show "wf_buffer (snd (time_api_schedule_client_event None (m_time w) (s_event_buffer w) d (Some Spawn_Resources) None None))"
    "\<forall>e \<in> set (pending (snd (time_api_schedule_client_event None (m_time w) (s_event_buffer w) d (Some Spawn_Resources) None None))).
       spawn_event e"
    using assms empty_buffer_wf
    by (simp_all add: schedule_eq [where tm = t] pick_api_def wf_push_back pending_push_back spawn_event_def)
qed

lemma start_ok:
  assumes boot: "booted w" and cfg: "config_ok cfg width height names nb_clients nb_teams"
  shows "game_init fuel cfg width height names nb_clients nb_teams w = Inl Out_Of_Fuel \<or>
    (\<exists>w'. game_init fuel cfg width height names nb_clients nb_teams w = Inr (SUCCESS, w') \<and> wf_world w' \<and>
       client_count w' = nb_clients \<and> live w' = [] \<and> team_count w' = nb_teams \<and> map_x w' = width \<and> map_y w' = height)"
proof -
  note c = cfg [unfolded config_ok_def]
  let ?w1 = "w\<lparr>command_delays := (g_delays cfg)[9 := 0], m_incantation_time := g_delays cfg ! 9,
    map_x := width, map_y := height, tiles := replicate (nat (width * height)) zero_tile,
    LIFE_UNIT := g_life_unit cfg, START_LIFE_UNITS := g_start_life_units cfg\<rparr>"
  let ?ps = "concat (map (\<lambda>i. map (\<lambda>j. (int i, int j)) [0..<nat height]) [0..<nat width])"
  let ?q = "nb_clients div nb_teams"
  let ?ts = "map (\<lambda>i. m_game_init_team (names ! i) ?q) [0..<nat nb_teams]"
  have pre: "\<And>i j. (i, j) \<in> set ?ps \<Longrightarrow> 0 \<le> i \<and> i < map_x ?w1 \<and> 0 \<le> j \<and> j < map_y ?w1"
    "int (length (tiles ?w1)) = map_x ?w1 * map_y ?w1"
    using c by auto
  have q: "c_div nb_clients nb_teams = Inr ?q" "0 \<le> ?q"
    using c by (simp_all add: c_div_nonneg pos_imp_zdiv_nonneg_iff)
  have tr: "traverse (\<lambda>i. and_then (arr_get names (int i)) (\<lambda>name. and_then (c_div nb_clients nb_teams)
      (\<lambda>n. Inr (m_game_init_team name n)))) [0..<nat nb_teams] = Inr ?ts"
    using c q(1) by (intro traverse_teams) auto
  from init_loop_ok [where fuel = fuel and dst = "g_density cfg", OF pre] show ?thesis
  proof
    assume "for_each ?ps (init_tile fuel (g_density cfg)) ?w1 = Inl Out_Of_Fuel"
    then show ?thesis by (simp add: game_init_def game_init_map_def Let_def)
  next
    assume "\<exists>ts n. for_each ?ps (init_tile fuel (g_density cfg)) ?w1 = Inr (?w1\<lparr>tiles := ts, rnd_pos := n\<rparr>) \<and>
      length ts = length (tiles ?w1) \<and>
      (\<forall>k < length ts. int k \<in> (\<lambda>(i, j). MAP i j ?w1) ` set ?ps \<or> tile_ready (map_x ?w1) k (tiles ?w1 ! k) \<longrightarrow>
          tile_ready (map_x ?w1) k (ts ! k))"
    then obtain ts n where ts: "for_each ?ps (init_tile fuel (g_density cfg)) ?w1 = Inr (?w1\<lparr>tiles := ts, rnd_pos := n\<rparr>)"
      "length ts = nat (width * height)"
      "\<And>k. k < length ts \<Longrightarrow> int k \<in> (\<lambda>(i, j). MAP i j ?w1) ` set ?ps \<Longrightarrow> tile_ready width k (ts ! k)"
      by auto
    have ready: "tile_ready width k (ts ! k)" if "k < length ts" for k
      using ts(3) [OF that pairs_cover] that ts(2) c by simp
    define w4 where "w4 = (?w1\<lparr>tiles := ts, rnd_pos := n\<rparr>)\<lparr>clients := Some (replicate (nat nb_clients) None),
      client_count := nb_clients, team_count := nb_teams, teams := ?ts, m_ctx := (g_respawn cfg)\<lparr>next_idx := 0\<rparr>\<rparr>"
    define b where "b = (if g_respawn_on cfg then snd (time_api_schedule_client_event None (m_time w4) (s_event_buffer w4)
      (period (m_ctx w4)) (Some Spawn_Resources) None None) else s_event_buffer w4)"
    have "game_init fuel cfg width height names nb_clients nb_teams w = Inr (SUCCESS, w4\<lparr>s_event_buffer := b\<rparr>)"
      using ts(1) tr boot
      by (simp add: game_init_def game_init_map_def Let_def booted_def w4_def b_def case_prod_unfold)
    moreover have "wf_world (w4\<lparr>s_event_buffer := b\<rparr>)"
    proof -
      let ?w5 = "w4\<lparr>s_event_buffer := b\<rparr>"
      have empty: "pheap ?w5 = Map.empty" "cheap ?w5 = Map.empty" "list_heap ?w5 = Map.empty" "m_clients ?w5 = None"
        using boot by (simp_all add: w4_def booted_def)
      have map: "map_x ?w5 = width" "map_y ?w5 = height" "tiles ?w5 = ts" by (simp_all add: w4_def)
      have "wf_map ?w5" "\<forall>T \<in> set (tiles ?w5). items_nonneg (t_items T)"
        using start_map [of ?w5] c ts(2) ready empty(1) unfolding map by simp_all
      moreover have "wf_roster ?w5" using c empty by (simp add: wf_roster_def live_def w4_def)
      moreover have "wf_teams ?w5"
      proof -
        have "members ?w5 i = {}" for i using empty(1) by (simp add: members_def)
        moreover have "sum_list (map tm_max_players ?ts) \<le> nb_clients" using teams_start [of nb_teams nb_clients names] c by simp
        ultimately show ?thesis
          using c q(2) empty(1) by (simp add: wf_teams_def Let_def w4_def m_game_init_team_def)
      qed
      moreover have "wf_server_buffer ?w5"
      proof -
        obtain t where "m_time w4 = Some t" "s_event_buffer w4 = empty_buffer None"
          using boot by (auto simp: w4_def booted_def)
        then have "wf_buffer b \<and> (\<forall>e \<in> set (pending b). spawn_event e)"
          using first_event [of w4 t] empty_buffer_wf by (simp add: b_def)
        then show ?thesis by (simp add: wf_server_buffer_def w4_def)
      qed
      moreover have "wf_rest ?w5"
        using boot c empty by (auto simp: wf_rest_def w4_def booted_def intro!: exI [of _ "[]"])
      ultimately show ?thesis
        using empty by (simp add: wf_world_def wf_values_def wf_buffers_def)
    qed
    moreover have "live (w4\<lparr>s_event_buffer := b\<rparr>) = []" by (simp add: live_def w4_def)
    ultimately show ?thesis by (auto simp: w4_def)
  qed
qed

section \<open>Shutdown\<close>

text \<open>Clients and players belong to each other, and the clients are \<open>xs\<close>.\<close>

definition paired :: "(nat \<rightharpoonup> player) \<Rightarrow> (nat \<rightharpoonup> client) \<Rightarrow> nat list \<Rightarrow> bool" where
  "paired h ch xs \<longleftrightarrow> distinct xs \<and> dom ch = set xs \<and>
     (\<forall>c cl. ch c = Some cl \<longrightarrow> (\<exists>a. c_player cl = Some a \<and> h a \<noteq> None)) \<and>
     (\<forall>c c' cl cl'. ch c = Some cl \<longrightarrow> ch c' = Some cl' \<longrightarrow> c_player cl = c_player cl' \<longrightarrow> c = c') \<and>
     (\<forall>a. h a \<noteq> None \<longrightarrow> (\<exists>c cl. ch c = Some cl \<and> c_player cl = Some a))"

lemma paired_drop:
  assumes p: "paired h ch (c # xs)" and cl: "ch c = Some cl" "c_player cl = Some a"
  shows "paired (h(a := None)) (ch(c := None)) xs"
proof -
  have d: "distinct xs" "c \<notin> set xs" "dom ch = insert c (set xs)" using p by (simp_all add: paired_def)
  have owns: "\<exists>a. c_player cl = Some a \<and> h a \<noteq> None" if "ch c = Some cl" for c cl
    using p that by (simp add: paired_def)
  have uniq: "c = c'" if "ch c = Some cl" "ch c' = Some cl'" "c_player cl = c_player cl'" for c c' cl cl'
    using p that unfolding paired_def by blast
  have owned: "\<exists>c cl. ch c = Some cl \<and> c_player cl = Some a" if "h a \<noteq> None" for a
    using p that unfolding paired_def by blast
  have "dom (ch(c := None)) = set xs" using d by auto
  moreover have "\<exists>b. c_player cl' = Some b \<and> (h(a := None)) b \<noteq> None" if c': "(ch(c := None)) c' = Some cl'" for c' cl'
  proof -
    have "ch c' = Some cl'" "c' \<noteq> c" using c' by (auto split: if_splits)
    then obtain b where b: "c_player cl' = Some b" "h b \<noteq> None" using owns by blast
    have "b \<noteq> a" using uniq [of c' cl' c cl] \<open>ch c' = Some cl'\<close> \<open>c' \<noteq> c\<close> b(1) cl by auto
    with b show ?thesis by (intro exI [of _ b]) simp
  qed
  moreover have "\<exists>c' cl'. (ch(c := None)) c' = Some cl' \<and> c_player cl' = Some b" if b: "(h(a := None)) b \<noteq> None" for b
  proof -
    have "h b \<noteq> None" "b \<noteq> a" using b by (auto split: if_splits)
    then obtain c' cl' where "ch c' = Some cl'" "c_player cl' = Some b" "c' \<noteq> c"
      using owned cl by (metis option.inject)
    then show ?thesis by (intro exI [of _ c'] exI [of _ cl']) simp
  qed
  moreover have "c1 = c2" if "(ch(c := None)) c1 = Some d1" "(ch(c := None)) c2 = Some d2" "c_player d1 = c_player d2"
    for c1 c2 d1 d2
    using that uniq [of c1 d1 c2 d2] by (auto split: if_splits)
  ultimately show ?thesis using d(1) unfolding paired_def by blast
qed

lemma clean_clients_ok:
  assumes "clients w = Some cs" "i + n = length cs"
    and "paired (pheap w) (cheap w) (map the (filter (\<lambda>c. c \<noteq> None) (drop i cs)))"
  shows "clean_clients n (int i) w = Inr (w\<lparr>pheap := Map.empty, cheap := Map.empty\<rparr>)"
  using assms
proof (induction n arbitrary: i w)
  case 0
  then have "cheap w = Map.empty" by (simp add: paired_def)
  moreover from this have "pheap w = Map.empty" using 0(3) by (auto simp: paired_def)
  ultimately show ?case by simp
next
  case (Suc n)
  have i: "i < length cs" using Suc.prems(2) by simp
  have slot: "get_slot (int i) w = Inr (cs ! i)" using Suc.prems(1) i by (simp add: get_slot_def)
  have next_i: "int i + 1 = int (Suc i)" by simp
  have drop: "drop i cs = cs ! i # drop (Suc i) cs" using i by (rule Cons_nth_drop_Suc [symmetric])
  show ?case
  proof (cases "cs ! i")
    case None
    with Suc.prems slot drop Suc.IH [of w "Suc i"] show ?thesis
      unfolding clean_clients.simps next_i by simp
  next
    case (Some c)
    have p: "paired (pheap w) (cheap w) (c # map the (filter (\<lambda>c. c \<noteq> None) (drop (Suc i) cs)))"
      using Suc.prems(3) drop Some by simp
    then have "c \<in> dom (cheap w)" unfolding paired_def by simp
    then obtain cl where cl: "cheap w c = Some cl" by blast
    with p obtain a pl where a: "c_player cl = Some a" "pheap w a = Some pl" unfolding paired_def by blast
    let ?w1 = "w\<lparr>pheap := (pheap w)(a := None), cheap := (cheap w)(c := None)\<rparr>"
    have "clean_clients (Suc n) (int i) w = clean_clients n (int (Suc i)) ?w1"
      unfolding clean_clients.simps next_i
      using slot Some cl a by (simp add: get_client_def deref_Some free_player_def free_client_def)
    also have "\<dots> = Inr (?w1\<lparr>pheap := Map.empty, cheap := Map.empty\<rparr>)"
      using Suc.prems paired_drop [OF p cl a(1)] by (intro Suc.IH) (simp_all del: fun_upd_apply)
    finally show ?thesis by simp
  qed
qed

lemma clean_ok:
  assumes wf: "wf_world w"
  shows "game_clean w = Inr (w\<lparr>pheap := Map.empty, cheap := Map.empty, clients := None, teams := [], tiles := []\<rparr>)"
proof -
  obtain cs where cs: "clients w = Some cs" "int (length cs) = client_count w"
    using wf by (rule roster_clients) blast
  have r: "wf_roster w" using wf by (simp add: wf_world_def)
  then have "paired (pheap w) (cheap w) (live w)"
    unfolding wf_roster_def paired_def client_ok_def by blast
  then have "clean_clients (length cs) (int 0) w = Inr (w\<lparr>pheap := Map.empty, cheap := Map.empty\<rparr>)"
    using cs(1) by (intro clean_clients_ok) (simp_all add: live_def)
  moreover have "nat (client_count w) = length cs" using cs(2) by simp
  ultimately show ?thesis by (simp add: game_clean_def)
qed

section \<open>Runs\<close>

text \<open>
  What happens to the game between two looks at it: a login on a descriptor that is open and not
  logged in, the login of an observer, a command, a kill, a turn; the clock moves, a connection raises \<open>m_max_fd\<close>, and
  the list of clients to remove is worked off.
\<close>

inductive game_step :: "nat \<Rightarrow> world \<Rightarrow> world \<Rightarrow> bool" for fuel where
  login: "\<lbrakk>\<forall>c cl. cheap w c = Some cl \<longrightarrow> c_socket_fd cl \<noteq> fd; 0 \<le> fd; fd \<le> m_max_fd w;
     game_register_player fd name w = Inr (r, w')\<rbrakk> \<Longrightarrow> game_step fuel w w'"
| command: "game_execute_command fd cmd arg w = Inr (r, w') \<Longrightarrow> game_step fuel w w'"
| observe: "game_register_observer fd w = Inr (r, w') \<Longrightarrow> game_step fuel w w'"
| kill: "game_kill_player fd w = Inr (r, w') \<Longrightarrow> game_step fuel w w'"
| play: "game_play fuel w = Inr (r, w') \<Longrightarrow> game_step fuel w w'"
| clock: "game_step fuel w (w\<lparr>m_time := Some tm\<rparr>)"
| accept: "m_max_fd w \<le> fd \<Longrightarrow> fd < 1024 \<Longrightarrow> game_step fuel w (w\<lparr>m_max_fd := fd\<rparr>)"
| removed: "game_step fuel w (w\<lparr>m_clients := None, list_heap := Map.empty\<rparr>)"

inductive reachable :: "nat \<Rightarrow> world \<Rightarrow> bool" for fuel where
  start: "\<lbrakk>booted w; config_ok cfg width height names nb_clients nb_teams; nat nb_clients \<le> fuel;
     game_init fuel cfg width height names nb_clients nb_teams w = Inr (r, w')\<rbrakk> \<Longrightarrow> reachable fuel w'"
| step: "reachable fuel w \<Longrightarrow> game_step fuel w w' \<Longrightarrow> reachable fuel w'"

inductive_cases reachableE: "reachable fuel w"

lemma wf_world_rest:
  assumes wf: "wf_world w" and r: "wf_rest w'" and sb: "wf_server_buffer w'"
    and eqs: "map_x w' = map_x w" "map_y w' = map_y w" "tiles w' = tiles w" "pheap w' = pheap w"
      "cheap w' = cheap w" "clients w' = clients w" "client_count w' = client_count w"
      "teams w' = teams w" "team_count w' = team_count w"
  shows "wf_world w'"
  unfolding wf_world_def
proof (intro conjI)
  have parts: "wf_map w" "wf_roster w" "wf_teams w" "wf_values w" "wf_buffers w"
    using wf by (simp_all add: wf_world_def)
  show "wf_map w'" using parts(1) by (rule wf_map_cong) (simp_all add: eqs)
  have "client_ok w' = client_ok w" "live w' = live w" "members w' = members w"
    by (simp_all add: fun_eq_iff client_ok_def live_def members_def eqs)
  then show "wf_roster w'" "wf_teams w'"
    using parts(2,3) unfolding wf_roster_def wf_teams_def eqs by simp_all
  show "wf_values w'" "wf_buffers w'" using parts(4,5) unfolding wf_values_def wf_buffers_def eqs by simp_all
qed (rule sb r)+

lemma wf_clock_set: "wf_world w \<Longrightarrow> wf_world (w\<lparr>m_time := Some tm\<rparr>)"
  by (rule wf_world_rest [of w]) (simp_all add: wf_world_def wf_rest_def wf_server_buffer_def)

lemma register_observer_eq:
  assumes "m_time w = Some t"
  obtains b where "game_register_observer fd w = Inr (SUCCESS, w\<lparr>next_addr := next_addr w + 1,
    oheap := (oheap w)(next_addr w \<mapsto> (new_observer fd)\<lparr>o_event_buffer := b\<rparr>)\<rparr>)" "wf_buffer b"
    "pending b = [\<lparr>exec_time = current_time_units t, ev_callback = Some Send_Map_Observer,
       ev_data = Some (next_addr w), ev_arg = None\<rparr>]"
proof -
  define e :: game_event where "e = \<lparr>exec_time = current_time_units t,
    ev_callback = Some Send_Map_Observer, ev_data = Some (next_addr w), ev_arg = None\<rparr>"
  let ?b = "push_back e (empty_buffer None)"
  have "due_time t (empty_buffer None :: game_buffer) 0 = current_time_units t"
    by (simp add: due_time_def empty_buffer_def)
  then have "time_api_schedule_client_event None (m_time w) (empty_buffer None) 0 (Some Send_Map_Observer)
      (Some (next_addr w)) None = (0, ?b)"
    using assms by (subst schedule_eq [where tm = t]) (simp_all add: pick_api_def empty_buffer_def e_def)
  then have "game_register_observer fd w = Inr (SUCCESS, w\<lparr>next_addr := next_addr w + 1,
      oheap := (oheap w)(next_addr w \<mapsto> (new_observer fd)\<lparr>o_event_buffer := ?b\<rparr>)\<rparr>)"
    by (simp add: game_register_observer_def malloc_observer_def get_observer_def deref_Some
        update_ref_Some new_observer_def)
  moreover have "wf_buffer ?b" "pending ?b = [e]" by (simp_all add: wf_push_back pending_push_back)
  ultimately show thesis using that e_def by blast
qed

lemma wf_observer:
  assumes "wf_world w"
  shows "wf_world (w\<lparr>next_addr := next_addr w + 1, oheap := (oheap w)(next_addr w \<mapsto> ob)\<rparr>)"
proof (rule wf_world_rest [OF assms])
  have r: "wf_rest w" using assms by (simp add: wf_world_def)
  then have "\<forall>a. pheap w a \<noteq> None \<or> cheap w a \<noteq> None \<or> list_heap w a \<noteq> None \<longrightarrow> a < next_addr w + 1"
    "\<forall>a. oheap w a \<noteq> None \<longrightarrow> a < next_addr w + 1"
    unfolding wf_rest_def using less_SucI by (metis Suc_eq_plus1)+
  with r show "wf_rest (w\<lparr>next_addr := next_addr w + 1, oheap := (oheap w)(next_addr w \<mapsto> ob)\<rparr>)"
    by (simp add: wf_rest_def)
qed (use assms in \<open>simp_all add: wf_world_def wf_server_buffer_def\<close>)

lemma observer_ok:
  assumes "wf_world w"
  shows "\<exists>w'. game_register_observer fd w = Inr (SUCCESS, w') \<and> wf_world w' \<and>
    client_count w' = client_count w \<and> m_max_fd w' = m_max_fd w \<and> teams w' = teams w \<and> pheap w' = pheap w"
proof -
  obtain t where "m_time w = Some t" using wf_clock [OF assms] by blast
  then show ?thesis by (rule register_observer_eq [where fd = fd]) (use wf_observer [OF assms] in simp)
qed

lemma wf_max_fd:
  assumes "wf_world w" "m_max_fd w \<le> fd" "fd < 1024"
  shows "wf_world (w\<lparr>m_max_fd := fd\<rparr>)"
proof -
  have r: "wf_rest w" using assms(1) by (simp add: wf_world_def)
  have "0 \<le> c_socket_fd cl \<and> c_socket_fd cl \<le> fd" if cl: "cheap w a = Some cl" for a cl
  proof -
    have "0 \<le> c_socket_fd cl \<and> c_socket_fd cl \<le> m_max_fd w" using r cl unfolding wf_rest_def by blast
    with assms(2) show ?thesis by linarith
  qed
  then have "\<forall>a cl. cheap w a = Some cl \<longrightarrow> 0 \<le> c_socket_fd cl \<and> c_socket_fd cl \<le> fd" by blast
  moreover have "\<forall>a it. list_heap w a = Some it \<longrightarrow> 0 \<le> it_fd it \<and> it_fd it \<le> fd"
    using r assms(2) unfolding wf_rest_def by (meson order_trans)
  moreover have "m_time w \<noteq> None" "length (command_delays w) = 12" "\<exists>ns. ring (list_heap w) (m_clients w) ns"
    "\<forall>a. pheap w a \<noteq> None \<or> cheap w a \<noteq> None \<or> list_heap w a \<noteq> None \<longrightarrow> a < next_addr w"
    "\<forall>a. oheap w a \<noteq> None \<longrightarrow> a < next_addr w"
    using r unfolding wf_rest_def by blast+
  ultimately have "wf_rest (w\<lparr>m_max_fd := fd\<rparr>)"
    using assms(3) unfolding wf_rest_def by (intro conjI) simp_all
  then show ?thesis
    using assms(1) by - (rule wf_world_rest [of w], simp_all add: wf_world_def wf_server_buffer_def)
qed

lemma wf_list_done: "wf_world w \<Longrightarrow> wf_world (w\<lparr>m_clients := None, list_heap := Map.empty\<rparr>)"
  by (rule wf_world_rest [of w])
    (auto simp: wf_world_def wf_rest_def wf_server_buffer_def intro!: exI [of _ "[]"])

lemma step_ok:
  assumes "game_step fuel w w'" "wf_world w" "nat (client_count w) \<le> fuel"
  shows "wf_world w' \<and> client_count w' = client_count w"
  using assms
proof (induction rule: game_step.induct)
  case (login w fd name r w')
  then show ?case using register_ok [of w fd name] by auto
next
  case (command fd cmd arg w r w')
  then show ?case using execute_command_wf [of w fd cmd arg] by (auto dest: keeps_fields(4))
next
  case (observe fd w r w')
  then show ?case using observer_ok [of w fd] by auto
next
  case (kill fd w r w')
  then show ?case using kill_player_ok [of w fd] by (auto dest: keeps_fields(4))
next
  case (play w r w')
  then show ?case using play_ok [of w fuel] fewer_count by auto
next
  case (clock w tm)
  then show ?case by (simp add: wf_clock_set)
next
  case (accept w fd)
  then show ?case by (simp add: wf_max_fd)
next
  case (removed w)
  then show ?case by (simp add: wf_list_done)
qed

lemma reachable_ok: "reachable fuel w \<Longrightarrow> wf_world w \<and> nat (client_count w) \<le> fuel"
proof (induction rule: reachable.induct)
  case (start w cfg width height names nb_clients nb_teams r w')
  then show ?case using start_ok [of w cfg width height names nb_clients nb_teams fuel] by auto
next
  case (step w w')
  then show ?case using step_ok by metis
qed

end
