(* ===== verification/Demo.thy ===== *)
theory Demo
  imports Session
begin

text \<open>
  A small game to look at: a map of 2 by 1 tiles, two teams, four places. \<open>demo0\<close> is what
  \<open>game_init\<close> makes of the freshly booted process, \<open>demo1\<close> and \<open>demo2\<close> follow after one and
  two logins; all random numbers drawn are 0. The states satisfy the invariant by the
  theorems about \<open>game_init\<close> and \<open>game_register_player\<close>.
\<close>

definition demo_ctx :: spawn_ctx where
  "demo_ctx = \<lparr>d_nourriture = 1, d_linemate = 1, d_deraumere = 1, d_sibur = 1, d_mendiane = 1,
     d_phiras = 1, d_thystame = 1, period = 20, next_idx = 0\<rparr>"

definition demo_config :: game_config where
  "demo_config = \<lparr>g_life_unit = 126, g_start_life_units = 10, g_density = demo_ctx,
     g_delays = [7, 7, 7, 7, 1, 7, 7, 7, 7, 300, 42, 0], g_respawn = demo_ctx, g_respawn_on = False\<rparr>"

definition boot :: world where
  "boot = \<lparr>map_x = 0, map_y = 0, tiles = [], teams = [], team_count = 0, clients = None, client_count = 0,
     s_event_buffer = empty_buffer None, m_ctx = demo_ctx, LIFE_UNIT = 0, START_LIFE_UNITS = 0,
     m_incantation_time = 0, command_delays = [],
     m_time = Some \<lparr>t_divider = 1000, start_time_ms = 0, current_time_units = 100\<rparr>, pheap = Map.empty,
     cheap = Map.empty, oheap = Map.empty, next_addr = 0, rnd = (\<lambda>_. 0), rnd_pos = 0, out = [], m_max_fd = 9,
     m_read_fds = {}, m_clients = None, list_heap = Map.empty, closed = []\<rparr>"


lemma count_zero: "rnd w (rnd_pos w) = 0 \<Longrightarrow>
  m_game_random_resource_count (Suc n) lam w = Inr (0, w\<lparr>rnd_pos := rnd_pos w + 1\<rparr>)"
  by (simp add: m_game_random_resource_count_def rand_def)

lemma inventory_zero: "(\<And>k. rnd w k = 0) \<Longrightarrow>
  random_inventory (Suc n) ctx w = Inr (empty_inventory, w\<lparr>rnd_pos := rnd_pos w + 7\<rparr>)"
  by (simp add: random_inventory_def count_zero empty_inventory_def)

definition demo0 :: world where
  "demo0 = boot\<lparr>map_x := 2, map_y := 1,
     tiles := [\<lparr>t_pos = \<lparr>pos_x = 0, pos_y = 0\<rparr>, t_items = empty_inventory, t_players = None\<rparr>,
               \<lparr>t_pos = \<lparr>pos_x = 1, pos_y = 0\<rparr>, t_items = empty_inventory, t_players = None\<rparr>],
     teams := [m_game_init_team ''red'' 2, m_game_init_team ''blue'' 2], team_count := 2,
     clients := Some [None, None, None, None], client_count := 4,
     LIFE_UNIT := 126, START_LIFE_UNITS := 10, m_incantation_time := 300,
     command_delays := [7, 7, 7, 7, 1, 7, 7, 7, 7, 0, 42, 0], rnd_pos := 14\<rparr>"

lemma demo_booted: "booted boot" "config_ok demo_config 2 1 [''red'', ''blue''] 4 2"
  by (simp_all add: booted_def boot_def demo_ctx_def config_ok_def demo_config_def)

lemma upt_2: "[0..<2] = [0, 1::nat]" by (simp add: numeral_2_eq_2)

lemma upd_tile_get: "0 \<le> t \<Longrightarrow> nat t < length (tiles w) \<Longrightarrow>
  upd_tile t f w = Inr (w\<lparr>tiles := (tiles w)[nat t := f (tiles w ! nat t)]\<rparr>)"
  by (simp add: upd_tile_def arr_get_def arr_set_def)

lemma demo_init: "game_init (Suc n) demo_config 2 1 [''red'', ''blue''] 4 2 boot = Inr (SUCCESS, demo0)"
  by (simp add: game_init_def game_init_map_def Let_def upt_2 init_tile_def MAP_def inventory_zero
      demo_config_def demo_ctx_def boot_def zero_tile_def upd_tile_get c_div_nonneg demo0_def eval_nat_numeral)

lemma demo0_wf: "wf_world demo0"
  using start_ok [OF demo_booted, of "Suc 0"] demo_init [of 0] by simp


text \<open>The player of a descriptor, as it enters; both players stand on the first tile.\<close>

definition demo_player :: "int \<Rightarrow> int \<Rightarrow> player" where
  "demo_player fd team = (new_player fd team)\<lparr>p_die_time := 1360, p_start_time := 100\<rparr>"

definition demo1 :: world where
  "demo1 = demo0\<lparr>tiles := (tiles demo0)[0 := (tiles demo0 ! 0)\<lparr>t_players := Some 0\<rparr>],
     teams := [(m_game_init_team ''red'' 2)\<lparr>tm_current_players := 1, tm_players := [5, 0, 0, 0]\<rparr>,
               m_game_init_team ''blue'' 2],
     clients := Some [Some 1, None, None, None], pheap := [0 \<mapsto> demo_player 5 0],
     cheap := [1 \<mapsto> new_client 5 (Some 0)], next_addr := 2, rnd_pos := 17\<rparr>"

definition demo2 :: world where
  "demo2 = demo1\<lparr>tiles := (tiles demo0)[0 := (tiles demo0 ! 0)\<lparr>t_players := Some 2\<rparr>],
     teams := [(m_game_init_team ''red'' 2)\<lparr>tm_current_players := 1, tm_players := [5, 0, 0, 0]\<rparr>,
               (m_game_init_team ''blue'' 2)\<lparr>tm_current_players := 1, tm_players := [6, 0, 0, 0]\<rparr>],
     clients := Some [Some 1, Some 3, None, None],
     pheap := [0 \<mapsto> (demo_player 5 0)\<lparr>prev_on_tile := Some 2\<rparr>, 2 \<mapsto> (demo_player 6 1)\<lparr>next_on_tile := Some 0\<rparr>],
     cheap := [1 \<mapsto> new_client 5 (Some 0), 3 \<mapsto> new_client 6 (Some 2)], next_addr := 4, rnd_pos := 20\<rparr>"

lemmas register_simps = game_register_player_def m_game_get_team_id_def TEAM_IS_FULL_def get_team_def
  malloc_player_def malloc_client_def m_game_get_start_pos_def rand_def c_rem_nonneg direction_of_def
  upd_player_def update_ref_Some m_game_add_player_to_tile_def MAP_def get_tile_def upd_tile_get
  m_team_add_player_to_team_def get_player_def deref_Some upd_team_def m_add_client_to_server_def
  get_slot_def set_slot_def m_game_init_team_def new_player_def new_client_def TIME_TO_DIE_def

lemma demo_login1: "game_register_player 5 ''red'' demo0 = Inr (SUCCESS, demo1)"
  by (simp add: register_simps demo0_def boot_def demo1_def demo_player_def eval_nat_numeral)

lemma demo_login2: "game_register_player 6 ''blue'' demo1 = Inr (SUCCESS, demo2)"
  by (simp add: register_simps demo0_def boot_def demo1_def demo2_def demo_player_def eval_nat_numeral)

lemma demo1_wf: "wf_world demo1"
proof -
  have "cheap demo0 = Map.empty" "m_max_fd demo0 = 9" by (simp_all add: demo0_def boot_def)
  then show ?thesis using register_ok [OF demo0_wf, of 5 "''red''"] demo_login1 by simp
qed

lemma demo2_wf: "wf_world demo2"
proof -
  have c: "cheap demo1 = [1 \<mapsto> new_client 5 (Some 0)]" "m_max_fd demo1 = 9"
    by (simp_all add: demo1_def demo0_def boot_def)
  have "c_socket_fd cl \<noteq> 6" if "cheap demo1 a = Some cl" for a cl
    using that unfolding c(1) by (cases "a = 1") (auto simp: new_client_def)
  from register_ok [where name = "''blue''", OF demo1_wf this] show ?thesis using demo_login2 c(2) by simp
qed


lemma demo_clients: "cheap demo1 = [1 \<mapsto> new_client 5 (Some 0)]"
  "cheap demo2 = [1 \<mapsto> new_client 5 (Some 0), 3 \<mapsto> new_client 6 (Some 2)]"
  by (simp_all add: demo1_def demo2_def)

lemma demo2_reachable: "reachable 4 demo2"
proof -
  have "reachable 4 demo0"
    by (rule reachable.start [OF demo_booted]) (use demo_init [of 3] in \<open>simp_all add: eval_nat_numeral\<close>)
  moreover have "game_step 4 demo0 demo1"
    by (rule game_step.login [where fd = 5]) (use demo_login1 in \<open>simp_all add: demo0_def boot_def\<close>)
  moreover have "game_step 4 demo1 demo2"
    by (rule game_step.login [where fd = 6])
      (use demo_login2 in \<open>auto simp: demo_clients new_client_def demo1_def demo0_def boot_def split: if_splits\<close>)
  ultimately show ?thesis by (meson reachable.step)
qed

end
