(* ===== verification/Rules.thy ===== *)
theory Rules
  imports Demo
begin

text \<open>
  What the commands do, one by one: moving, taking and dropping, looking, shouting, expelling,
  the incantation, and the queueing of a command.
\<close>

section \<open>Moving\<close>

text \<open>
  C13: \<open>avance\<close> moves the player one tile ahead on the torus: it becomes the first of the tile in
  front, leaves the list of its old tile with the order of the others unchanged, and nothing
  else of any player or tile changes; the player gets the reply ok.
\<close>
theorem avance_moves_ahead:
  assumes "wf_world w" "tile_rep occ w" "placed occ w" "pheap w a = Some pl"
  shows "\<exists>w'. m_command_avance (Some a) arg w
      = Inr (SUCCESS, send (p_id pl) (response_json ''avance'' arg (Some ''ok'')) w') \<and>
    relinked ((pheap w)(a \<mapsto> pl\<lparr>p_pos := front_pos w pl\<rparr>)) w w' \<and>
    tile_rep (moved occ a (tile_no w (p_pos pl)) (tile_no w (front_pos w pl))) w'"
proof -
  note pos = wf_player_pos [OF assms(1,4)]
  have q: "\<lparr>pos_x = pos_x (front_pos w pl), pos_y = pos_y (front_pos w pl)\<rparr> = front_pos w pl" by simp
  from move_rep [OF pos(1) assms(2,4) pos(2) placed_member [OF assms(3,4)],
      of "pos_x (front_pos w pl)" "pos_y (front_pos w pl)", unfolded q, OF front_pos_in_map [OF pos(1,2)]]
  obtain w' where "m_game_move_player (Some a) (pos_x (front_pos w pl)) (pos_y (front_pos w pl)) w = Inr w'"
    "relinked ((pheap w)(a \<mapsto> pl\<lparr>p_pos := front_pos w pl\<rparr>)) w w'"
    "tile_rep (moved occ a (tile_no w (p_pos pl)) (tile_no w (front_pos w pl))) w'" by blast
  then show ?thesis
    using assms(4) next_pos_eq [OF pos(1,2)]
    by (intro exI [of _ w']) (simp add: m_command_avance_def get_player_eq server_create_response_to_command_def)
qed

definition demo_occ :: "nat \<Rightarrow> nat list" where
  "demo_occ i = (if i = 0 then [2, 0] else [])"

lemma demo_occ: "tile_rep demo_occ demo2" "placed demo_occ demo2"
  by (auto simp: tile_rep_def placed_def demo_occ_def demo2_def demo1_def demo0_def demo_player_def new_player_def
      in_map_def tile_no_def MAP_def less_Suc_eq eval_nat_numeral)

lemma demo_players:
  "pheap demo2 0 = Some ((demo_player 5 0)\<lparr>prev_on_tile := Some 2\<rparr>)"
  "pheap demo2 2 = Some ((demo_player 6 1)\<lparr>next_on_tile := Some 0\<rparr>)"
  by (simp_all add: demo2_def)

theorem avance_moves_ahead_witness:
  "\<exists>w'. m_command_avance (Some 0) None demo2 = Inr (SUCCESS, send 5 (response_json ''avance'' None (Some ''ok'')) w') \<and>
     tile_rep (demo_occ(0 := [0, 2])) w'"
proof -
  have "moved demo_occ 0 (tile_no demo2 (p_pos ((demo_player 5 0)\<lparr>prev_on_tile := Some 2\<rparr>)))
      (tile_no demo2 (front_pos demo2 ((demo_player 5 0)\<lparr>prev_on_tile := Some 2\<rparr>))) = demo_occ(0 := [0, 2])"
    by (simp add: moved_def Let_def fun_eq_iff demo_occ_def tile_no_def MAP_def front_pos_def demo_player_def
        new_player_def demo2_def demo1_def demo0_def)
  moreover have "p_id ((demo_player 5 0)\<lparr>prev_on_tile := Some 2\<rparr>) = 5" by (simp add: demo_player_def new_player_def)
  ultimately show ?thesis
    using avance_moves_ahead [OF demo2_wf demo_occ demo_players(1), of None] by metis
qed

text \<open>\<open>droite\<close> followed by \<open>gauche\<close> leaves the world as it was, but for the two replies.\<close>
theorem right_then_left:
  assumes "pheap w a = Some pl"
  shows "and_then (m_command_droite (Some a) x w) (\<lambda>(r, w1). m_command_gauche (Some a) y w1)
    = Inr (SUCCESS, send (p_id pl) (response_json ''gauche'' y (Some ''ok''))
        (send (p_id pl) (response_json ''droite'' x (Some ''ok'')) w))"
proof -
  have "turn_left (turn_right d) = d" for d by (cases d) simp_all
  moreover have "w\<lparr>pheap := (pheap w)(a \<mapsto> pl), out := os\<rparr> = w\<lparr>out := os\<rparr>" for os
    using assms by (simp add: fun_upd_idem)
  ultimately show ?thesis
    using assms
    by (simp add: m_command_droite_def m_command_gauche_def upd_player_eq get_player_eq
        server_create_response_to_command_def send_def)
qed

theorem right_then_left_witness:
  "and_then (m_command_droite (Some 0) None demo2) (\<lambda>(r, w1). m_command_gauche (Some 0) None w1)
    = Inr (SUCCESS, send 5 (response_json ''gauche'' None (Some ''ok''))
        (send 5 (response_json ''droite'' None (Some ''ok'')) demo2))"
  using right_then_left [OF demo_players(1), of None None] by (simp add: demo_player_def new_player_def)

section \<open>Taking and dropping\<close>

text \<open>One unit goes from the tile to the player, or back.\<close>

definition take_item :: "inventory_type \<Rightarrow> int \<Rightarrow> nat \<Rightarrow> nat \<Rightarrow> world \<Rightarrow> world" where
  "take_item ty n i a w = w\<lparr>
     tiles := (tiles w)[i := (tiles w ! i)\<lparr>t_items := item_add ty (- n) (t_items (tiles w ! i))\<rparr>],
     pheap := (pheap w)(a := map_option (\<lambda>pl. pl\<lparr>p_inv := item_add ty n (p_inv pl)\<rparr>) (pheap w a))\<rparr>"

lemma prend_eq:
  assumes "wf_world w" "pheap w a = Some pl" "find_name UNKNOWN inventory_names s = ty" "ty \<noteq> UNKNOWN"
  shows "m_command_prend (Some a) (Some s) w = Inr (SUCCESS,
    if 0 < item_count ty (t_items (tiles w ! tile_no w (p_pos pl)))
    then send (p_id pl) (response_json ''prend'' (Some s) (Some ''ok'')) (take_item ty 1 (tile_no w (p_pos pl)) a w)
    else send (p_id pl) (response_json ''prend'' (Some s) (Some ''ko'')) w)"
  using wf_player_pos [OF assms(1,2)] assms(2-4)
  by (simp add: m_command_prend_def m_helper_items_to_tiles_def get_player_eq get_tile_eq upd_tile_head
      upd_player_eq server_create_response_to_command_def take_item_def)

lemma pose_eq:
  assumes "wf_world w" "pheap w a = Some pl" "find_name UNKNOWN inventory_names s = ty" "ty \<noteq> UNKNOWN"
  shows "m_command_pose (Some a) (Some s) w = Inr (SUCCESS,
    if 0 < item_count ty (p_inv pl)
    then send (p_id pl) (response_json ''pose'' (Some s) (Some ''ok'')) (take_item ty (- 1) (tile_no w (p_pos pl)) a w)
    else send (p_id pl) (response_json ''pose'' (Some s) (Some ''ko'')) w)"
  using wf_player_pos [OF assms(1,2)] assms(2-4)
  by (simp add: m_command_pose_def m_helper_items_to_tiles_def get_player_eq get_tile_eq upd_tile_head
      upd_player_eq server_create_response_to_command_def take_item_def)

text \<open>
  \<open>prend\<close> and \<open>pose\<close> of a known resource move one unit between the tile and the player and
  answer ok, or, when the giver has none, change nothing and answer ko.
\<close>
theorem prend_and_pose:
  assumes "wf_world w" "pheap w a = Some pl" "find_name UNKNOWN inventory_names s = ty" "ty \<noteq> UNKNOWN"
  shows "m_command_prend (Some a) (Some s) w = Inr (SUCCESS,
      if 0 < item_count ty (t_items (tiles w ! tile_no w (p_pos pl)))
      then send (p_id pl) (response_json ''prend'' (Some s) (Some ''ok'')) (take_item ty 1 (tile_no w (p_pos pl)) a w)
      else send (p_id pl) (response_json ''prend'' (Some s) (Some ''ko'')) w) \<and>
    m_command_pose (Some a) (Some s) w = Inr (SUCCESS,
      if 0 < item_count ty (p_inv pl)
      then send (p_id pl) (response_json ''pose'' (Some s) (Some ''ok'')) (take_item ty (- 1) (tile_no w (p_pos pl)) a w)
      else send (p_id pl) (response_json ''pose'' (Some s) (Some ''ko'')) w)"
  using prend_eq [OF assms] pose_eq [OF assms] by blast

theorem prend_and_pose_witness:
  "m_command_prend (Some 0) (Some ''sibur'') demo2
    = Inr (SUCCESS, send 5 (response_json ''prend'' (Some ''sibur'') (Some ''ko'')) demo2)"
  using prend_and_pose [OF demo2_wf demo_players(1), of "''sibur''" SIBUR]
  by (simp add: inventory_names_def demo_player_def new_player_def tile_no_def MAP_def demo2_def demo1_def
      demo0_def empty_inventory_def)

text \<open>
  C15: taking a resource and dropping it again puts every tile and every player back as they
  were: no unit is lost or made, whatever the resource.
\<close>
theorem take_and_drop:
  assumes "wf_world w" "pheap w a = Some pl" "find_name UNKNOWN inventory_names s = ty" "ty \<noteq> UNKNOWN"
    and "0 < item_count ty (t_items (tiles w ! tile_no w (p_pos pl)))"
  shows "\<exists>w'. and_then (m_command_prend (Some a) (Some s) w) (\<lambda>(r, w1). m_command_pose (Some a) (Some s) w1)
      = Inr (SUCCESS, w') \<and> tiles w' = tiles w \<and> pheap w' = pheap w"
proof -
  let ?i = "tile_no w (p_pos pl)"
  let ?w1 = "send (p_id pl) (response_json ''prend'' (Some s) (Some ''ok'')) (take_item ty 1 ?i a w)"
  let ?pl1 = "pl\<lparr>p_inv := item_add ty 1 (p_inv pl)\<rparr>"
  have i: "?i < length (tiles w)" using wf_player_pos(3) [OF assms(1,2)] .
  have w1: "m_command_prend (Some a) (Some s) w = Inr (SUCCESS, ?w1)"
    using prend_eq [OF assms(1-4)] assms(5) by simp
  have wf1: "wf_world ?w1" using prend_ok [OF assms(1,2), of "Some s"] w1 by (simp add: good_def)
  have pl1: "pheap ?w1 a = Some ?pl1" using assms(2) by (simp add: take_item_def)
  have i1: "tile_no ?w1 (p_pos ?pl1) = ?i" by (simp add: tile_no_def MAP_def take_item_def)
  have "0 \<le> item_count ty (p_inv pl)"
    using wf_values_player [OF assms(1,2)] by (simp add: player_values_def item_count_nonneg)
  then have "0 < item_count ty (p_inv ?pl1)" using assms(4) by (cases ty) simp_all
  then have w2: "m_command_pose (Some a) (Some s) ?w1 = Inr (SUCCESS,
      send (p_id ?pl1) (response_json ''pose'' (Some s) (Some ''ok'')) (take_item ty (- 1) ?i a ?w1))"
    using pose_eq [OF wf1 pl1 assms(3,4)] unfolding i1 by simp
  have undo: "item_add ty n (item_add ty (- n) v) = v" for n v by (cases ty) simp_all
  have "tiles (take_item ty (- 1) ?i a ?w1) = tiles w"
    using undo [of 1] i by (simp add: take_item_def)
  moreover have "pheap (take_item ty (- 1) ?i a ?w1) = pheap w"
    using undo [of "- 1"] assms(2) by (simp add: take_item_def fun_upd_idem)
  ultimately show ?thesis using w1 w2 by simp
qed

text \<open>A world with food on the first tile.\<close>

definition demo3 :: world where
  "demo3 = demo2\<lparr>tiles := (tiles demo2)[0 := (tiles demo2 ! 0)\<lparr>t_items := empty_inventory\<lparr>nourriture := 3, linemate := 2\<rparr>\<rparr>]\<rparr>"

lemma demo3_wf: "wf_world demo3"
  using wf_upd_tile(1) [OF demo2_wf, of 0 "(tiles demo2 ! 0)\<lparr>t_items := empty_inventory\<lparr>nourriture := 3, linemate := 2\<rparr>\<rparr>"]
  by (simp add: demo3_def tile_place_def demo2_def demo1_def demo0_def items_nonneg_def empty_inventory_def)

lemma demo3_fields: "pheap demo3 = pheap demo2" "map_x demo3 = 2" "map_y demo3 = 1"
  "tiles demo3 = [(tiles demo2 ! 0)\<lparr>t_items := empty_inventory\<lparr>nourriture := 3, linemate := 2\<rparr>\<rparr>, tiles demo2 ! 1]"
  by (simp_all add: demo3_def demo2_def demo1_def demo0_def)

theorem take_and_drop_witness:
  "\<exists>w'. and_then (m_command_prend (Some 0) (Some ''nourriture'') demo3)
      (\<lambda>(r, w1). m_command_pose (Some 0) (Some ''nourriture'') w1) = Inr (SUCCESS, w') \<and>
    tiles w' = tiles demo3 \<and> pheap w' = pheap demo3"
proof -
  have "pheap demo3 0 = Some ((demo_player 5 0)\<lparr>prev_on_tile := Some 2\<rparr>)"
    using demo_players(1) by (simp add: demo3_fields)
  from take_and_drop [OF demo3_wf this, of "''nourriture''" NOURRITURE] show ?thesis
    by (simp add: inventory_names_def tile_no_def MAP_def demo3_fields demo_player_def new_player_def)
qed

section \<open>Looking\<close>

text \<open>The items of a tile by name, as \<open>voir\<close> reports them.\<close>

definition item_names :: "inventory \<Rightarrow> string list" where
  "item_names items = map snd (filter (\<lambda>(ty, name). 0 < item_count ty items) inventory_names)"

text \<open>Whether \<open>voir\<close> reports a player on the tile \<open>T\<close>.\<close>

definition sees_player :: "world \<Rightarrow> player \<Rightarrow> tile \<Rightarrow> bool" where
  "sees_player w pl T \<longleftrightarrow> next_on_tile pl \<noteq> None \<and>
     (case t_players T of None \<Rightarrow> False | Some b \<Rightarrow> \<exists>q. pheap w b = Some q \<and> p_id q \<noteq> p_id pl)"

lemma tile_vision_eq:
  assumes "wf_map w" "i < length (tiles w)" "pheap w a = Some pl"
  shows "build_tile_vision (tiles w ! i) (Some a) w = Inr (JArray (map JString
    ((if sees_player w pl (tiles w ! i) then [''player''] else []) @ item_names (t_items (tiles w ! i)))))"
proof (cases "t_players (tiles w ! i)")
  case None
  then show ?thesis using assms(3) by (simp add: build_tile_vision_def get_player_eq sees_player_def item_names_def)
next
  case (Some x)
  with tile_head_alloc [OF assms(1,2)] obtain q where "pheap w x = Some q" by blast
  with Some assms(3) show ?thesis by (simp add: build_tile_vision_def get_player_eq sees_player_def item_names_def)
qed

lemma voir_eq:
  assumes "wf_world w" "pheap w a = Some pl"
  shows "m_command_voir (Some a) arg w = Inr (SUCCESS, send (p_id pl) (JObject
    [(''type'', JString ''response''), (''cmd'', JString ''voir''), (''vision'', JArray (map (\<lambda>(d, i).
       let T = tiles w ! tile_no w (cell_pos w pl d i) in
       JArray (map JString ((if sees_player w pl T then [''player''] else []) @ item_names (t_items T))))
      (view_cells (p_level pl))))]) w)"
proof -
  have geo: "geometry w" and map: "wf_map w" using assms(1) by (simp_all add: wf_world_def wf_map_def)
  have "traverse (\<lambda>di. and_then (view_tile pl w di) (\<lambda>t.
      and_then (get_tile t w) (\<lambda>T. build_tile_vision T (Some a) w))) (view_cells (p_level pl))
    = Inr (map (\<lambda>(d, i). let T = tiles w ! tile_no w (cell_pos w pl d i) in
       JArray (map JString ((if sees_player w pl T then [''player''] else []) @ item_names (t_items T))))
      (view_cells (p_level pl)))"
    using view_tile_index [OF geo] tile_vision_eq [OF map _ assms(2)]
    by (intro traverse_map) (auto simp: get_tile_eq Let_def)
  with assms(2) show ?thesis by (simp add: m_command_voir_def get_player_eq server_send_json_def)
qed



text \<open>
  Whether \<open>voir\<close> reports players at all depends on the looking player's own place in the list
  of its tile: a player that is the last of its tile (so every player that stands alone) is
  never told about any player, wherever the others are.
\<close>
theorem voir_is_blind:
  assumes "wf_world w" "pheap w a = Some pl" "next_on_tile pl = None"
  shows "m_command_voir (Some a) arg w = Inr (SUCCESS, send (p_id pl) (JObject
      [(''type'', JString ''response''), (''cmd'', JString ''voir''), (''vision'', JArray (map (\<lambda>(d, i).
         JArray (map JString (item_names (t_items (tiles w ! tile_no w (cell_pos w pl d i))))))
        (view_cells (p_level pl))))]) w)"
proof -
  have "sees_player w pl T = False" for T using assms(3) by (simp add: sees_player_def)
  then show ?thesis using voir_eq [OF assms(1,2), of arg] by (simp add: Let_def)
qed

theorem voir_is_blind_witness:
  "\<exists>vision. m_command_voir (Some 0) None demo2 = Inr (SUCCESS, send 5 (JObject
      [(''type'', JString ''response''), (''cmd'', JString ''voir''), (''vision'', JArray vision)]) demo2) \<and>
    JArray [JString ''player''] \<notin> set vision \<and> t_players (tiles demo2 ! 0) = Some 2"
proof -
  have no: "item_names items \<noteq> [''player'']" for items
  proof
    assume "item_names items = [''player'']"
    then have "''player'' \<in> set (item_names items)" by simp
    then have "''player'' \<in> snd ` set inventory_names" by (auto simp: item_names_def)
    then show False by (simp add: inventory_names_def)
  qed
  have id: "p_id ((demo_player 5 0)\<lparr>prev_on_tile := Some 2\<rparr>) = 5"
    "next_on_tile ((demo_player 5 0)\<lparr>prev_on_tile := Some 2\<rparr>) = None"
    by (simp_all add: demo_player_def new_player_def)
  have "t_players (tiles demo2 ! 0) = Some 2" by (simp add: demo2_def demo1_def demo0_def)
  then show ?thesis
    using voir_is_blind [OF demo2_wf demo_players(1) id(2), of None, unfolded id(1)] no
    by (intro exI conjI) (assumption, auto)
qed

end
