(* ===== verification/Rituals.thy ===== *)
theory Rituals
  imports Rules
begin

text \<open>
  The commands with a longer story: the two halves of the incantation, the queueing of
  commands, the expulsion and its endless loop, and the random amounts of resources.
\<close>

section \<open>Commands wait their turn\<close>



section \<open>The incantation\<close>

text \<open>
  C10: the first half of the ritual: when the player is below level 7, the tile has the stones
  of its level's row and enough players of its level stand there, the stones are taken at once,
  the second half becomes the very next event of the player (unless ten are pending), and the
  reply is in_progress. Otherwise the reply is ko and nothing changes.
\<close>
theorem incantation_begins:
  assumes "wf_world w" "pheap w a = Some pl" "nat (client_count w) \<le> fuel" "tile_rep occ w"
    and "cheap w c = Some cl" "c_player cl = Some a" "m_time w = Some t"
  shows "m_command_incantation fuel (Some a) arg w = Inr (SUCCESS,
    if p_level pl < 7 \<and>
       items_suffice (t_items (tiles w ! tile_no w (p_pos pl))) (lr_inv (level_reqs ! nat (p_level pl))) \<and>
       player_number (level_reqs ! nat (p_level pl))
         \<le> int (length (same_level (pheap w) (p_level pl) (occ (tile_no w (p_pos pl)))))
    then send (p_id pl) (response_json ''incantation'' None (Some ''in_progress''))
      (w\<lparr>tiles := (tiles w)[tile_no w (p_pos pl) := (tiles w ! tile_no w (p_pos pl))\<lparr>t_items :=
           items_minus (t_items (tiles w ! tile_no w (p_pos pl))) (lr_inv (level_reqs ! nat (p_level pl)))\<rparr>],
         cheap := (cheap w)(c \<mapsto> cl\<lparr>c_event_buffer := begun w t a pl (c_event_buffer cl)\<rparr>)\<rparr>)
    else send (p_id pl) (response_json ''incantation'' None (Some ''ko'')) w)"
  using assms by (rule incantation_run)

theorem incantation_begins_witness:
  "m_command_incantation 4 (Some 0) None demo2
    = Inr (SUCCESS, send 5 (response_json ''incantation'' None (Some ''ko'')) demo2)"
proof -
  let ?pl = "(demo_player 5 0)\<lparr>prev_on_tile := Some 2\<rparr>"
  have "cheap demo2 1 = Some (new_client 5 (Some 0))" "c_player (new_client 5 (Some 0)) = Some 0"
    "nat (client_count demo2) \<le> 4" "m_time demo2 = Some \<lparr>t_divider = 1000, start_time_ms = 0, current_time_units = 100\<rparr>"
    by (simp_all add: demo_clients new_client_def demo2_def demo1_def demo0_def boot_def)
  moreover have "\<not> items_suffice (t_items (tiles demo2 ! tile_no demo2 (p_pos ?pl))) (lr_inv (level_reqs ! nat (p_level ?pl)))"
    by (simp add: items_suffice_def level_reqs_def reqs_def demo_player_def new_player_def tile_no_def MAP_def
        demo2_def demo1_def demo0_def empty_inventory_def)
  moreover have "p_id ?pl = 5" by (simp add: demo_player_def new_player_def)
  ultimately show ?thesis
    using incantation_begins [OF demo2_wf demo_players(1) _ demo_occ(1), of 4 1 "new_client 5 (Some 0)" _ None]
    by simp
qed

text \<open>
  C9: the second half: when the player still has the level it began with and enough players of
  that level still stand on its tile, exactly the players of that level on the tile rise by
  one, each is told so, and nobody gets above level 7; otherwise the reply is ko and no level
  changes. The stones are not looked at again.
\<close>
theorem incantation_completes:
  assumes "wf_world w" "pheap w a = Some pl" "nat (client_count w) \<le> fuel" "tile_rep occ w"
  shows "m_command_real_incantation fuel (Some a) (Some s) w = Inr (SUCCESS,
    if p_level pl = atoi s \<and> p_level pl < 7 \<and> player_number (level_reqs ! nat (p_level pl))
         \<le> int (length (same_level (pheap w) (p_level pl) (occ (tile_no w (p_pos pl)))))
    then send (p_id pl) (response_json ''incantation'' None (Some ''ok''))
      (w\<lparr>pheap := raised (p_level pl) (occ (tile_no w (p_pos pl))) (pheap w),
         out := out w @ congratulations (p_level pl) (occ (tile_no w (p_pos pl))) (pheap w)\<rparr>)
    else send (p_id pl) (response_json ''incantation'' None (Some ''ko'')) w)"
  using assms by (rule real_incantation_run)

theorem incantation_completes_witness:
  "\<exists>w'. m_command_real_incantation 4 (Some 0) (Some ''1'') demo2
      = Inr (SUCCESS, send 5 (response_json ''incantation'' None (Some ''ok'')) w') \<and>
    map_option p_level (pheap w' 0) = Some 2 \<and> map_option p_level (pheap w' 2) = Some 2"
proof -
  let ?pl = "(demo_player 5 0)\<lparr>prev_on_tile := Some 2\<rparr>"
  have "nat (client_count demo2) \<le> 4" by (simp add: demo2_def demo1_def demo0_def)
  moreover have i: "tile_no demo2 (p_pos ?pl) = 0"
    by (simp add: demo_player_def new_player_def tile_no_def MAP_def)
  have "same_level (pheap demo2) 1 (demo_occ 0) = [2, 0]"
    by (simp add: same_level_def demo_occ_def demo_players demo_player_def new_player_def)
  moreover have "player_number (level_reqs ! nat 1) = 2" by (simp add: level_reqs_def reqs_def)
  moreover have "p_level ?pl = 1" "p_id ?pl = 5" "atoi ''1'' = 1"
    by (simp_all add: demo_player_def new_player_def atoi_def isdigit_def isspace_def)
  moreover have "map_option p_level (raised 1 (demo_occ 0) (pheap demo2) b) = Some 2" if "b \<in> {0, 2}" for b
    using that demo_players by (auto simp: raised_def raise_def demo_occ_def demo_player_def new_player_def)
  ultimately show ?thesis
    using incantation_completes [OF demo2_wf demo_players(1) _ demo_occ(1), of 4 "''1''"]
    unfolding i by (intro exI) (auto simp: demo_occ_def)
qed

text \<open>
  The rows of \<open>level_reqs\<close> are commented from "1-2" to "7-8", but players start at level 1 and the
  code reads the row at index \<open>level\<close>: the first row, the only one for a single player, is never
  used, so a player without another of its level on its tile never rises.
\<close>

lemma rows_used_ask_for_two: "1 \<le> l \<Longrightarrow> l < 7 \<Longrightarrow> 2 \<le> player_number (level_reqs ! nat l)"
proof -
  assume "1 \<le> l" "l < 7"
  then have "nat l \<in> {1, 2, 3, 4, 5, 6}" by auto
  then show ?thesis by (auto simp: level_reqs_def reqs_def)
qed

lemma alone_counts_one:
  assumes "wf_world w" "pheap w a = Some pl" "tile_rep occ w"
    and "\<forall>b r. pheap w b = Some r \<and> p_pos r = p_pos pl \<and> p_level r = p_level pl \<longrightarrow> b = a"
  shows "length (same_level (pheap w) (p_level pl) (occ (tile_no w (p_pos pl)))) \<le> 1"
proof -
  let ?xs = "same_level (pheap w) (p_level pl) (occ (tile_no w (p_pos pl)))"
  note pos = wf_player_pos [OF assms(1,2)]
  have "b = a" if "b \<in> set ?xs" for b
    using that tile_repD(3) [OF assms(3) pos(3), of b] t_pos_tile_no [OF pos(1,2)] assms(4)
    by (auto simp: same_level_def)
  then have "set ?xs \<subseteq> {a}" by blast
  then have "card (set ?xs) \<le> 1" using card_mono [of "{a}" "set ?xs"] by simp
  then show ?thesis
    using distinct_card [of ?xs] tile_repD(2) [OF assms(3) pos(3)] by (simp add: same_level_def)
qed

text \<open>
  C11: a player on whose tile nobody else has its level can neither begin nor end a ritual, at any
  level and with any stones: both halves answer ko and change nothing, although the table's row
  "1-2" asks a beginner for one player and one stone.
\<close>
theorem alone_never_rises:
  assumes "wf_world w" "pheap w a = Some pl" "nat (client_count w) \<le> fuel"
    and "\<forall>b r. pheap w b = Some r \<and> p_pos r = p_pos pl \<and> p_level r = p_level pl \<longrightarrow> b = a"
  shows "m_command_incantation fuel (Some a) arg w
      = Inr (SUCCESS, send (p_id pl) (response_json ''incantation'' None (Some ''ko'')) w) \<and>
    m_command_real_incantation fuel (Some a) (Some s) w
      = Inr (SUCCESS, send (p_id pl) (response_json ''incantation'' None (Some ''ko'')) w)"
proof
  obtain occ where occ: "tile_rep occ w" "placed occ w" using assms(1) by (rule wf_occ)
  have lvl: "1 \<le> p_level pl" using wf_values_player [OF assms(1,2)] by (simp add: player_values_def)
  have few: "7 \<le> p_level pl \<or> int (length (same_level (pheap w) (p_level pl) (occ (tile_no w (p_pos pl)))))
      < player_number (level_reqs ! nat (p_level pl))"
    using alone_counts_one [OF assms(1,2) occ(1) assms(4)] rows_used_ask_for_two [OF lvl] by linarith
  then have can: "m_game_check_can_incantation fuel (Some a) check w = Inr ERROR" for check
    using can_incantation_eq [OF assms(1-3) occ(1), of check] by auto
  show "m_command_incantation fuel (Some a) arg w
      = Inr (SUCCESS, send (p_id pl) (response_json ''incantation'' None (Some ''ko'')) w)"
    using can assms(2) by (simp add: m_command_incantation_def get_player_eq server_create_response_to_command_def)
  show "m_command_real_incantation fuel (Some a) (Some s) w
      = Inr (SUCCESS, send (p_id pl) (response_json ''incantation'' None (Some ''ko'')) w)"
    using real_incantation_run [OF assms(1-3) occ(1), of s] few by auto
qed

text \<open>A beginner alone on a tile with the stone of row "1-2".\<close>

definition lone_beginner :: world where
  "lone_beginner = demo1\<lparr>tiles := (tiles demo1)[0 := (tiles demo1 ! 0)\<lparr>t_items := empty_inventory\<lparr>linemate := 1\<rparr>\<rparr>]\<rparr>"

theorem alone_never_rises_witness:
  "m_command_incantation 4 (Some 0) None lone_beginner
      = Inr (SUCCESS, send 5 (response_json ''incantation'' None (Some ''ko'')) lone_beginner) \<and>
    items_suffice (t_items (tiles lone_beginner ! 0)) (lr_inv (level_reqs ! 0)) \<and>
    player_number (level_reqs ! 0) = 1 \<and> map_option p_level (pheap lone_beginner 0) = Some 1"
proof -
  have wf: "wf_world lone_beginner" unfolding lone_beginner_def
    by (rule wf_upd_tile [OF demo1_wf])
      (simp_all add: tile_place_def items_nonneg_def empty_inventory_def demo1_def demo0_def)
  have pl: "pheap lone_beginner = [0 \<mapsto> demo_player 5 0]" by (simp add: lone_beginner_def demo1_def)
  then have "m_command_incantation 4 (Some 0) None lone_beginner
      = Inr (SUCCESS, send (p_id (demo_player 5 0)) (response_json ''incantation'' None (Some ''ko'')) lone_beginner)"
    by (intro alone_never_rises [OF wf, THEN conjunct1])
      (auto simp: lone_beginner_def demo1_def demo0_def split: if_splits)
  with pl show ?thesis
    by (simp add: items_suffice_def level_reqs_def reqs_def lone_beginner_def demo1_def demo0_def
        demo_player_def new_player_def empty_inventory_def)
qed

section \<open>The expulsion\<close>

text \<open>Two players never have the same descriptor.\<close>

lemma unique_ids:
  assumes "wf_world w" "pheap w a = Some pl" "pheap w b = Some q" "p_id pl = p_id q"
  shows "a = b"
proof -
  obtain c cl where c: "cheap w c = Some cl" "c_player cl = Some a" "c_socket_fd cl = p_id pl"
    using assms(1,2) by (rule owner_of_player)
  obtain d dl where d: "cheap w d = Some dl" "c_player dl = Some b" "c_socket_fd dl = p_id q"
    using assms(1,3) by (rule owner_of_player)
  have "c = d" using unique_client [OF assms(1) c(1) d(1)] c(3) d(3) assms(4) by simp
  with c d show ?thesis by simp
qed

lemma next_in_list:
  assumes "tile_rep occ w" "j < length (tiles w)" "occ j = us @ a # vs" "pheap w a = Some pl"
  shows "next_on_tile pl = (case vs of [] \<Rightarrow> None | v # _ \<Rightarrow> Some v)"
proof -
  have "dseg (pheap w) None (t_players (tiles w ! j)) (us @ a # vs) None"
    using tile_repD(1) [OF assms(1,2)] assms(3) by simp
  then obtain pl' where "pheap w a = Some pl'" "dseg (pheap w) (Some a) (next_on_tile pl') vs None"
    by (rule dseg_member)
  then show ?thesis using dseg_start assms(4) by simp
qed

lemma send_places [simp]:
  "in_map (send fd j w) = in_map w" "tile_no (send fd j w) = tile_no w"
  "tile_rep occ (send fd j w) = tile_rep occ w" "placed occ (send fd j w) = placed occ w"
proof -
  show "in_map (send fd j w) = in_map w" "tile_no (send fd j w) = tile_no w"
    by (simp_all add: in_map_def tile_no_def MAP_def fun_eq_iff)
  then show "tile_rep occ (send fd j w) = tile_rep occ w" "placed occ (send fd j w) = placed occ w"
    by (simp_all add: tile_rep_def placed_def)
qed

text \<open>
  Once the iterator is on the destination tile together with another player, every round moves
  the current one to the head and goes on with the one behind it.
\<close>

lemma expulse_stuck:
  assumes "wf_world w" "in_map w q" "tile_rep occ w" "placed occ w"
    and "b \<in> set (occ (tile_no w q))" "2 \<le> length (occ (tile_no w q))"
    and "\<And>c r. c \<in> set (occ (tile_no w q)) \<Longrightarrow> pheap w c = Some r \<Longrightarrow> p_id r \<noteq> p_id pl"
  shows "expulse_loop fuel pl (pos_x q) (pos_y q) (Some b) w = Inl Out_Of_Fuel"
  using assms
proof (induction fuel arbitrary: w occ b)
  case 0
  then show ?case by (subst expulse_loop.simps) simp
next
  case (Suc n)
  let ?j = "tile_no w q"
  have geo: "geometry w" using Suc.prems(1) by (simp add: wf_world_def wf_map_def)
  have j: "?j < length (tiles w)" using tile_no_less [OF geo Suc.prems(2)] .
  obtain r where r: "pheap w b = Some r" "p_pos r = t_pos (tiles w ! ?j)"
    using tile_repD(3) [OF Suc.prems(3) j Suc.prems(5)] by blast
  then have here: "p_pos r = q" using t_pos_tile_no [OF geo Suc.prems(2)] by simp
  have id: "p_id r \<noteq> p_id pl" using Suc.prems(5,7) r(1) by blast
  let ?occ = "moved occ b ?j ?j"
  obtain w1 where w1: "m_game_move_player (Some b) (pos_x q) (pos_y q) w = Inr w1" "wf_world w1" "keeps w w1"
    "tile_rep ?occ w1" "placed ?occ w1" "relinked ((pheap w)(b \<mapsto> r\<lparr>p_pos := q\<rparr>)) w w1"
    using wf_move [OF Suc.prems(1) r(1) Suc.prems(2-4)] unfolding here by blast
  let ?w2 = "send (p_id r) (response_json ''deplacement'' None (Some (direction_table ! dir_no (p_dir pl) ! dir_no (p_dir pl)))) w1"
  have same: "in_map ?w2 = in_map w" "tile_no ?w2 = tile_no w"
    using relinked_in_map [OF w1(6)] by simp_all
  have occ': "?occ ?j = b # remove1 b (occ ?j)" by (simp add: moved_def Let_def)
  have len: "length (?occ ?j) = length (occ ?j)" "set (?occ ?j) = set (occ ?j)"
    using Suc.prems(5) length_pos_if_in_set [OF Suc.prems(5)] set_remove1_eq [OF tile_repD(2) [OF Suc.prems(3) j], of b]
    unfolding occ' by (auto simp: length_remove1)
  then obtain v vs where v: "remove1 b (occ ?j) = v # vs"
    using Suc.prems(6) unfolding occ' by (cases "remove1 b (occ ?j)") auto
  obtain q2 where q2: "pheap w1 b = Some q2" using keeps_player [OF w1(3) r(1)] by blast
  have j1: "?j < length (tiles w1)" using j relinked_length [OF w1(6)] by simp
  have nx: "next_on_tile q2 = Some v"
    using next_in_list [OF w1(4) j1, of "[]" b "v # vs" q2] q2 occ' v by simp
  have rep2: "tile_rep ?occ ?w2" "placed ?occ ?w2"
    using w1(4,5) by simp_all
  have "expulse_loop n pl (pos_x q) (pos_y q) (Some v) ?w2 = Inl Out_Of_Fuel"
  proof (rule Suc.IH [of ?w2 ?occ v])
    show "wf_world ?w2" using w1(2) by simp
    show "in_map ?w2 q" using Suc.prems(2) unfolding same .
    show "tile_rep ?occ ?w2" "placed ?occ ?w2" by (fact rep2)+
    show "v \<in> set (?occ (tile_no ?w2 q))" unfolding same occ' v by simp
    show "2 \<le> length (?occ (tile_no ?w2 q))" unfolding same len using Suc.prems(6) .
    fix c s
    assume "c \<in> set (?occ (tile_no ?w2 q))" "pheap ?w2 c = Some s"
    then have c: "c \<in> set (occ ?j)" "pheap w1 c = Some s" unfolding same len by simp_all
    obtain s0 where "pheap w c = Some s0" "p_id s = p_id s0"
      using keeps_player_back [OF w1(3) c(2)] by metis
    with Suc.prems(7) c(1) show "p_id s \<noteq> p_id pl" by simp
  qed
  with r(1) id w1(1) q2 nx show ?case
    by (subst expulse_loop.simps) (simp add: get_player_eq server_create_response_to_command_def)
qed


text \<open>The loop comes to the first of the others, after skipping the expelling player at most once.\<close>

lemma expulse_to_first:
  assumes wf: "wf_world w" and occ: "tile_rep occ w" "placed occ w" and pl: "pheap w a = Some pl"
    and v: "remove1 a (occ (tile_no w (p_pos pl))) = v # vs"
  shows "\<exists>m. fuel \<le> Suc m \<and> expulse_loop fuel pl x y (t_players (tiles w ! tile_no w (p_pos pl))) w
    = expulse_loop m pl x y (Some v) w"
proof -
  let ?i = "tile_no w (p_pos pl)"
  have i: "?i < length (tiles w)" using wf_player_pos(3) [OF wf pl] .
  have seg: "dseg (pheap w) None (t_players (tiles w ! ?i)) (occ ?i) None" using tile_repD(1) [OF occ(1) i] .
  show ?thesis
  proof (cases "\<exists>us. occ ?i = a # us")
    case True
    then have o: "occ ?i = [] @ a # v # vs" using v by auto
    have hd: "t_players (tiles w ! ?i) = Some a" using dseg_start [OF seg] o by simp
    have nx: "next_on_tile pl = Some v" using next_in_list [OF occ(1) i o pl] by simp
    show ?thesis
    proof (cases fuel)
      case 0
      then show ?thesis
        by (intro exI [of _ 0]) (simp add: hd expulse_loop.simps [of 0])
    next
      case (Suc n)
      then show ?thesis
        using pl nx by (intro exI [of _ n]) (simp add: hd expulse_loop.simps [of "Suc n"] get_player_eq)
    qed
  next
    case False
    then have "\<exists>us. occ ?i = v # us" using v by (cases "occ ?i") (auto split: if_splits)
    then have "t_players (tiles w ! ?i) = Some v" using dseg_start [OF seg] by auto
    then show ?thesis by (intro exI [of _ fuel]) simp
  qed
qed

text \<open>One round on a player \<open>v\<close> of the expelling player's tile.\<close>

definition displaced :: "player \<Rightarrow> player \<Rightarrow> world \<Rightarrow> world" where
  "displaced pl r w = send (p_id r) (response_json ''deplacement'' None (Some ''1'')) w"

lemma expulse_round:
  assumes wf: "wf_world w" and occ: "tile_rep occ w" "placed occ w" and r: "pheap w v = Some r"
    and id: "p_id r \<noteq> p_id pl" and q: "in_map w q" and far: "tile_no w q \<noteq> tile_no w (p_pos r)"
  shows "\<exists>w1. wf_world w1 \<and> keeps w w1 \<and> relinked ((pheap w)(v \<mapsto> r\<lparr>p_pos := q\<rparr>)) w w1 \<and> out w1 = out w \<and>
    tile_rep (moved occ v (tile_no w (p_pos r)) (tile_no w q)) w1 \<and>
    placed (moved occ v (tile_no w (p_pos r)) (tile_no w q)) w1 \<and>
    expulse_loop (Suc n) pl (pos_x q) (pos_y q) (Some v) w
      = expulse_loop n pl (pos_x q) (pos_y q) (case occ (tile_no w q) of [] \<Rightarrow> None | u # _ \<Rightarrow> Some u) (displaced pl r w1)"
proof -
  let ?i = "tile_no w (p_pos r)" and ?j = "tile_no w q"
  obtain w1 where w1: "m_game_move_player (Some v) (pos_x q) (pos_y q) w = Inr w1" "wf_world w1" "keeps w w1"
    "out w1 = out w" "tile_rep (moved occ v ?i ?j) w1" "placed (moved occ v ?i ?j) w1"
    "relinked ((pheap w)(v \<mapsto> r\<lparr>p_pos := q\<rparr>)) w w1"
    using wf_move [OF wf r q occ] by blast
  obtain q2 where q2: "pheap w1 v = Some q2" using keeps_player [OF w1(3) r] by blast
  have geo: "geometry w" using wf by (simp add: wf_world_def wf_map_def)
  have j: "?j < length (tiles w1)" using tile_no_less [OF geo q] relinked_length [OF w1(7)] by simp
  have "moved occ v ?i ?j ?j = [] @ v # occ ?j" using far by (simp add: moved_def Let_def)
  from next_in_list [OF w1(5) j this q2]
  have nx: "next_on_tile q2 = (case occ ?j of [] \<Rightarrow> None | u # _ \<Rightarrow> Some u)" .
  have one: "direction_table ! dir_no (p_dir pl) ! dir_no (p_dir pl) = ''1''"
    by (cases "p_dir pl") (simp_all add: direction_table_def)
  show ?thesis
    using w1 r id q2 nx one
    by (intro exI [of _ w1])
      (simp add: expulse_loop.simps [of "Suc n"] get_player_eq server_create_response_to_command_def displaced_def)
qed

lemma expulse_run:
  assumes wf: "wf_world w" and pl: "pheap w a = Some pl"
  shows "m_command_expulse fuel (Some a) arg w =
    (if t_players (tiles w ! tile_no w (p_pos pl)) = None
     then Inr (SUCCESS, send (p_id pl) (response_json ''expulse'' None (Some ''ok'')) w)
     else and_then (expulse_loop fuel pl (pos_x (front_pos w pl)) (pos_y (front_pos w pl))
            (t_players (tiles w ! tile_no w (p_pos pl))) w)
          (\<lambda>w1. Inr (SUCCESS, send (p_id pl) (response_json ''expulse'' None (Some ''ok'')) w1)))"
proof -
  note pos = wf_player_pos [OF wf pl]
  show ?thesis
    using pl next_pos_eq [OF pos(1,2)] get_tile_eq [OF pos(3)] pos(4)
    by (simp add: m_command_expulse_def get_player_eq server_create_response_to_command_def)
qed


lemma front_not_here:
  assumes "wf_world w" "pheap w a = Some pl" "front_pos w pl \<noteq> p_pos pl"
  shows "tile_no w (front_pos w pl) \<noteq> tile_no w (p_pos pl)"
proof
  assume eq: "tile_no w (front_pos w pl) = tile_no w (p_pos pl)"
  note pos = wf_player_pos [OF assms(1,2)]
  have "front_pos w pl = t_pos (tiles w ! tile_no w (front_pos w pl))"
    using t_pos_tile_no [OF pos(1) front_pos_in_map [OF pos(1,2)]] by simp
  also have "\<dots> = p_pos pl" unfolding eq using t_pos_tile_no [OF pos(1,2)] .
  finally show False using assms(3) by simp
qed

lemma other_on_tile:
  assumes wf: "wf_world w" and occ: "tile_rep occ w" "placed occ w" and pl: "pheap w a = Some pl"
    and v: "remove1 a (occ (tile_no w (p_pos pl))) = v # vs"
  obtains r where "pheap w v = Some r" "p_pos r = p_pos pl" "p_id r \<noteq> p_id pl"
proof -
  let ?i = "tile_no w (p_pos pl)"
  note pos = wf_player_pos [OF wf pl]
  have "v \<in> set (remove1 a (occ ?i))" using v by simp
  then have "v \<in> set (occ ?i)" "v \<noteq> a" using set_remove1_eq [OF tile_repD(2) [OF occ(1) pos(3)]] by auto
  then obtain r where r: "pheap w v = Some r" "p_pos r = t_pos (tiles w ! ?i)"
    using tile_repD(3) [OF occ(1) pos(3)] by blast
  then have "p_pos r = p_pos pl" using t_pos_tile_no [OF pos(1,2)] by simp
  moreover have "p_id r \<noteq> p_id pl" using unique_ids [OF wf r(1) pl] \<open>v \<noteq> a\<close> by blast
  ultimately show thesis using r(1) that by blast
qed

text \<open>
  With nobody else on its tile \<open>expulse\<close> only answers ok. With others there and an empty
  tile in front it pushes out only the first of them: that player alone is moved to the front
  tile and told \<open>deplacement 1\<close> (whatever the directions are), the others stay.
\<close>
theorem expulse_moves_one:
  assumes "wf_world w" "tile_rep occ w" "placed occ w" "pheap w a = Some pl" "front_pos w pl \<noteq> p_pos pl"
    and "occ (tile_no w (front_pos w pl)) = []" "3 \<le> fuel"
  shows "case remove1 a (occ (tile_no w (p_pos pl))) of
      [] \<Rightarrow> m_command_expulse fuel (Some a) arg w
        = Inr (SUCCESS, send (p_id pl) (response_json ''expulse'' None (Some ''ok'')) w)
    | v # vs \<Rightarrow> \<exists>r w'. pheap w v = Some r \<and>
        m_command_expulse fuel (Some a) arg w = Inr (SUCCESS, send (p_id pl)
          (response_json ''expulse'' None (Some ''ok''))
          (send (p_id r) (response_json ''deplacement'' None (Some ''1'')) w')) \<and>
        relinked ((pheap w)(v \<mapsto> r\<lparr>p_pos := front_pos w pl\<rparr>)) w w' \<and>
        tile_rep (moved occ v (tile_no w (p_pos pl)) (tile_no w (front_pos w pl))) w'"
proof -
  let ?i = "tile_no w (p_pos pl)" and ?q = "front_pos w pl"
  note pos = wf_player_pos [OF assms(1,4)]
  have seg: "dseg (pheap w) None (t_players (tiles w ! ?i)) (occ ?i) None" using tile_repD(1) [OF assms(2) pos(3)] .
  have on: "a \<in> set (occ ?i)" using placed_member [OF assms(3,4)] .
  show ?thesis
  proof (cases "remove1 a (occ ?i)")
    case Nil
    then have o: "occ ?i = [] @ a # []" using on by (cases "occ ?i") (auto split: if_splits)
    then have hd: "t_players (tiles w ! ?i) = Some a" using dseg_start [OF seg] by simp
    have nx: "next_on_tile pl = None" using next_in_list [OF assms(2) pos(3) o assms(4)] by simp
    obtain n where n: "fuel = Suc n" using assms(7) by (cases fuel) auto
    have "expulse_loop fuel pl (pos_x ?q) (pos_y ?q) (Some a) w = Inr w"
      using assms(4) nx unfolding n
      by (simp add: expulse_loop.simps [of "Suc n"] expulse_loop.simps [of n _ _ _ None] get_player_eq)
    with Nil hd show ?thesis by (simp add: expulse_run [OF assms(1,4)])
  next
    case (Cons v vs)
    obtain r where r: "pheap w v = Some r" "p_pos r = p_pos pl" "p_id r \<noteq> p_id pl"
      using other_on_tile [OF assms(1-4) Cons] by blast
    obtain m where m: "fuel \<le> Suc m" "expulse_loop fuel pl (pos_x ?q) (pos_y ?q) (t_players (tiles w ! ?i)) w
        = expulse_loop m pl (pos_x ?q) (pos_y ?q) (Some v) w"
      using expulse_to_first [OF assms(1-4) Cons] by blast
    obtain n where n: "m = Suc n" using m(1) assms(7) by (cases m) auto
    have far: "tile_no w ?q \<noteq> tile_no w (p_pos r)" using front_not_here [OF assms(1,4,5)] r(2) by simp
    obtain w1 where w1: "relinked ((pheap w)(v \<mapsto> r\<lparr>p_pos := ?q\<rparr>)) w w1"
      "tile_rep (moved occ v (tile_no w (p_pos r)) (tile_no w ?q)) w1"
      "expulse_loop (Suc n) pl (pos_x ?q) (pos_y ?q) (Some v) w
        = expulse_loop n pl (pos_x ?q) (pos_y ?q) None (displaced pl r w1)"
      using expulse_round [OF assms(1-3) r(1,3) front_pos_in_map [OF pos(1,2)] far, of n] assms(6) by auto
    obtain h where "t_players (tiles w ! ?i) = Some h" using dseg_start [OF seg] on by (cases "occ ?i") auto
    then have "m_command_expulse fuel (Some a) arg w = Inr (SUCCESS, send (p_id pl)
        (response_json ''expulse'' None (Some ''ok'')) (displaced pl r w1))"
      using m(2) w1(3) by (simp add: expulse_run [OF assms(1,4)] n expulse_loop.simps [of n _ _ _ None])
    with Cons r w1(1,2) show ?thesis by (auto simp: displaced_def)
  qed
qed

text \<open>The first player faces east; then also a third player, on the tile in front.\<close>

definition facing_east :: "world \<Rightarrow> world" where
  "facing_east w = w\<lparr>pheap := (pheap w)(0 \<mapsto> (the (pheap w 0))\<lparr>p_dir := EAST\<rparr>)\<rparr>"

lemma facing_east_wf: "wf_world w \<Longrightarrow> pheap w 0 = Some pl \<Longrightarrow> wf_world (facing_east w)"
  using wf_upd_player(1) [of w 0 pl "pl\<lparr>p_dir := EAST\<rparr>"] wf_values_player [of w 0 pl]
  by (simp add: facing_east_def player_values_def ident_def place_def links_def)

definition demo4 :: world where
  "demo4 = facing_east demo2"

lemma demo4_occ: "tile_rep demo_occ demo4" "placed demo_occ demo4"
  by (auto simp: tile_rep_def placed_def demo_occ_def demo4_def facing_east_def demo2_def demo1_def demo0_def
      demo_player_def new_player_def in_map_def tile_no_def MAP_def less_Suc_eq eval_nat_numeral)

lemma demo4_players:
  "pheap demo4 0 = Some ((demo_player 5 0)\<lparr>prev_on_tile := Some 2, p_dir := EAST\<rparr>)"
  "pheap demo4 2 = Some ((demo_player 6 1)\<lparr>next_on_tile := Some 0\<rparr>)"
  by (simp_all add: demo4_def facing_east_def demo2_def)

theorem expulse_moves_one_witness:
  "\<exists>w'. m_command_expulse 3 (Some 0) None demo4 = Inr (SUCCESS, send 5 (response_json ''expulse'' None (Some ''ok''))
      (send 6 (response_json ''deplacement'' None (Some ''1'')) w')) \<and>
    tile_rep (moved demo_occ 2 0 1) w'"
proof -
  let ?pl = "(demo_player 5 0)\<lparr>prev_on_tile := Some 2, p_dir := EAST\<rparr>"
  have wf: "wf_world demo4" using facing_east_wf [OF demo2_wf demo_players(1)] by (simp add: demo4_def)
  have p: "p_pos ?pl = \<lparr>pos_x = 0, pos_y = 0\<rparr>" "front_pos demo4 ?pl = \<lparr>pos_x = 1, pos_y = 0\<rparr>" "p_id ?pl = 5"
    by (simp_all add: demo_player_def new_player_def front_pos_def demo4_def facing_east_def demo2_def demo1_def demo0_def)
  have t: "tile_no demo4 \<lparr>pos_x = 0, pos_y = 0\<rparr> = 0" "tile_no demo4 \<lparr>pos_x = 1, pos_y = 0\<rparr> = 1"
    by (simp_all add: tile_no_def MAP_def)
  have r: "p_id ((demo_player 6 1)\<lparr>next_on_tile := Some 0\<rparr>) = 6" by (simp add: demo_player_def new_player_def)
  have o: "demo_occ 1 = []" "remove1 0 (demo_occ 0) = [2]" by (simp_all add: demo_occ_def)
  from expulse_moves_one [OF wf demo4_occ demo4_players(1), of 3 None] show ?thesis
    unfolding p t o using r by (auto simp: demo4_players)
qed

text \<open>The victim joins somebody on the next tile: the loop goes on along that tile's list for good.\<close>

lemma expulse_goes_on:
  assumes "wf_world w" "tile_rep occ w" "placed occ w" "pheap w a = Some pl" "front_pos w pl \<noteq> p_pos pl"
    and v: "remove1 a (occ (tile_no w (p_pos pl))) = v # vs" and u: "occ (tile_no w (front_pos w pl)) = u # us"
  shows "expulse_loop m pl (pos_x (front_pos w pl)) (pos_y (front_pos w pl)) (Some v) w = Inl Out_Of_Fuel"
proof (cases m)
  case 0
  then show ?thesis by (simp add: expulse_loop.simps [of 0])
next
  case (Suc n)
  let ?i = "tile_no w (p_pos pl)" and ?q = "front_pos w pl"
  let ?j = "tile_no w ?q"
  note pos = wf_player_pos [OF assms(1,4)] and q = front_pos_in_map [OF wf_player_pos(1,2) [OF assms(1,4)]]
  obtain r where r: "pheap w v = Some r" "p_pos r = p_pos pl" "p_id r \<noteq> p_id pl"
    using other_on_tile [OF assms(1-4) v] by blast
  have ij: "?j \<noteq> ?i" using front_not_here [OF assms(1,4,5)] .
  have jl: "?j < length (tiles w)" using tile_no_less [OF pos(1) q] .
  obtain w1 where w1: "wf_world w1" "keeps w w1" "relinked ((pheap w)(v \<mapsto> r\<lparr>p_pos := ?q\<rparr>)) w w1"
    "tile_rep (moved occ v ?i ?j) w1" "placed (moved occ v ?i ?j) w1"
    "expulse_loop (Suc n) pl (pos_x ?q) (pos_y ?q) (Some v) w
      = expulse_loop n pl (pos_x ?q) (pos_y ?q) (Some u) (displaced pl r w1)"
    using expulse_round [OF assms(1-3) r(1,3) q, of n] ij u r(2) by auto
  note same = relinked_in_map [OF w1(3)]
  have dest: "moved occ v ?i ?j ?j = v # u # us" using ij u by (simp add: moved_def Let_def)
  have "p_id s \<noteq> p_id pl"
    if "c \<in> set (moved occ v ?i ?j ?j)" "pheap (displaced pl r w1) c = Some s" for c s
  proof -
    have c: "c = v \<or> c \<in> set (occ ?j)" "pheap w1 c = Some s" using that unfolding dest u by (auto simp: displaced_def)
    obtain s0 where s0: "pheap w c = Some s0" "p_id s = p_id s0"
      using keeps_player_back [OF w1(2) c(2)] by metis
    have "c \<noteq> a"
      using c(1) r occ_disjoint [OF pos(1) assms(2) pos(3) jl placed_member [OF assms(3,4)]] ij assms(4) by auto
    then show ?thesis using unique_ids [OF assms(1) s0(1) assms(4)] s0(2) by auto
  qed
  then have "expulse_loop n pl (pos_x ?q) (pos_y ?q) (Some u) (displaced pl r w1) = Inl Out_Of_Fuel"
    using w1(1,4,5) q dest
    by (intro expulse_stuck [where occ = "moved occ v ?i ?j"]) (auto simp: displaced_def same)
  then show ?thesis using w1(6) Suc by simp
qed

text \<open>
  C33: when somebody stands with the expelling player and somebody already is on the tile in
  front, \<open>expulse\<close> never returns: after the first victim has been moved, the iterator goes on
  along the list of the destination tile and moves its players round and round, for any number
  of rounds.
\<close>
theorem expulse_never_ends:
  assumes "wf_world w" "tile_rep occ w" "placed occ w" "pheap w a = Some pl" "front_pos w pl \<noteq> p_pos pl"
    and "remove1 a (occ (tile_no w (p_pos pl))) \<noteq> []" "occ (tile_no w (front_pos w pl)) \<noteq> []"
  shows "m_command_expulse fuel (Some a) arg w = Inl Out_Of_Fuel"
proof -
  let ?i = "tile_no w (p_pos pl)" and ?q = "front_pos w pl"
  note pos = wf_player_pos [OF assms(1,4)]
  obtain v vs where v: "remove1 a (occ ?i) = v # vs" using assms(6) by (cases "remove1 a (occ ?i)") auto
  obtain u us where u: "occ (tile_no w ?q) = u # us" using assms(7) by (cases "occ (tile_no w ?q)") auto
  obtain m where "expulse_loop fuel pl (pos_x ?q) (pos_y ?q) (t_players (tiles w ! ?i)) w
      = expulse_loop m pl (pos_x ?q) (pos_y ?q) (Some v) w"
    using expulse_to_first [OF assms(1-4) v] by blast
  moreover have "t_players (tiles w ! ?i) \<noteq> None"
    using dseg_start [OF tile_repD(1) [OF assms(2) pos(3)]] v by (cases "occ ?i") auto
  ultimately show ?thesis
    using expulse_goes_on [OF assms(1-5) v u] by (simp add: expulse_run [OF assms(1,4)])
qed

definition demo5 :: world where
  "demo5 = demo2\<lparr>rnd := \<lambda>k. if k = 20 then 1 else 0,
     teams := [(m_game_init_team ''red'' 2)\<lparr>tm_current_players := 2, tm_players := [5, 7, 0, 0]\<rparr>,
               (m_game_init_team ''blue'' 2)\<lparr>tm_current_players := 1, tm_players := [6, 0, 0, 0]\<rparr>],
     tiles := (tiles demo2)[1 := (tiles demo2 ! 1)\<lparr>t_players := Some 4\<rparr>],
     clients := Some [Some 1, Some 3, Some 5, None],
     pheap := (pheap demo2)(4 \<mapsto> (demo_player 7 0)\<lparr>p_pos := \<lparr>pos_x = 1, pos_y = 0\<rparr>\<rparr>),
     cheap := (cheap demo2)(5 \<mapsto> new_client 7 (Some 4)), next_addr := 6, rnd_pos := 23\<rparr>"

lemma demo_login3: "game_register_player 7 ''red'' (demo2\<lparr>rnd := \<lambda>k. if k = 20 then 1 else 0\<rparr>) = Inr (SUCCESS, demo5)"
  by (simp add: register_simps demo0_def boot_def demo1_def demo2_def demo5_def demo_player_def eval_nat_numeral fun_upd_twist)

lemma demo5_wf: "wf_world demo5"
proof -
  let ?w = "demo2\<lparr>rnd := \<lambda>k. if k = 20 then 1 else 0\<rparr>"
  have wf: "wf_world ?w"
    by (rule wf_world_cong [OF demo2_wf]) (use demo2_wf in \<open>simp_all add: wf_world_def wf_server_buffer_def\<close>)
  have c: "cheap ?w = [1 \<mapsto> new_client 5 (Some 0), 3 \<mapsto> new_client 6 (Some 2)]" "m_max_fd ?w = 9"
    by (simp_all add: demo2_def demo1_def demo0_def boot_def)
  have "c_socket_fd cl \<noteq> 7" if "cheap ?w a = Some cl" for a cl
    using that unfolding c(1) by (auto simp: new_client_def split: if_splits)
  from register_ok [where name = "''red''", OF wf this] show ?thesis using demo_login3 c(2) by simp
qed

definition crowd :: "nat \<Rightarrow> nat list" where
  "crowd i = (if i = 0 then [2, 0] else if i = 1 then [4] else [])"

lemma crowd: "tile_rep crowd (facing_east demo5)" "placed crowd (facing_east demo5)"
  by (auto simp: tile_rep_def placed_def crowd_def demo5_def facing_east_def demo2_def demo1_def demo0_def
      demo_player_def new_player_def in_map_def tile_no_def MAP_def less_Suc_eq eval_nat_numeral)

theorem expulse_never_ends_witness:
  "m_command_expulse 1000 (Some 0) None (facing_east demo5) = Inl Out_Of_Fuel"
proof -
  let ?w = "facing_east demo5" and ?pl = "(demo_player 5 0)\<lparr>prev_on_tile := Some 2, p_dir := EAST\<rparr>"
  have pl: "pheap demo5 0 = Some ((demo_player 5 0)\<lparr>prev_on_tile := Some 2\<rparr>)" "pheap ?w 0 = Some ?pl"
    by (simp_all add: facing_east_def demo5_def demo2_def)
  have p: "p_pos ?pl = \<lparr>pos_x = 0, pos_y = 0\<rparr>" "front_pos ?w ?pl = \<lparr>pos_x = 1, pos_y = 0\<rparr>"
    by (simp_all add: demo_player_def new_player_def front_pos_def facing_east_def demo5_def demo2_def demo1_def demo0_def)
  have t: "tile_no ?w \<lparr>pos_x = 0, pos_y = 0\<rparr> = 0" "tile_no ?w \<lparr>pos_x = 1, pos_y = 0\<rparr> = 1"
    by (simp_all add: tile_no_def MAP_def)
  have o: "crowd 1 = [4]" "remove1 0 (crowd 0) = [2]" by (simp_all add: crowd_def)
  from expulse_never_ends [OF facing_east_wf [OF demo5_wf pl(1)] crowd pl(2), of 1000 None] show ?thesis
    unfolding p t o by simp
qed

end
