(* ===== verification/Lifetimes.thy ===== *)
theory Lifetimes
  imports Demo
begin

text \<open>
  What the game promises about whole runs and about the lives of its players: the invariant
  of every reachable state, the absence of memory errors, logins, deaths, the start and the
  shutdown.
\<close>

section \<open>Runs\<close>





section \<open>Joining\<close>

lemma entered_client:
  assumes h: "same_cores ((pheap w)(next_addr w \<mapsto> start_player w fd t now)) h"
  shows "\<exists>pl. h (next_addr w) = Some pl \<and> p_id pl = fd \<and> p_team_id pl = t \<and> p_level pl = 1 \<and>
    p_inv pl = empty_inventory \<and> p_die_time pl = now + word_of_int (LIFE_UNIT w * START_LIFE_UNITS w)"
proof -
  obtain pl where pl: "h (next_addr w) = Some pl" "core pl = core (start_player w fd t now)"
    using same_coresD [OF h, of "next_addr w" "start_player w fd t now"] by auto
  then show ?thesis
    using coreD(1-3,6,7) [OF pl(2)] by (intro exI [of _ pl]) (simp add: start_player_def new_player_def)
qed

lemma login_run:
  assumes "wf_world w" "m_game_get_team_id name w = t" "0 \<le> t"
    and "tm_current_players (teams w ! nat t) < tm_max_players (teams w ! nat t)" "m_time w = Some tm"
  shows "\<exists>w' c a pl. game_register_player fd name w = Inr (SUCCESS, w') \<and>
    cheap w c = None \<and> cheap w' = (cheap w)(c \<mapsto> new_client fd (Some a)) \<and> Some c \<in> set (the (clients w')) \<and>
    pheap w a = None \<and> pheap w' a = Some pl \<and> p_id pl = fd \<and> p_team_id pl = t \<and> p_level pl = 1 \<and>
    p_inv pl = empty_inventory \<and>
    p_die_time pl = current_time_units tm + word_of_int (LIFE_UNIT w * START_LIFE_UNITS w) \<and>
    tm_current_players (teams w' ! nat t) = tm_current_players (teams w ! nat t) + 1 \<and>
    tm_max_players (teams w' ! nat t) = tm_max_players (teams w ! nat t) \<and> out w' = out w"
  using assms
proof (rule register_run)
  fix cs k h ts occ
  assume run: "game_register_player fd name w = Inr (SUCCESS, entered w fd t cs k h ts)"
    and k: "k < length cs"
    and h: "same_cores ((pheap w)(next_addr w \<mapsto> start_player w fd t (current_time_units tm))) h"
  have t: "nat t < length (teams w)" using team_id_range(1) [OF assms(1), of name] assms(2,3) by simp
  have "Some (next_addr w + 1) \<in> set (cs[k := Some (next_addr w + 1)])" using k by (rule set_update_memI)
  with entered_client [OF h] run t unused_addr [OF assms(1), of 0] unused_addr [OF assms(1), of 1]
  show ?thesis
    by (intro exI [of _ "entered w fd t cs k h ts"] exI [of _ "next_addr w + 1"] exI [of _ "next_addr w"])
      (auto simp: team_with_def entered_def)
qed

text \<open>
  C7: a login on a team with a free place always succeeds and finds a free slot: a new client
  with the descriptor and a new player of level 1, without items, that will starve after
  \<open>LIFE_UNIT * START_LIFE_UNITS\<close> time units, and the team has one member more.
\<close>
theorem login_gets_a_place:
  assumes "wf_world w" "m_game_get_team_id name w = t" "0 \<le> t"
    and "tm_current_players (teams w ! nat t) < tm_max_players (teams w ! nat t)" "m_time w = Some tm"
  shows "\<exists>w' c a pl. game_register_player fd name w = Inr (SUCCESS, w') \<and>
    cheap w c = None \<and> cheap w' = (cheap w)(c \<mapsto> new_client fd (Some a)) \<and> Some c \<in> set (the (clients w')) \<and>
    pheap w a = None \<and> pheap w' a = Some pl \<and> p_id pl = fd \<and> p_team_id pl = t \<and> p_level pl = 1 \<and>
    p_inv pl = empty_inventory \<and>
    p_die_time pl = current_time_units tm + word_of_int (LIFE_UNIT w * START_LIFE_UNITS w) \<and>
    tm_current_players (teams w' ! nat t) = tm_current_players (teams w ! nat t) + 1"
  using login_run [OF assms, of fd] by blast

theorem login_gets_a_place_witness:
  "\<exists>w' c. game_register_player 7 ''red'' demo2 = Inr (SUCCESS, w') \<and> Some c \<in> set (the (clients w')) \<and>
     tm_current_players (teams w' ! 0) = 2"
proof -
  have "m_game_get_team_id ''red'' demo2 = 0" by (simp add: m_game_get_team_id_def demo2_def demo1_def demo0_def m_game_init_team_def eval_nat_numeral)
  moreover have "tm_current_players (teams demo2 ! 0) = 1" "tm_max_players (teams demo2 ! 0) = 2" "m_time demo2 = m_time boot"
    by (simp_all add: demo2_def demo1_def demo0_def m_game_init_team_def)
  ultimately show ?thesis
    using login_gets_a_place [OF demo2_wf, of "''red''" 0 _ 7] by (fastforce simp: boot_def)
qed

text \<open>A login with an unknown team name, or on a full team, returns -1 and changes nothing.\<close>
theorem login_refused:
  assumes "wf_world w"
    and "(\<forall>t \<in> set (teams w). tm_name t \<noteq> name) \<or>
      (0 \<le> m_game_get_team_id name w \<and> tm_max_players (teams w ! nat (m_game_get_team_id name w))
         \<le> tm_current_players (teams w ! nat (m_game_get_team_id name w)))"
  shows "game_register_player fd name w = Inr (ERROR, w)"
proof -
  have unknown: "find_team name i ts = ERROR" if "\<forall>t \<in> set ts. tm_name t \<noteq> name" for i ts
    using that by (induction name i ts rule: find_team.induct) auto
  from assms(2) show ?thesis
  proof
    assume "\<forall>t \<in> set (teams w). tm_name t \<noteq> name"
    then have "m_game_get_team_id name w = ERROR"
      unfolding m_game_get_team_id_def by (intro unknown) (meson in_set_takeD)
    then show ?thesis by (simp add: game_register_player_def Let_def)
  next
    assume full: "0 \<le> m_game_get_team_id name w \<and> tm_max_players (teams w ! nat (m_game_get_team_id name w))
         \<le> tm_current_players (teams w ! nat (m_game_get_team_id name w))"
    then have "TEAM_IS_FULL (m_game_get_team_id name w) w = Inr True"
      using team_id_range(1) [OF assms(1), of name] by (simp add: TEAM_IS_FULL_def get_team_def)
    then show ?thesis using full by (simp add: game_register_player_def Let_def)
  qed
qed

theorem login_refused_witness: "game_register_player 7 ''green'' demo2 = Inr (ERROR, demo2)"
  using login_refused [OF demo2_wf, of "''green''" 7]
  by (simp add: demo2_def demo1_def demo0_def m_game_init_team_def)

text \<open>
  Nothing stops a descriptor that is logged in from logging in again: the second login
  succeeds as well, and afterwards two clients, each with its own player, share the descriptor.
\<close>
theorem double_login_accepted:
  assumes "wf_world w" "cheap w c = Some cl" "m_game_get_team_id name w = t" "0 \<le> t"
    and "tm_current_players (teams w ! nat t) < tm_max_players (teams w ! nat t)"
  shows "\<exists>w' c' cl'. game_register_player (c_socket_fd cl) name w = Inr (SUCCESS, w') \<and> c' \<noteq> c \<and>
    cheap w' c = Some cl \<and> cheap w' c' = Some cl' \<and> c_socket_fd cl' = c_socket_fd cl \<and>
    c_player cl' \<noteq> c_player cl \<and> \<not> wf_world w'"
proof -
  obtain tm where tm: "m_time w = Some tm" using wf_clock [OF assms(1)] by blast
  obtain a pl where a: "c_player cl = Some a" "pheap w a = Some pl" using assms(1,2) by (rule client_player)
  from login_run [OF assms(1,3-5) tm, of "c_socket_fd cl"]
  obtain w' c' a' where w': "game_register_player (c_socket_fd cl) name w = Inr (SUCCESS, w')" "cheap w c' = None"
    "cheap w' = (cheap w)(c' \<mapsto> new_client (c_socket_fd cl) (Some a'))" "pheap w a' = None" by blast
  have "c' \<noteq> c" using w'(2) assms(2) by auto
  then have two: "cheap w' c = Some cl" "cheap w' c' = Some (new_client (c_socket_fd cl) (Some a'))"
    using w'(3) assms(2) by simp_all
  have "\<not> wf_world w'"
  proof
    assume "wf_world w'"
    from unique_client [OF this two] \<open>c' \<noteq> c\<close> show False by (simp add: new_client_def)
  qed
  with w' two \<open>c' \<noteq> c\<close> a show ?thesis by (auto simp: new_client_def)
qed

theorem double_login_accepted_witness:
  "\<exists>w' c'. game_register_player 5 ''red'' demo2 = Inr (SUCCESS, w') \<and> c' \<noteq> 1 \<and> cheap w' c' \<noteq> None \<and> \<not> wf_world w'"
proof -
  have "cheap demo2 1 = Some (new_client 5 (Some 0))" "m_game_get_team_id ''red'' demo2 = 0"
    "tm_current_players (teams demo2 ! nat 0) < tm_max_players (teams demo2 ! nat 0)"
    by (simp_all add: m_game_get_team_id_def demo2_def demo1_def demo0_def m_game_init_team_def eval_nat_numeral)
  from double_login_accepted [OF demo2_wf this(1,2) _ this(3)] show ?thesis by (auto simp: new_client_def)
qed

section \<open>Dying\<close>



section \<open>Shutdown\<close>

text \<open>
  \<open>game_clean\<close> on a well-formed game frees every client and every player exactly once and
  leaves none of them allocated.
\<close>
theorem shutdown_frees_all:
  assumes "wf_world w"
  shows "game_clean w = Inr (w\<lparr>pheap := Map.empty, cheap := Map.empty, clients := None, teams := [], tiles := []\<rparr>)"
  using assms by (rule clean_ok)

theorem shutdown_frees_all_witness:
  "\<exists>w'. game_clean demo2 = Inr w' \<and> pheap w' = Map.empty \<and> cheap w' = Map.empty"
  using shutdown_frees_all [OF demo2_wf] by simp

end
