(* ===== verification/Sound.thy ===== *)
theory Sound
  imports Demo
begin

text \<open>
  Where a broadcast is heard from: the shortest way on the torus, and the sector by integer
  comparisons alone (\<open>int_sector\<close>), equal to the one the code computes with \<open>atan2\<close>.
\<close>

section \<open>The sector without angles\<close>

text \<open>
  \<open>(x, y)\<close> is the emitter with the listener at the origin looking up. The sectors' borders
  have the slopes \<open>\<plusminus> (sqrt 2 - 1)\<close> and \<open>\<plusminus> (sqrt 2 + 1)\<close>, which are compared as squares.
\<close>

definition int_sector :: "int \<Rightarrow> int \<Rightarrow> int" where
  "int_sector x y =
     (if 2 * \<bar>x * y\<bar> < y * y - x * x then if 0 < y then 1 else 5
      else if 2 * \<bar>x * y\<bar> < x * x - y * y then if x < 0 then 3 else 7
      else if 0 < y then if x < 0 then 2 else 8
      else if x < 0 then 4 else 6)"

lemma no_sqrt2: "a * a = 2 * (b * b) \<Longrightarrow> b = 0" for a b :: nat
proof (induction b arbitrary: a rule: less_induct)
  case (less b)
  have "even (a * a)" using less.prems by simp
  then obtain c where c: "a = 2 * c" by auto
  then have e: "b * b = 2 * (c * c)" using less.prems by simp
  then have "even (b * b)" by simp
  then obtain d where d: "b = 2 * d" by auto
  have "c * c = 2 * (d * d)" using e d by simp
  show ?case
  proof (rule ccontr)
    assume "b \<noteq> 0"
    then have "d < b" using d by simp
    from less.IH [OF this \<open>c * c = 2 * (d * d)\<close>] d \<open>b \<noteq> 0\<close> show False by simp
  qed
qed

text \<open>No point of the grid lies on a border.\<close>

lemma no_border:
  fixes x y :: int
  assumes "x \<noteq> 0 \<or> y \<noteq> 0"
  shows "2 * (x * y) \<noteq> y * y - x * x" "- (2 * (x * y)) \<noteq> y * y - x * x"
proof -
  have key: "a * a \<noteq> 2 * (b * b)" if "b \<noteq> 0" for a b :: int
  proof
    assume "a * a = 2 * (b * b)"
    then have "nat \<bar>a\<bar> * nat \<bar>a\<bar> = 2 * (nat \<bar>b\<bar> * nat \<bar>b\<bar>)"
      by (simp add: nat_mult_distrib [symmetric] flip: abs_mult)
    from no_sqrt2 [OF this] that show False by simp
  qed
  show "2 * (x * y) \<noteq> y * y - x * x"
    using assms key [of y "x + y"] by (cases "y = 0") (auto simp: algebra_simps)
  show "- (2 * (x * y)) \<noteq> y * y - x * x"
    using assms key [of y "x - y"] by (cases "y = 0") (auto simp: algebra_simps)
qed

section \<open>Polar coordinates\<close>

lemma polar:
  assumes "x \<noteq> 0 \<or> y \<noteq> 0"
  obtains r phi where "0 < r" "0 \<le> phi" "phi < 2 * pi" "x = - r * sin phi" "y = r * cos phi"
    "sector x y = (let K = \<lfloor>(phi + pi / 8) / (pi / 4)\<rfloor> + 1 in if K > 8 then 1 else K)"
proof -
  define z where "z = Complex x y"
  define r where "r = cmod z"
  define a where "a = Arg z"
  have "z \<noteq> 0" using assms by (simp add: z_def complex_eq_iff)
  then have r: "0 < r" by (simp add: r_def)
  have "rcis r a = z" by (simp add: r_def a_def rcis_cmod_Arg)
  then have xy: "x = r * cos a" "y = r * sin a" by (auto simp: z_def complex_eq_iff)
  have bounds: "- pi < a" "a \<le> pi" using Arg_bounded [of z] by (simp_all add: a_def)
  define phi where "phi = (if a - pi / 2 < 0 then a - pi / 2 + 2 * pi else a - pi / 2)"
  have "sin (a - pi / 2 + 2 * pi) = sin (a - pi / 2)" "cos (a - pi / 2 + 2 * pi) = cos (a - pi / 2)"
    by (simp_all only: sin_periodic cos_periodic)
  then have "sin phi = - cos a" "cos phi = sin a"
    by (simp_all add: phi_def sin_diff cos_diff)
  then have "x = - r * sin phi" "y = r * cos phi" using xy by simp_all
  moreover have "0 \<le> phi" "phi < 2 * pi" using bounds by (auto simp: phi_def)
  moreover have "sector x y = (let K = \<lfloor>(phi + pi / 8) / (pi / 4)\<rfloor> + 1 in if K > 8 then 1 else K)"
    by (simp add: sector_def atan2_def phi_def a_def z_def Let_def)
  ultimately show thesis using r that by blast
qed

text \<open>The quadrant of \<open>t\<close> by \<open>n = \<lfloor>2 t / pi\<rfloor>\<close>.\<close>

lemma quadrant:
  assumes "real n * (pi / 2) < t" "t < (real n + 1) * (pi / 2)"
  shows "n mod 4 = 0 \<Longrightarrow> 0 < sin t \<and> 0 < cos t" "n mod 4 = 1 \<Longrightarrow> 0 < sin t \<and> cos t < 0"
    "n mod 4 = 2 \<Longrightarrow> sin t < 0 \<and> cos t < 0" "n mod 4 = 3 \<Longrightarrow> sin t < 0 \<and> 0 < cos t"
proof -
  define k where "k = n div 4"
  define u where "u = t - real k * (2 * pi)"
  have n: "real n = 4 * real k + real (n mod 4)"
    unfolding k_def by (metis mult_div_mod_eq of_nat_add of_nat_mult of_nat_numeral)
  have "sin t = sin u" "cos t = cos u"
    using sin_cos_eq_iff [of t u] by (auto simp: u_def intro: exI [of _ "int k"])
  moreover have b: "real (n mod 4) * (pi / 2) < u" "u < (real (n mod 4) + 1) * (pi / 2)"
    using assms unfolding u_def n by (simp_all add: algebra_simps)
  ultimately show "n mod 4 = 0 \<Longrightarrow> 0 < sin t \<and> 0 < cos t"
    by (auto intro: sin_gt_zero cos_gt_zero)
  have u1: "sin u = cos (u - pi / 2)" "cos u = - sin (u - pi / 2)" by (simp_all add: sin_diff cos_diff)
  have u2: "sin u = - sin (u - pi)" "cos u = - cos (u - pi)" by simp_all
  have turn: "cos (v - pi / 2) = sin v" "sin (v - pi / 2) = - cos v" for v
    by (simp_all add: sin_diff cos_diff)
  have u3: "sin u = - cos (u - pi - pi / 2)" "cos u = sin (u - pi - pi / 2)"
    by (simp_all only: turn) simp_all
  show "n mod 4 = 1 \<Longrightarrow> 0 < sin t \<and> cos t < 0"
    using b \<open>sin t = sin u\<close> \<open>cos t = cos u\<close> u1 by (auto intro: sin_gt_zero cos_gt_zero)
  show "sin t < 0 \<and> cos t < 0" if "n mod 4 = 2"
  proof -
    have "0 < cos (u - pi)" by (rule cos_gt_zero) (use b that in auto)
    moreover have "0 < sin (u - pi)" by (rule sin_gt_zero) (use b that in auto)
    ultimately show ?thesis using \<open>sin t = sin u\<close> \<open>cos t = cos u\<close> u2 by linarith
  qed
  show "sin t < 0 \<and> 0 < cos t" if "n mod 4 = 3"
  proof -
    have "0 < cos (u - pi - pi / 2)" by (rule cos_gt_zero) (use b that in auto)
    moreover have "0 < sin (u - pi - pi / 2)" by (rule sin_gt_zero) (use b that in auto)
    ultimately show ?thesis using \<open>sin t = sin u\<close> \<open>cos t = cos u\<close> u3 by linarith
  qed
qed


section \<open>The two agree\<close>

lemma trig_squares:
  fixes x y :: real
  assumes "x = - r * sin phi" "y = r * cos phi"
  shows "(y * y - x * x) + 2 * (x * y) = r * r * (sqrt 2 * cos (2 * phi + pi / 4))"
    "(y * y - x * x) - 2 * (x * y) = r * r * (sqrt 2 * sin (2 * phi + pi / 4))"
proof -
  have half: "sqrt 2 * (v * sqrt 2) = 2 * v" for v :: real
  proof -
    have "sqrt 2 * (v * sqrt 2) = v * (sqrt 2 * sqrt 2)" by (simp only: mult_ac)
    then show ?thesis by simp
  qed
  have e: "sqrt 2 * cos (2 * phi + pi / 4) = cos (2 * phi) - sin (2 * phi)"
    "sqrt 2 * sin (2 * phi + pi / 4) = cos (2 * phi) + sin (2 * phi)"
    by (simp_all add: cos_add sin_add cos_45 sin_45 right_diff_distrib distrib_left half)
  show "(y * y - x * x) + 2 * (x * y) = r * r * (sqrt 2 * cos (2 * phi + pi / 4))"
    "(y * y - x * x) - 2 * (x * y) = r * r * (sqrt 2 * sin (2 * phi + pi / 4))"
    unfolding assms e cos_double sin_double power2_eq_square by (simp_all add: algebra_simps)
qed

lemma sector_in_sector:
  assumes n: "real n * (pi / 4) < phi + pi / 8" "phi + pi / 8 < (real n + 1) * (pi / 4)" "n \<le> 8"
    and phi: "0 \<le> phi" "phi < 2 * pi"
  shows "n \<in> {1, 2, 3} \<Longrightarrow> 0 < sin phi" "n \<in> {5, 6, 7} \<Longrightarrow> sin phi < 0"
    "n \<in> {0, 1, 7, 8} \<Longrightarrow> 0 < cos phi" "n \<in> {3, 4, 5} \<Longrightarrow> cos phi < 0"
proof -
  have s: "cos phi = cos (phi - 2 * pi)" by (simp add: cos_diff)
  show "n \<in> {1, 2, 3} \<Longrightarrow> 0 < sin phi" using n by (auto intro: sin_gt_zero)
  show "sin phi < 0" if "n \<in> {5, 6, 7}"
  proof -
    have "0 < sin (phi - pi)" by (rule sin_gt_zero) (use n that in auto)
    then show ?thesis by simp
  qed
  show "cos phi < 0" if "n \<in> {3, 4, 5}"
  proof -
    have "0 < cos (phi - pi)" by (rule cos_gt_zero_pi) (use n that in auto)
    then show ?thesis by simp
  qed
  show "0 < cos phi" if "n \<in> {0, 1, 7, 8}"
  proof (cases "n < 2")
    case True
    then show ?thesis using that n phi by (intro cos_gt_zero_pi) auto
  next
    case False
    then show ?thesis using that n phi unfolding s by (intro cos_gt_zero_pi) auto
  qed
qed

lemma sector_int:
  fixes x y :: int
  assumes nz: "x \<noteq> 0 \<or> y \<noteq> 0"
  shows "sector (of_int x) (of_int y) = int_sector x y"
proof -
  have "real_of_int x \<noteq> 0 \<or> real_of_int y \<noteq> 0" using nz by simp
  then obtain r phi where r: "0 < r" and phi: "0 \<le> phi" "phi < 2 * pi"
    and xy: "real_of_int x = - r * sin phi" "real_of_int y = r * cos phi"
    and K: "sector (of_int x) (of_int y) = (let K = \<lfloor>(phi + pi / 8) / (pi / 4)\<rfloor> + 1 in if K > 8 then 1 else K)"
    by (rule polar)
  define t where "t = 2 * phi + pi / 4"
  define A where "A = (y * y - x * x) + 2 * (x * y)"
  define B where "B = (y * y - x * x) - 2 * (x * y)"
  have AB: "real_of_int A = r * r * (sqrt 2 * cos t)" "real_of_int B = r * r * (sqrt 2 * sin t)"
    using trig_squares [OF xy] by (simp_all add: A_def B_def t_def)
  have "A \<noteq> 0" "B \<noteq> 0" using no_border [OF nz] by (auto simp: A_def B_def)
  then have nz': "cos t \<noteq> 0" "sin t \<noteq> 0" using AB by auto
  define n where "n = nat \<lfloor>(phi + pi / 8) / (pi / 4)\<rfloor>"
  have psi: "0 \<le> (phi + pi / 8) / (pi / 4)" "(phi + pi / 8) / (pi / 4) < 9"
    using phi by (simp_all add: field_simps)
  then have fl: "\<lfloor>(phi + pi / 8) / (pi / 4)\<rfloor> = int n" "n \<le> 8"
    unfolding n_def by (simp, linarith)
  have "real n \<le> (phi + pi / 8) / (pi / 4)" "(phi + pi / 8) / (pi / 4) < real n + 1"
    using fl(1) by linarith+
  then have le: "real n * (pi / 4) \<le> phi + pi / 8" and lt: "phi + pi / 8 < (real n + 1) * (pi / 4)"
    by (simp_all add: field_simps)
  have t: "t = 2 * (phi + pi / 8)" by (simp add: t_def)
  have "t \<noteq> real n * (pi / 2)"
    using nz' sin_zero_iff [of t] cos_zero_iff [of t] by (cases "even n") blast+
  then have strict: "real n * (pi / 4) < phi + pi / 8" using le by (auto simp: t)
  have tq: "real n * (pi / 2) < t" "t < (real n + 1) * (pi / 2)" using strict lt by (simp_all add: t)
  note q = quadrant [OF tq] and sc = sector_in_sector [OF strict lt fl(2) phi]
  have sgn: "0 < A \<longleftrightarrow> 0 < cos t" "A < 0 \<longleftrightarrow> cos t < 0" "0 < B \<longleftrightarrow> 0 < sin t" "B < 0 \<longleftrightarrow> sin t < 0"
    using AB r by (simp_all add: zero_less_mult_iff mult_less_0_iff flip: of_int_0_less_iff [where 'a = real] of_int_less_0_iff [where 'a = real])
  have sxy: "0 < x \<longleftrightarrow> sin phi < 0" "x < 0 \<longleftrightarrow> 0 < sin phi" "0 < y \<longleftrightarrow> 0 < cos phi" "y < 0 \<longleftrightarrow> cos phi < 0"
    using xy r by (simp_all add: zero_less_mult_iff mult_less_0_iff flip: of_int_0_less_iff [where 'a = real] of_int_less_0_iff [where 'a = real])
  have tests: "2 * \<bar>x * y\<bar> < y * y - x * x \<longleftrightarrow> 0 < A \<and> 0 < B" "2 * \<bar>x * y\<bar> < x * x - y * y \<longleftrightarrow> A < 0 \<and> B < 0"
    by (auto simp: A_def B_def)
  have "n \<in> {0, 1, 2, 3, 4, 5, 6, 7, 8}" using fl(2) by auto
  then show ?thesis
    unfolding K fl(1) Let_def int_sector_def tests sgn sxy
    using q sc by auto
qed


section \<open>The claims\<close>

text \<open>
  The distance along one axis is the shortest on the torus: congruent to the difference of
  the coordinates modulo the size, and at most half the size in either direction.
\<close>
theorem minimal_delta_shortest:
  assumes "0 < mx" "\<bar>d\<bar> < mx"
  shows "minimal_delta d mx mod mx = d mod mx \<and> 2 * \<bar>minimal_delta d mx\<bar> \<le> mx"
proof -
  have e: "mx sdiv 2 = mx div 2" "(- mx) sdiv 2 = - (mx div 2)"
    using assms(1) by (simp_all add: signed_divide_int_def sgn_if)
  show ?thesis
    using assms unfolding minimal_delta_def Let_def e by (auto simp: mod_diff_right_eq)
qed

theorem minimal_delta_shortest_witness: "minimal_delta 7 10 = - 3 \<and> 2 * \<bar>minimal_delta 7 10\<bar> \<le> 10"
  using minimal_delta_shortest [of 10 7] by (simp add: minimal_delta_def signed_divide_int_def)

text \<open>
  C16: the direction a listener hears is 0 exactly when the shortest way has length 0, and
  otherwise the sector 1 to 8 that the integer comparisons of \<open>int_sector\<close> give for the way
  turned to where the listener faces: the floating-point angle of the code is not needed, and no
  tile lies on the border of two sectors.
\<close>
theorem broadcast_direction_by_integers:
  "compute_broadcast_direction lx ly dir ex ey width height =
     (let dx = minimal_delta (ex - lx) width; dy = minimal_delta (ey - ly) height;
          (dxp, dyp) = to_listener dir dx dy
      in if dx = 0 \<and> dy = 0 then 0 else int_sector dxp (- dyp))"
proof -
  let ?dx = "minimal_delta (ex - lx) width" and ?dy = "minimal_delta (ey - ly) height"
  obtain dxp dyp where t: "to_listener dir ?dx ?dy = (dxp, dyp)" by (cases "to_listener dir ?dx ?dy")
  have "dxp \<noteq> 0 \<or> - dyp \<noteq> 0" if "\<not> (?dx = 0 \<and> ?dy = 0)"
    using that t by (auto simp: to_listener_def split: if_splits)
  then show ?thesis
    using t sector_int [of dxp "- dyp"] by (auto simp: compute_broadcast_direction_def Let_def)
qed

end
