(* ===== verification/Draws.thy ===== *)
theory Draws
  imports Lifetimes
begin

text \<open>
  The random counts end. \<open>m_game_random_resource_count\<close> multiplies uniform draws until the
  product falls below \<open>exp (- \<lambda>)\<close>; when the numbers \<open>rand\<close> returns are such that any N of them in
  a row multiply to less than that, N rounds are enough, and so are they for the start of the
  game and for a respawn, which then return a result.
\<close>

section \<open>Enough rounds\<close>

definition falls :: "nat \<Rightarrow> real \<Rightarrow> (nat \<Rightarrow> nat) \<Rightarrow> bool" where
  "falls N lam r \<longleftrightarrow> 0 < N \<and> (\<forall>k. (\<Prod>i<N. real (r (k + i)) / RAND_MAX) < exp (- lam))"

definition falls_for :: "nat \<Rightarrow> spawn_ctx \<Rightarrow> (nat \<Rightarrow> nat) \<Rightarrow> bool" where
  "falls_for N ctx r \<longleftrightarrow> falls N (d_nourriture ctx) r \<and> falls N (d_linemate ctx) r \<and> falls N (d_deraumere ctx) r \<and>
     falls N (d_sibur ctx) r \<and> falls N (d_mendiane ctx) r \<and> falls N (d_phiras ctx) r \<and> falls N (d_thystame ctx) r"

text \<open>A step that does not run out of fuel and whose results satisfy Q.\<close>

definition returns :: "('a \<Rightarrow> bool) \<Rightarrow> 'a res \<Rightarrow> bool" where
  "returns Q m \<longleftrightarrow> m \<noteq> Inl Out_Of_Fuel \<and> (\<forall>x. m = Inr x \<longrightarrow> Q x)"

lemma returns_Inr [simp]: "returns Q (Inr x) = Q x"
  by (simp add: returns_def)

lemma returns_bind:
  assumes "returns P m" "\<And>x. P x \<Longrightarrow> returns Q (f x)"
  shows "returns Q (and_then m f)"
  using assms by (cases m) (auto simp: returns_def)

lemma returns_access [simp]:
  "returns (\<lambda>_. True) (arr_get xs i)" "returns (\<lambda>_. True) (arr_set xs i x)" "returns (\<lambda>_. True) (c_rem a b)"
  "returns (\<lambda>_. True) (c_div a b)" "returns (\<lambda>_. True) (get_tile t w)"
  by (simp_all add: returns_def arr_get_def arr_set_def c_rem_def c_div_def get_tile_def)

lemmas returns_step = returns_bind [OF returns_access(1)] returns_bind [OF returns_access(3)]
  returns_bind [OF returns_access(4)] returns_bind [OF returns_access(5)]

lemma returns_traverse: "(\<And>x. returns (\<lambda>_. True) (f x)) \<Longrightarrow> returns (\<lambda>_. True) (traverse f xs)"
  by (induction xs) (auto intro!: returns_bind)

lemma returns_for_each: "P s \<Longrightarrow> (\<And>x s. P s \<Longrightarrow> returns P (f x s)) \<Longrightarrow> returns P (for_each xs f s)"
  by (induction xs arbitrary: s) (auto intro: returns_bind)

text \<open>The product after N rounds is that of the next N draws.\<close>

lemma count_loop_ends:
  assumes "0 < N" "prd * (\<Prod>i<N. real (rnd w (rnd_pos w + i)) / RAND_MAX) < p0"
  shows "count_loop N p0 prd count w \<noteq> Inl Out_Of_Fuel"
  using assms
proof (induction N arbitrary: prd count w)
  case 0
  then show ?case by simp
next
  case (Suc n)
  let ?w = "w\<lparr>rnd_pos := rnd_pos w + 1\<rparr>" and ?prd = "prd * (real (rnd w (rnd_pos w)) / RAND_MAX)"
  have less: "?prd * (\<Prod>i<n. real (rnd ?w (rnd_pos ?w + i)) / RAND_MAX) < p0"
    using Suc.prems(2) unfolding prod.lessThan_Suc_shift by (simp add: mult.assoc)
  show ?case
  proof (cases "?prd < p0")
    case True
    then show ?thesis by (simp add: rand_def)
  next
    case False
    with less have "0 < n" by (cases n) simp_all
    with Suc.IH [OF this less] False show ?thesis by (simp add: rand_def)
  qed
qed

text \<open>States with the sequence r of random numbers and the respawn settings c.\<close>

definition drawing :: "(nat \<Rightarrow> nat) \<Rightarrow> spawn_ctx \<Rightarrow> world \<Rightarrow> bool" where
  "drawing r c w \<longleftrightarrow> rnd w = r \<and> m_ctx w = c"

lemma draws_returns:
  assumes "draws P w m" "m \<noteq> Inl Out_Of_Fuel" "drawing r c w"
  shows "returns (\<lambda>(_, w'). drawing r c w') m"
  using assms by (auto simp: draws_def drawing_def)

lemma draw_step:
  assumes "drawing r c w" "falls N lam r" "\<And>n v. drawing r c v \<Longrightarrow> returns Q (f n v)"
  shows "returns Q (and_then (m_game_random_resource_count N lam w) (\<lambda>(n, v). f n v))"
proof (rule returns_bind)
  have "m_game_random_resource_count N lam w \<noteq> Inl Out_Of_Fuel"
    using assms(1,2) by (simp add: m_game_random_resource_count_def falls_def drawing_def count_loop_ends)
  then show "returns (\<lambda>(_, w'). drawing r c w') (m_game_random_resource_count N lam w)"
    using draws_returns [OF random_count_draws] assms(1) by blast
qed (use assms(3) in auto)

lemma random_inventory_returns:
  assumes "drawing r c w" "falls_for N ctx r"
  shows "returns (\<lambda>(_, w'). drawing r c w') (random_inventory N ctx w)"
  using assms(2) unfolding random_inventory_def falls_for_def
  by (elim conjE) (intro draw_step [of r c] assms(1), simp_all)

lemma upd_tile_returns: "drawing r c w \<Longrightarrow> returns (drawing r c) (upd_tile t f w)"
  unfolding upd_tile_def by (intro returns_step returns_bind [OF returns_access(2)]) (simp add: drawing_def)

section \<open>Start\<close>

lemma init_tile_returns:
  assumes "drawing r c w" "falls_for N dst r"
  shows "returns (drawing r c) (init_tile N dst ij w)"
  unfolding init_tile_def Let_def
  by (rule returns_bind [OF upd_tile_returns [OF assms(1)]],
      rule returns_bind [OF random_inventory_returns [OF _ assms(2)]], assumption)
    (auto intro: upd_tile_returns)

lemma game_init_returns:
  assumes "falls_for N (g_density cfg) (rnd w)"
  shows "game_init N cfg width height names nb_clients nb_teams w \<noteq> Inl Out_Of_Fuel"
proof -
  have loop: "returns (drawing (rnd w) (m_ctx w)) (for_each ps (init_tile N (g_density cfg)) v)"
    if "drawing (rnd w) (m_ctx w) v" for ps v
    using that by (rule returns_for_each) (rule init_tile_returns [OF _ assms])
  have start: "drawing (rnd w) (m_ctx w) (w\<lparr>command_delays := cd, m_incantation_time := it, map_x := x, map_y := y,
      tiles := ts, LIFE_UNIT := lu, START_LIFE_UNITS := sl\<rparr>)" for cd it x y ts lu sl
    by (simp add: drawing_def)
  have "returns (\<lambda>_. True) (game_init N cfg width height names nb_clients nb_teams w)"
    unfolding game_init_def game_init_map_def Let_def
    by (intro returns_bind [where P = "\<lambda>_. True"] returns_bind [OF loop [OF start]])
      (auto intro!: returns_bind returns_traverse returns_step split: prod.splits)
  then show ?thesis by (simp add: returns_def)
qed

lemma start_returns:
  assumes "booted w" "config_ok cfg width height names nb_clients nb_teams" "falls_for N (g_density cfg) (rnd w)"
  shows "\<exists>w'. game_init N cfg width height names nb_clients nb_teams w = Inr (SUCCESS, w') \<and> wf_world w' \<and>
    client_count w' = nb_clients \<and> live w' = [] \<and> team_count w' = nb_teams \<and> map_x w' = width \<and> map_y w' = height"
  using start_ok [OF assms(1,2), of N] game_init_returns [OF assms(3)] by auto

text \<open>
  \<open>game_init\<close> on a freshly booted process with a sensible configuration (a map, at least as
  many client slots as teams, a delay per command) ends and returns SUCCESS with a
  well-formed game of that size without clients, whenever N random numbers in a row multiply
  to less than the threshold of every resource.
\<close>
theorem game_starts_well_formed:
  assumes "booted w" "config_ok cfg width height names nb_clients nb_teams" "falls_for N (g_density cfg) (rnd w)"
  shows "\<exists>w'. game_init N cfg width height names nb_clients nb_teams w = Inr (SUCCESS, w') \<and> wf_world w' \<and>
    client_count w' = nb_clients \<and> live w' = [] \<and> team_count w' = nb_teams \<and> map_x w' = width \<and> map_y w' = height"
  using assms by (rule start_returns)

lemma falls_zero: "falls (Suc 0) lam (\<lambda>_. 0)"
  by (simp add: falls_def)

theorem game_starts_well_formed_witness:
  "\<exists>w'. game_init 1 demo_config 2 1 [''red'', ''blue''] 4 2 boot = Inr (SUCCESS, w') \<and> wf_world w' \<and> live w' = []"
proof -
  have "falls_for 1 (g_density demo_config) (rnd boot)" by (simp add: falls_for_def falls_zero boot_def)
  from game_starts_well_formed [OF demo_booted this] show ?thesis by blast
qed

section \<open>Respawning\<close>

lemma spawn_on_tile_returns:
  assumes "drawing r c w" "falls_for N c r"
  shows "returns (drawing r c) (spawn_on_tile N i w)"
proof -
  have m: "m_ctx w = c" using assms(1) by (simp add: drawing_def)
  have spawn: "returns (drawing r c) (and_then (random_inventory N c w) (\<lambda>(inv, w1). upd_tile t (f inv) w1))" for t f
    by (rule returns_bind [OF random_inventory_returns [OF assms]]) (auto intro: upd_tile_returns)
  show ?thesis
    unfolding spawn_on_tile_def Let_def m using assms(1) by (intro returns_step) (simp add: spawn)
qed

lemma spawn_returns:
  assumes "falls_for N (m_ctx w) (rnd w)"
  shows "m_game_spawn_resources N d arg w \<noteq> Inl Out_Of_Fuel"
proof -
  have loop: "returns (drawing (rnd w) (m_ctx w)) (for_each ks (spawn_on_tile N) w)" for ks
    by (rule returns_for_each, simp add: drawing_def) (rule spawn_on_tile_returns [OF _ assms])
  have "returns (\<lambda>_. True) (m_game_spawn_resources N d arg w)"
    unfolding m_game_spawn_resources_def Let_def
    by (rule returns_bind [OF loop], intro returns_step) (simp add: case_prod_unfold)
  then show ?thesis by (simp add: returns_def)
qed



end
