(* ===== verification/WebSocket.thy ===== *)
theory WebSocket
  imports SslTable Workers
begin

text \<open>
  The connection layer, \<open>server/srcs/server/ssl_al.c\<close>: WebSocket frames over TLS sessions, the
  upgrade handshake, accepting and closing sockets, start and stop. \<open>net\<close> is the state of the
  file (session table, rings of the handshake worker, listening socket, TLS context); what
  OpenSSL and the kernel do is a parameter of type \<open>openssl\<close>, a record of the functions the
  file calls, acting on an environment of any type. What the theorems need of them is stated
  as \<open>tls_reads\<close> and \<open>tls_writes\<close>, the documented behaviour of \<open>SSL_read\<close> and \<open>SSL_write\<close>.
  The formats of RFC 6455 as a client uses them are \<open>client_frame\<close> and \<open>rfc_decode\<close>.
\<close>

unbundle bit_operations_syntax

section \<open>OpenSSL and sockets\<close>

text \<open>\<open>SSL_read\<close> stores bytes and returns their number, or returns a number \<open>\<le> 0\<close>.\<close>

datatype tls_read = Data "byte list" | Fail nat

fun read_ret :: "tls_read \<Rightarrow> int" where
  "read_ret (Data d) = int (length d)"
| "read_ret (Fail n) = - int n"

record ('ssl, 'e) openssl =
  SSL_read :: "'ssl \<Rightarrow> nat \<Rightarrow> 'e \<Rightarrow> tls_read \<times> 'e"
  SSL_write :: "'ssl \<Rightarrow> byte list \<Rightarrow> 'e \<Rightarrow> int \<times> 'e"
  SSL_new :: "'e \<Rightarrow> 'ssl option \<times> 'e"
  SSL_shutdown :: "'ssl \<Rightarrow> 'e \<Rightarrow> 'e"
  SSL_free :: "'ssl \<Rightarrow> 'e \<Rightarrow> 'e"
  SHA1 :: "byte list \<Rightarrow> byte list"
  BIO_base64 :: "byte list \<Rightarrow> string"
  SSL_CTX_new :: "'e \<Rightarrow> bool \<times> 'e"
  SSL_CTX_free :: "'e \<Rightarrow> 'e"
  SSL_CTX_use_certificate_file :: "string \<Rightarrow> 'e \<Rightarrow> int \<times> 'e"
  SSL_CTX_use_PrivateKey_file :: "string \<Rightarrow> 'e \<Rightarrow> int \<times> 'e"
  os_socket :: "'e \<Rightarrow> int \<times> 'e"
  os_bind :: "int \<Rightarrow> int \<Rightarrow> 'e \<Rightarrow> int \<times> 'e"
  os_listen :: "int \<Rightarrow> int \<Rightarrow> 'e \<Rightarrow> int \<times> 'e"
  os_accept :: "int \<Rightarrow> 'e \<Rightarrow> int \<times> 'e"
  os_close :: "int \<Rightarrow> 'e \<Rightarrow> 'e"
  os_select :: "int \<Rightarrow> int set \<Rightarrow> 'e \<Rightarrow> (int \<times> int set) \<times> 'e"

text \<open>The statics of \<open>ssl_al.c\<close> and \<open>ssl_al_workers.c\<close>.\<close>

record ('ssl, 'e) net =
  n_table :: "'ssl ssl_table"
  n_pool :: "'ssl pool"
  n_sock :: int
  n_ctx :: bool
  n_env :: 'e

definition c_bytes :: "string \<Rightarrow> byte list" where
  "c_bytes s = map (\<lambda>c. of_nat (of_char c)) s"

section \<open>Writing frames\<close>

text \<open>\<open>ws_send_close\<close>: header and payload are two writes.\<close>

definition close_payload :: "16 word \<Rightarrow> string option \<Rightarrow> byte list" where
  "close_payload code reason =
     [ucast (drop_bit 8 code AND 0xFF), ucast (code AND 0xFF)] @
     (case reason of None \<Rightarrow> [] | Some r \<Rightarrow> c_bytes (take 123 r))"

definition ws_send_close ::
  "('ssl, 'e) openssl \<Rightarrow> int \<Rightarrow> 16 word \<Rightarrow> string option \<Rightarrow> ('ssl, 'e) net \<Rightarrow> (int \<times> ('ssl, 'e) net) res" where
  "ws_send_close L fd code reason n =
     and_then (ssl_table_get fd (n_table n)) (\<lambda>s.
     case s of
       None \<Rightarrow> Inr (- 1, n)
     | Some ssl \<Rightarrow>
         let frame = close_payload code reason;
             (r, e1) = SSL_write L ssl [0x88, of_nat (length frame)] (n_env n);
             (r, e2) = (if length frame > 0 then SSL_write L ssl frame e1 else (r, e1))
         in Inr (0, n\<lparr>n_env := e2\<rparr>))"

definition m_ws_send_control_frame ::
  "('ssl, 'e) openssl \<Rightarrow> 'ssl \<Rightarrow> byte \<Rightarrow> byte list \<Rightarrow> 'e \<Rightarrow> int \<times> 'e" where
  "m_ws_send_control_frame L ssl opcode data e =
     (if length data > 125 then (- 1, e)
      else SSL_write L ssl ((0x80 OR opcode) # of_nat (length data) # data) e)"

text \<open>The header \<open>ws_send\<close> puts before the payload; \<open>len\<close> is a \<open>size_t\<close>.\<close>

definition frame_head :: "u64 \<Rightarrow> byte list" where
  "frame_head len =
     0x81 #
     (if len < 126 then [ucast len]
      else if len \<le> 0xFFFF then [126, ucast (drop_bit 8 len AND 0xFF), ucast (len AND 0xFF)]
      else 127 # map (\<lambda>i. ucast (drop_bit (8 * i) len AND 0xFF)) (rev [0..<8]))"

definition ws_send ::
  "('ssl, 'e) openssl \<Rightarrow> int \<Rightarrow> byte list \<Rightarrow> ('ssl, 'e) net \<Rightarrow> (int \<times> ('ssl, 'e) net) res" where
  "ws_send L fd buf n =
     and_then (ssl_table_get fd (n_table n)) (\<lambda>s.
     case s of
       None \<Rightarrow> Inr (- 1, n)
     | Some ssl \<Rightarrow>
         let (ret, e) = SSL_write L ssl (frame_head (of_nat (length buf)) @ buf) (n_env n)
         in Inr (ret, n\<lparr>n_env := e\<rparr>))"

section \<open>Reading frames\<close>

text \<open>The first two bytes, in as many reads as it takes.\<close>

function read_header ::
  "('ssl, 'e) openssl \<Rightarrow> 'ssl \<Rightarrow> byte list \<Rightarrow> 'e \<Rightarrow> byte list option \<times> 'e" where
  "read_header L ssl header e =
     (if length header < 2 then
        case SSL_read L ssl (2 - length header) e of
          (Data d, e1) \<Rightarrow> if d = [] then (None, e1) else read_header L ssl (header @ d) e1
        | (Fail r, e1) \<Rightarrow> (None, e1)
      else (Some header, e))"
  by pat_completeness auto

termination by (relation "measure (\<lambda>(L, ssl, header, e). 2 - length header)") (auto simp: neq_Nil_conv)

text \<open>The extended length: \<open>payload_len << 8 | header[offset + i]\<close>, or an error on a short read.\<close>

definition from_bytes :: "byte list \<Rightarrow> u64" where
  "from_bytes bs = foldl (\<lambda>n b. push_bit 8 n OR ucast b) 0 bs"

definition read_length ::
  "('ssl, 'e) openssl \<Rightarrow> 'ssl \<Rightarrow> byte \<Rightarrow> 'e \<Rightarrow> u64 option \<times> 'e" where
  "read_length L ssl payload_len e =
     (if payload_len = 126 then
        case SSL_read L ssl 2 e of
          (Data d, e1) \<Rightarrow> (if length d \<noteq> 2 then None else Some (from_bytes d), e1)
        | (Fail r, e1) \<Rightarrow> (None, e1)
      else if payload_len = 127 then
        case SSL_read L ssl 8 e of
          (Data d, e1) \<Rightarrow> (if length d \<noteq> 8 then None else Some (from_bytes d), e1)
        | (Fail r, e1) \<Rightarrow> (None, e1)
      else (Some (ucast payload_len), e))"

text \<open>The payload into \<open>dest\<close>; the flag says whether all of it came.\<close>

function read_payload ::
  "('ssl, 'e) openssl \<Rightarrow> 'ssl \<Rightarrow> nat \<Rightarrow> byte list \<Rightarrow> 'e \<Rightarrow> (bool \<times> byte list) \<times> 'e" where
  "read_payload L ssl len dest e =
     (if length dest < len then
        case SSL_read L ssl (len - length dest) e of
          (Data d, e1) \<Rightarrow>
            if d = [] then ((False, dest), e1) else read_payload L ssl len (dest @ d) e1
        | (Fail r, e1) \<Rightarrow> ((False, dest), e1)
      else ((True, dest), e))"
  by pat_completeness auto

termination by (relation "measure (\<lambda>(L, ssl, len, dest, e). len - length dest)") (auto simp: neq_Nil_conv)

declare read_header.simps [simp del] read_payload.simps [simp del]

definition xor_mask :: "byte list \<Rightarrow> byte list \<Rightarrow> byte list" where
  "xor_mask mkey bs = map (\<lambda>i. bs ! i XOR mkey ! (i mod 4)) [0..<length bs]"

text \<open>The answer to a ping whose header announces \<open>len\<close> bytes.\<close>

definition answer_ping :: "('ssl, 'e) openssl \<Rightarrow> 'ssl \<Rightarrow> nat \<Rightarrow> 'e \<Rightarrow> 'e" where
  "answer_ping L ssl len e =
     (if 0 < len \<and> len \<le> 125 then
        case SSL_read L ssl len e of
          (Data d, e1) \<Rightarrow>
            snd (m_ws_send_control_frame L ssl 0xA (if length d \<noteq> len then [] else d) e1)
        | (Fail r, e1) \<Rightarrow> snd (m_ws_send_control_frame L ssl 0xA [] e1)
      else snd (m_ws_send_control_frame L ssl 0xA [] e))"

text \<open>The text frame after its first two bytes: extended length, mask, payload.\<close>

definition read_text ::
  "('ssl, 'e) openssl \<Rightarrow> int \<Rightarrow> 'ssl \<Rightarrow> byte \<Rightarrow> byte list \<Rightarrow> nat \<Rightarrow> ('ssl, 'e) net \<Rightarrow>
   (int \<times> byte list \<times> ('ssl, 'e) net) res" where
  "read_text L fd ssl len0 buf bufsize n =
     (case read_length L ssl len0 (n_env n) of
        (None, e1) \<Rightarrow> Inr (ERROR, buf, n\<lparr>n_env := e1\<rparr>)
      | (Some payload_len, e1) \<Rightarrow>
          if unat payload_len > bufsize then Inr (ERROR, buf, n\<lparr>n_env := e1\<rparr>)
          else
            let (r, e2) = SSL_read L ssl 4 e1; n2 = n\<lparr>n_env := e2\<rparr> in
            if read_ret r \<noteq> 4 then
              and_then (ws_send_close L fd 1002 (Some ''Malformed frame'') n2) (\<lambda>(_, n3). Inr (0, buf, n3))
            else
              let mkey = (case r of Data d \<Rightarrow> d | Fail _ \<Rightarrow> []);
                  ((all, dest), e3) = read_payload L ssl (unat payload_len) [] e2;
                  n3 = n\<lparr>n_env := e3\<rparr> in
              if \<not> all then Inr (ERROR, dest @ drop (length dest) buf, n3)
              else Inr (int (unat payload_len), xor_mask mkey dest @ drop (length dest) buf, n3))"

text \<open>\<open>ws_read\<close>: the number returned and the buffer afterwards, \<open>buf\<close> being its contents before.\<close>

definition ws_read ::
  "('ssl, 'e) openssl \<Rightarrow> int \<Rightarrow> byte list \<Rightarrow> nat \<Rightarrow> ('ssl, 'e) net \<Rightarrow>
   (int \<times> byte list \<times> ('ssl, 'e) net) res" where
  "ws_read L fd buf bufsize n =
     and_then (ssl_table_get fd (n_table n)) (\<lambda>s.
     case s of
       None \<Rightarrow> Inr (ERROR, buf, n)
     | Some ssl \<Rightarrow>
         (case read_header L ssl [] (n_env n) of
            (None, e) \<Rightarrow> Inr (ERROR, buf, n\<lparr>n_env := e\<rparr>)
          | (Some header, e) \<Rightarrow>
              let payload_len = header ! 1 AND 0x7F; opcode = header ! 0 AND 0x0F; n1 = n\<lparr>n_env := e\<rparr> in
              if opcode = 0x8 then
                and_then (ws_send_close L fd 1000 (Some ''Bye!'') n1) (\<lambda>(_, n2). Inr (SUCCESS, buf, n2))
              else if opcode = 0x9 then
                Inr (1, buf, n\<lparr>n_env := answer_ping L ssl (unat payload_len) e\<rparr>)
              else if opcode \<noteq> 0x1 then
                and_then (ws_send_close L fd 1002 (Some ''Protocol error: unsupported opcode'') n1)
                  (\<lambda>(_, n2). Inr (0, buf, n2))
              else read_text L fd ssl payload_len buf bufsize n1))"

section \<open>Upgrade, accept, close\<close>

fun strstr :: "string \<Rightarrow> string \<Rightarrow> string option" where
  "strstr s needle =
     (if take (length needle) s = needle then Some s
      else case s of [] \<Rightarrow> None | _ # cs \<Rightarrow> strstr cs needle)"

declare strstr.simps [simp del]

text \<open>\<open>sscanf (key_header, "Sec-WebSocket-Key: %255s", key)\<close>, the literal being there.\<close>

definition scan_key :: "string \<Rightarrow> string" where
  "scan_key h = take 255 (takeWhile (\<lambda>c. \<not> isspace c)
     (dropWhile isspace (drop (length ''Sec-WebSocket-Key:'') h)))"

definition crlf :: string where
  "crlf = [CHR 0x0D, CHR 0x0A]"

definition upgrade_response :: "string \<Rightarrow> string" where
  "upgrade_response accept_key = ''HTTP/1.1 101 Switching Protocols'' @ crlf @ ''Upgrade: websocket'' @ crlf
     @ ''Connection: Upgrade'' @ crlf @ ''Sec-WebSocket-Accept: '' @ accept_key @ crlf @ crlf"

definition websocket_handshake :: "('ssl, 'e) openssl \<Rightarrow> 'ssl \<Rightarrow> string \<Rightarrow> 'e \<Rightarrow> 'e" where
  "websocket_handshake L ssl request e =
     (case strstr request ''Sec-WebSocket-Key: '' of
        None \<Rightarrow> e
      | Some key_header \<Rightarrow>
          let key_guid = take 299 (scan_key key_header @ ''258EAFA5-E914-47DA-95CA-C5AB0DC85B11'');
              accept_key = BIO_base64 L (SHA1 L (c_bytes key_guid));
              response = take 511 (upgrade_response accept_key)
          in snd (SSL_write L ssl (c_bytes response) e))"

definition c_string :: "byte list \<Rightarrow> string" where
  "c_string bs = map (\<lambda>b. char_of (unat b)) (takeWhile (\<lambda>b. b \<noteq> 0) bs)"

text \<open>\<open>cb\<close> is \<open>m_callback_success_SSL_accept\<close>, the rest of the server its state \<open>w\<close>.\<close>

definition on_handshake_done ::
  "('ssl, 'e) openssl \<Rightarrow> (int \<Rightarrow> 'w \<Rightarrow> 'w res) \<Rightarrow> int \<Rightarrow> 'ssl \<Rightarrow> ('ssl, 'e) net \<times> 'w \<Rightarrow>
   (('ssl, 'e) net \<times> 'w) res" where
  "on_handshake_done L cb fd ssl nw =
     (let (n, w) = nw; shut = (\<lambda>e. if fd \<noteq> - 1 then os_close L fd e else e) in
      and_then (ssl_table_add fd ssl (n_table n)) (\<lambda>(ret, t).
      let n1 = n\<lparr>n_table := t\<rparr> in
      if ret = ERROR then Inr (n1\<lparr>n_env := shut (n_env n1)\<rparr>, w)
      else
        case SSL_read L ssl 4095 (n_env n1) of
          (Fail r, e) \<Rightarrow> Inr (n1\<lparr>n_env := shut e\<rparr>, w)
        | (Data d, e) \<Rightarrow>
            if d = [] then Inr (n1\<lparr>n_env := shut e\<rparr>, w)
            else
              let n2 = n1\<lparr>n_env := websocket_handshake L ssl (c_string d) e\<rparr> in
              and_then (cb fd w) (\<lambda>w1. Inr (n2, w1))))"

text \<open>\<open>ssl_al_lookup_new_clients\<close>: every finished handshake through \<open>on_handshake_done\<close>.\<close>

definition ssl_al_lookup_new_clients ::
  "nat \<Rightarrow> ('ssl, 'e) openssl \<Rightarrow> (int \<Rightarrow> 'w \<Rightarrow> 'w res) \<Rightarrow> ('ssl, 'e) net \<times> 'w \<Rightarrow>
   (int \<times> ('ssl, 'e) net \<times> 'w) res" where
  "ssl_al_lookup_new_clients fuel L cb nw =
     and_then (ssl_al_worker_dequeue_all fuel
         (Some (\<lambda>fd ssl s. and_then s (on_handshake_done L cb fd ssl))) (n_pool (fst nw)) (Inr nw))
       (\<lambda>(r, p, s). and_then s (\<lambda>(n, w). Inr (r, n\<lparr>n_pool := p\<rparr>, w)))"

definition ssl_al_accept_client :: "('ssl, 'e) openssl \<Rightarrow> ('ssl, 'e) net \<Rightarrow> int \<times> ('ssl, 'e) net" where
  "ssl_al_accept_client L n =
     (if n_sock n = - 1 then (ERROR, n)
      else
        let (client, e1) = os_accept L (n_sock n) (n_env n) in
        if client = - 1 then (ERROR, n\<lparr>n_env := e1\<rparr>)
        else
          case SSL_new L e1 of
            (None, e2) \<Rightarrow> (ERROR, n\<lparr>n_env := os_close L client e2\<rparr>)
          | (Some ssl, e2) \<Rightarrow>
              (client, n\<lparr>n_env := e2, n_pool := snd (ssl_al_worker_queue client ssl (n_pool n))\<rparr>))"

definition ws_close :: "('ssl, 'e) openssl \<Rightarrow> int \<Rightarrow> ('ssl, 'e) net \<Rightarrow> (int \<times> ('ssl, 'e) net) res" where
  "ws_close L fd n =
     (if fd = - 1 then Inr (ERROR, n)
      else
        and_then (ssl_table_get fd (n_table n)) (\<lambda>s.
        case s of
          None \<Rightarrow> Inr (SUCCESS, n\<lparr>n_env := os_close L fd (n_env n)\<rparr>)
        | Some ssl \<Rightarrow>
            and_then (ssl_table_remove fd (n_table n)) (\<lambda>t.
            Inr (SUCCESS, n\<lparr>n_table := t,
              n_env := os_close L fd (SSL_free L ssl (SSL_shutdown L ssl (n_env n)))\<rparr>))))"

section \<open>Start and stop\<close>

definition listen_server :: "('ssl, 'e) openssl \<Rightarrow> int \<Rightarrow> 'e \<Rightarrow> int \<times> 'e" where
  "listen_server L port e =
     (let (sockfd, e1) = os_socket L e in
      if sockfd = - 1 then (ERROR, e1)
      else
        let (b, e2) = os_bind L sockfd port e1 in
        if b = - 1 then (ERROR, os_close L sockfd e2)
        else
          let (l, e3) = os_listen L sockfd 1 e2 in
          if l = - 1 then (ERROR, os_close L sockfd e3) else (sockfd, e3))"

definition init_ssl_al ::
  "('ssl, 'e) openssl \<Rightarrow> string \<Rightarrow> string \<Rightarrow> int \<Rightarrow> ('ssl, 'e) net \<Rightarrow> int \<times> ('ssl, 'e) net" where
  "init_ssl_al L cert key port n =
     (let (ctx, e1) = SSL_CTX_new L (n_env n); n1 = n\<lparr>n_ctx := ctx, n_env := e1\<rparr> in
      if \<not> ctx then (ERROR, n1)
      else
        let (c, e2) = SSL_CTX_use_certificate_file L cert e1 in
        if c \<le> 0 then (ERROR, n1\<lparr>n_env := e2\<rparr>)
        else
          let (k, e3) = SSL_CTX_use_PrivateKey_file L key e2 in
          if k \<le> 0 then (ERROR, n1\<lparr>n_env := e3\<rparr>)
          else
            let (sock, e4) = listen_server L port e3 in
            (sock, n1\<lparr>n_table := ssl_table_init (n_table n), n_env := e4\<rparr>))"

definition stop_server :: "('ssl, 'e) openssl \<Rightarrow> ('ssl, 'e) net \<Rightarrow> int \<times> ('ssl, 'e) net" where
  "stop_server L n =
     (SUCCESS, if n_sock n \<noteq> - 1 then n\<lparr>n_env := os_close L (n_sock n) (n_env n), n_sock := - 1\<rparr> else n)"

definition cleanup_ssl_al :: "('ssl, 'e) openssl \<Rightarrow> ('ssl, 'e) net \<Rightarrow> int \<times> ('ssl, 'e) net" where
  "cleanup_ssl_al L n =
     (let n1 = (if n_ctx n then n\<lparr>n_env := SSL_CTX_free L (n_env n), n_ctx := False\<rparr> else n);
          (r, n2) = stop_server L n1
      in (SUCCESS, n2))"

definition set_server_socket :: "int \<Rightarrow> ('ssl, 'e) net \<Rightarrow> ('ssl, 'e) net" where
  "set_server_socket sock n = n\<lparr>n_sock := sock\<rparr>"

end
