(* ===== verification/Frames.thy ===== *)
theory Frames
  imports WebSocket
begin

text \<open>
  What the frame code of \<open>ssl_al.c\<close> achieves, against the formats of RFC 6455: \<open>ws_read\<close> undoes
  the client's masked framing however TLS cuts the payload into records, \<open>ws_send\<close> writes
  frames a client decodes to the payload; and what it does to pings, which it does not unmask.
\<close>

unbundle bit_operations_syntax

section \<open>TLS sessions as two byte streams\<close>

text \<open>
  The documented behaviour of \<open>SSL_read\<close> and \<open>SSL_write\<close> on a session in good health: a read takes
  bytes from the front of the first record that is not used up (\<open>recs\<close>), at most as many as asked
  for; a write of the whole buffer succeeds and appends to what is sent.
\<close>

definition tls_session ::
  "('ssl, 'e) openssl \<Rightarrow> 'ssl \<Rightarrow> ('e \<Rightarrow> byte list list) \<Rightarrow> ('e \<Rightarrow> byte list) \<Rightarrow> bool" where
  "tls_session L ssl recs sent \<longleftrightarrow>
     (\<forall>e r rs k. recs e = r # rs \<and> r \<noteq> [] \<and> 0 < k \<longrightarrow>
        (\<exists>e'. SSL_read L ssl k e = (Data (take k r), e') \<and> sent e' = sent e \<and>
           recs e' = (if k < length r then drop k r # rs else rs))) \<and>
     (\<forall>e bs. \<exists>e'. SSL_write L ssl bs e = (int (length bs), e') \<and> sent e' = sent e @ bs \<and> recs e' = recs e)"

definition onwards :: "byte list \<Rightarrow> byte list list \<Rightarrow> byte list list" where
  "onwards x rs = (if x = [] then rs else x # rs)"

lemma concat_onwards [simp]: "concat (onwards x rs) = x @ concat rs"
  by (simp add: onwards_def)

lemma onwards_nonempty [simp]: "[] \<notin> set (onwards x rs) \<longleftrightarrow> [] \<notin> set rs"
  by (auto simp: onwards_def)

lemma tls_write:
  assumes "tls_session L ssl recs sent"
  obtains e' where "SSL_write L ssl bs e = (int (length bs), e')" "sent e' = sent e @ bs" "recs e' = recs e"
  using assms unfolding tls_session_def by blast

lemma tls_read_exact:
  assumes "tls_session L ssl recs sent" "recs e = (d @ x) # rs" "d \<noteq> []"
  obtains e' where "SSL_read L ssl (length d) e = (Data d, e')" "sent e' = sent e" "recs e' = onwards x rs"
proof -
  from assms(1)
  have "\<forall>e r rs k. recs e = r # rs \<and> r \<noteq> [] \<and> 0 < k \<longrightarrow>
        (\<exists>e'. SSL_read L ssl k e = (Data (take k r), e') \<and> sent e' = sent e \<and>
           recs e' = (if k < length r then drop k r # rs else rs))"
    unfolding tls_session_def by blast
  from this [rule_format, of e "d @ x" rs "length d"] assms(2,3) show thesis
    by (auto simp: onwards_def intro: that)
qed

lemma read_header_run:
  assumes "tls_session L ssl recs sent" "recs e = (b0 # b1 # x) # rs"
  obtains e' where "read_header L ssl [] e = (Some [b0, b1], e')" "sent e' = sent e" "recs e' = onwards x rs"
proof -
  obtain e' where "SSL_read L ssl 2 e = (Data [b0, b1], e')" "sent e' = sent e" "recs e' = onwards x rs"
    using tls_read_exact [OF assms(1), of e "[b0, b1]" x rs] assms(2) by (auto simp: numeral_2_eq_2)
  then show thesis using that by (simp add: read_header.simps [of L ssl "[]"] read_header.simps [of L ssl "[b0, b1]"])
qed

lemma read_payload_run:
  assumes "tls_session L ssl recs sent" "[] \<notin> set (recs e)" "len \<le> length dest + length (concat (recs e))"
    and "length dest \<le> len"
  shows "\<exists>e'. read_payload L ssl len dest e = ((True, dest @ take (len - length dest) (concat (recs e))), e') \<and>
    sent e' = sent e \<and> concat (recs e') = drop (len - length dest) (concat (recs e))"
  using assms
proof (induction L ssl len dest e rule: read_payload.induct)
  case (1 L ssl len dest e)
  show ?case
  proof (cases "length dest < len")
    case False
    then show ?thesis using 1(5) by (simp add: read_payload.simps [of L ssl len dest])
  next
    case True
    let ?k = "len - length dest"
    obtain r rs where r: "recs e = r # rs" using 1(4) True by (cases "recs e") auto
    have ne: "r \<noteq> []" using 1(3) r by auto
    let ?d = "take ?k r"
    have "?d \<noteq> []" using ne True by simp
    obtain e1 where e1: "SSL_read L ssl ?k e = (Data ?d, e1)" "sent e1 = sent e"
      "recs e1 = (if ?k < length r then drop ?k r # rs else rs)"
      using 1(2) [unfolded tls_session_def] r ne True by (metis zero_less_diff)
    have c: "concat (recs e1) = drop ?k r @ concat rs" using e1(3) by simp
    have n: "[] \<notin> set (recs e1)" using 1(3) r e1(3) by auto
    have le: "length (dest @ ?d) \<le> len" using True by simp
    have "len \<le> length (dest @ ?d) + length (concat (recs e1))" using 1(4) r c by simp
    from 1(1) [OF True e1(1) [symmetric] refl \<open>?d \<noteq> []\<close> 1(2) n this le]
    obtain e2 where e2: "read_payload L ssl len (dest @ ?d) e1
        = ((True, (dest @ ?d) @ take (len - length (dest @ ?d)) (concat (recs e1))), e2)"
      "sent e2 = sent e1" "concat (recs e2) = drop (len - length (dest @ ?d)) (concat (recs e1))"
      by blast
    have "read_payload L ssl len dest e = read_payload L ssl len (dest @ ?d) e1"
      using True e1(1) \<open>?d \<noteq> []\<close> by (simp add: read_payload.simps [of L ssl len dest])
    moreover have "?d @ take (len - length (dest @ ?d)) (concat (recs e1)) = take ?k (concat (recs e))"
      using c r by (cases "?k \<le> length r") auto
    moreover have "drop (len - length (dest @ ?d)) (concat (recs e1)) = drop ?k (concat (recs e))"
      using c r by (cases "?k \<le> length r") auto
    ultimately show ?thesis using e2 e1(2) by simp
  qed
qed

section \<open>Lengths and masks\<close>

definition be_bytes :: "nat \<Rightarrow> u64 \<Rightarrow> byte list" where
  "be_bytes k v = map (\<lambda>i. ucast (drop_bit (8 * i) v)) (rev [0..<k])"

lemma be_step: "push_bit 8 (drop_bit (8 * Suc k) v) OR ucast (ucast (drop_bit (8 * k) v) :: byte) = drop_bit (8 * k) v"
  for v :: u64
proof (rule bit_word_eqI)
  fix n
  assume "n < LENGTH(64)"
  then show "bit (push_bit 8 (drop_bit (8 * Suc k) v) OR ucast (ucast (drop_bit (8 * k) v) :: byte)) n
      = bit (drop_bit (8 * k) v) n"
    by (cases "n < 8") (auto simp: bit_simps not_less add.commute add.left_commute)
qed

lemma be_bytes_Suc: "be_bytes (Suc k) v = ucast (drop_bit (8 * k) v) # be_bytes k v"
  by (simp add: be_bytes_def)

lemma be_fold: "foldl (\<lambda>n b. push_bit 8 n OR ucast b) (drop_bit (8 * k) v) (be_bytes k v) = v"
proof (induction k)
  case 0
  then show ?case by (simp add: be_bytes_def)
next
  case (Suc k)
  then show ?case by (simp only: be_bytes_Suc foldl_Cons be_step)
qed

lemma length_be_bytes [simp]: "length (be_bytes k v) = k"
  by (simp add: be_bytes_def)

lemma from_be_bytes_8: "from_bytes (be_bytes 8 v) = v"
proof -
  have "drop_bit 64 v = (0 :: u64)" by (rule bit_word_eqI) (auto simp: bit_simps dest: bit_imp_le_length)
  then show ?thesis using be_fold [of 8 v] by (simp add: from_bytes_def)
qed

lemma from_be_bytes_2: "v \<le> 0xFFFF \<Longrightarrow> from_bytes (be_bytes 2 v) = v"
proof -
  assume "v \<le> 0xFFFF"
  then have "drop_bit 16 v = 0" by (simp add: word_le_nat_alt word_unat_eq_iff unat_drop_bit_eq drop_bit_eq_div unat_div)
  then show ?thesis using be_fold [of 2 v] by (simp add: from_bytes_def)
qed

lemma xor_mask_involution: "xor_mask k (xor_mask k bs) = bs"
  by (rule nth_equalityI) (simp_all add: xor_mask_def xor.assoc)

lemma length_xor_mask [simp]: "length (xor_mask k bs) = length bs"
  by (simp add: xor_mask_def)

lemma mask_bit: "n < 126 \<Longrightarrow> (0x80 OR of_nat n) AND 0x7F = (of_nat n :: byte)"
proof -
  assume "n < 126"
  then have "of_nat n = take_bit 7 (of_nat n :: byte)"
    by (simp add: word_unat_eq_iff unsigned_take_bit_eq unat_of_nat take_bit_eq_mod unat_mod)
  moreover have "(0x80 OR of_nat n) AND 0x7F = take_bit 7 (of_nat n :: byte)"
  proof (rule bit_word_eqI)
    fix i
    assume "i < LENGTH(8)"
    then consider "i = 7" | "i < 7" by fastforce
    then show "bit ((0x80 OR of_nat n) AND 0x7F :: byte) i = bit (take_bit 7 (of_nat n :: byte)) i"
      by cases (auto simp: bit_simps less_Suc_eq numeral_eq_Suc bit_numeral_rec)
  qed
  ultimately show ?thesis by simp
qed

text \<open>How RFC 6455 encodes the length \<open>n\<close> of a payload: seven bits and an extension.\<close>

definition len7 :: "nat \<Rightarrow> byte" where
  "len7 n = (if n < 126 then of_nat n else if n < 65536 then 126 else 127)"

definition ext_length :: "nat \<Rightarrow> byte list" where
  "ext_length n = (if n < 126 then [] else if n < 65536 then be_bytes 2 (of_nat n) else be_bytes 8 (of_nat n))"

lemma len7_masked: "(0x80 OR len7 n) AND 0x7F = len7 n"
  using mask_bit [of n] by (simp add: len7_def)

lemma unat_of_nat_u64: "n < 2 ^ 64 \<Longrightarrow> unat (of_nat n :: u64) = n"
  by (simp add: unat_of_nat)

lemma read_length_run:
  assumes "tls_session L ssl recs sent" "recs e = (ext_length n @ x) # rs" "x \<noteq> []" "n < 2 ^ 64"
  obtains e' where "read_length L ssl (len7 n) e = (Some (of_nat n), e')" "sent e' = sent e" "recs e' = x # rs"
proof -
  consider "n < 126" | "126 \<le> n" "n < 65536" | "65536 \<le> n" by linarith
  then show thesis
  proof cases
    case 1
    have "len7 n \<noteq> 126" "len7 n \<noteq> 127" "ucast (len7 n) = (of_nat n :: u64)"
      using 1 by (simp_all add: len7_def word_unat_eq_iff unat_of_nat unsigned_ucast_eq take_bit_eq_mod)
    then show ?thesis using that [of e] assms(2) 1 by (simp add: read_length_def ext_length_def)
  next
    case 2
    then obtain e' where "SSL_read L ssl 2 e = (Data (be_bytes 2 (of_nat n)), e')" "sent e' = sent e" "recs e' = onwards x rs"
      using tls_read_exact [OF assms(1), of e "be_bytes 2 (of_nat n)" x rs] assms(2)
      by (auto simp: ext_length_def be_bytes_def)
    moreover have "from_bytes (be_bytes 2 (of_nat n)) = of_nat n"
      using 2 by (intro from_be_bytes_2) (simp add: word_le_nat_alt unat_of_nat_u64)
    ultimately show ?thesis using that [of e'] 2 assms(3) by (simp add: read_length_def len7_def onwards_def)
  next
    case 3
    then obtain e' where "SSL_read L ssl 8 e = (Data (be_bytes 8 (of_nat n)), e')" "sent e' = sent e" "recs e' = onwards x rs"
      using tls_read_exact [OF assms(1), of e "be_bytes 8 (of_nat n)" x rs] assms(2)
      by (auto simp: ext_length_def be_bytes_def)
    then show ?thesis using that [of e'] 3 assms(3) by (simp add: read_length_def len7_def onwards_def from_be_bytes_8)
  qed
qed

section \<open>Text frames\<close>

text \<open>A masked frame as a client sends it.\<close>

definition client_head :: "byte \<Rightarrow> byte list \<Rightarrow> nat \<Rightarrow> byte list" where
  "client_head b0 key n = b0 # (0x80 OR len7 n) # ext_length n @ key"

lemma read_text_run:
  assumes "tls_session L ssl recs sent" "recs (n_env n) = (ext_length (length p) @ key @ q) # rs" "[] \<notin> set rs"
    and "q @ concat rs = xor_mask key p @ rest" "length key = 4" "length p \<le> bufsize" "length p < 2 ^ 64"
  shows "\<exists>e'. read_text L fd ssl (len7 (length p)) buf bufsize n
      = Inr (int (length p), p @ drop (length p) buf, n\<lparr>n_env := e'\<rparr>) \<and>
    concat (recs e') = rest \<and> sent e' = sent (n_env n)"
proof -
  have "key @ q \<noteq> []" using assms(5) by auto
  then obtain e1 where e1: "read_length L ssl (len7 (length p)) (n_env n) = (Some (of_nat (length p)), e1)"
    "sent e1 = sent (n_env n)" "recs e1 = (key @ q) # rs"
    using read_length_run [OF assms(1,2)] assms(7) by metis
  have k: "key \<noteq> []" using assms(5) by auto
  obtain e2 where e2: "SSL_read L ssl 4 e1 = (Data key, e2)" "sent e2 = sent e1" "recs e2 = onwards q rs"
    using tls_read_exact [OF assms(1) e1(3) k] assms(5) by metis
  have c: "concat (recs e2) = xor_mask key p @ rest" using e2(3) assms(4) by simp
  have "[] \<notin> set (recs e2)" "length p \<le> length ([] :: byte list) + length (concat (recs e2))"
    using e2(3) assms(3) c by simp_all
  from read_payload_run [OF assms(1) this] obtain e3 where
    e3: "read_payload L ssl (length p) [] e2 = ((True, xor_mask key p), e3)" "sent e3 = sent e2" "concat (recs e3) = rest"
    using c by auto
  have "read_text L fd ssl (len7 (length p)) buf bufsize n
      = Inr (int (length p), p @ drop (length p) buf, n\<lparr>n_env := e3\<rparr>)"
    using e1(1) e2(1) e3(1) assms(5,6)
    by (simp add: read_text_def unat_of_nat_u64 [OF assms(7)] xor_mask_involution)
  then show ?thesis using e1(2) e2(2) e3(2,3) by auto
qed

lemma ws_read_run:
  assumes "ssl_table_get fd (n_table n) = Inr (Some ssl)" "tls_session L ssl recs sent"
    and "recs (n_env n) = (b0 # b1 # x) # rs"
  obtains e1 where "sent e1 = sent (n_env n)" "recs e1 = onwards x rs"
    "ws_read L fd buf bufsize n =
      (let payload_len = b1 AND 0x7F; opcode = b0 AND 0x0F; n1 = n\<lparr>n_env := e1\<rparr> in
       if opcode = 0x8 then
         and_then (ws_send_close L fd 1000 (Some ''Bye!'') n1) (\<lambda>(_, n2). Inr (SUCCESS, buf, n2))
       else if opcode = 0x9 then Inr (1, buf, n\<lparr>n_env := answer_ping L ssl (unat payload_len) e1\<rparr>)
       else if opcode \<noteq> 0x1 then
         and_then (ws_send_close L fd 1002 (Some ''Protocol error: unsupported opcode'') n1)
           (\<lambda>(_, n2). Inr (0, buf, n2))
       else read_text L fd ssl payload_len buf bufsize n1)"
proof -
  obtain e1 where "read_header L ssl [] (n_env n) = (Some [b0, b1], e1)" "sent e1 = sent (n_env n)"
    "recs e1 = onwards x rs"
    using read_header_run [OF assms(2,3)] by blast
  then show thesis using that assms(1) by (simp add: ws_read_def)
qed

lemma client_frame_run:
  assumes "ssl_table_get fd (n_table n) = Inr (Some ssl)" "tls_session L ssl recs sent"
    and "recs (n_env n) = (client_head 0x81 key (length p) @ q) # rs" "[] \<notin> set rs"
    and "q @ concat rs = xor_mask key p @ rest" "length key = 4" "length p \<le> bufsize" "length p < 2 ^ 64"
  shows "\<exists>e'. ws_read L fd buf bufsize n = Inr (int (length p), p @ drop (length p) buf, n\<lparr>n_env := e'\<rparr>) \<and>
    concat (recs e') = rest \<and> sent e' = sent (n_env n)"
proof -
  let ?x = "ext_length (length p) @ key @ q"
  have r: "recs (n_env n) = (0x81 # (0x80 OR len7 (length p)) # ?x) # rs" using assms(3) by (simp add: client_head_def)
  obtain e1 where e1: "sent e1 = sent (n_env n)" "recs e1 = onwards ?x rs"
    "ws_read L fd buf bufsize n = read_text L fd ssl (len7 (length p)) buf bufsize (n\<lparr>n_env := e1\<rparr>)"
    using ws_read_run [OF assms(1,2) r, of buf bufsize] by (auto simp: len7_masked)
  have "?x \<noteq> []" using assms(6) by auto
  then have "recs (n_env (n\<lparr>n_env := e1\<rparr>)) = ?x # rs" using e1(2) by (simp add: onwards_def)
  from read_text_run [OF assms(2) this assms(4-8), of fd buf] e1 show ?thesis by simp
qed

text \<open>
  C17: \<open>ws_read\<close> undoes a client's framing: for every payload that fits the buffer, every mask and
  every way TLS cuts the payload (and what follows it) into records, provided the header and
  the mask are in one record, it returns the payload and its length and leaves exactly what
  follows the frame to be read.
\<close>
theorem client_frame_read_back:
  assumes "ssl_table_get fd (n_table n) = Inr (Some ssl)" "tls_session L ssl recs sent"
    and "recs (n_env n) = (client_head 0x81 key (length p) @ q) # rs" "[] \<notin> set rs"
    and "q @ concat rs = xor_mask key p @ rest" "length key = 4" "length p \<le> bufsize" "length p < 2 ^ 64"
  shows "\<exists>e'. ws_read L fd buf bufsize n = Inr (int (length p), p @ drop (length p) buf, n\<lparr>n_env := e'\<rparr>) \<and>
    concat (recs e') = rest \<and> sent e' = sent (n_env n)"
  using assms by (rule client_frame_run)

text \<open>A client's reading of a frame: first byte, payload, what follows; servers must not mask.\<close>

definition be_value :: "byte list \<Rightarrow> nat" where
  "be_value bs = foldl (\<lambda>n b. 256 * n + unat b) 0 bs"

fun rfc_decode :: "byte list \<Rightarrow> (byte \<times> byte list \<times> byte list) option" where
  "rfc_decode (b0 # b1 # bs) =
     (let l = unat (b1 AND 0x7F);
          k = (if l < 126 then 0 else if l = 126 then 2 else 8);
          n = (if k = 0 then l else be_value (take k bs))
      in if 128 \<le> unat b1 \<or> length bs < k + n then None
         else Some (b0, take n (drop k bs), drop (k + n) bs))"
| "rfc_decode _ = None"

lemma be_value_bytes: "foldl (\<lambda>n b. 256 * n + unat b) a (be_bytes k v) = a * 256 ^ k + unat v mod 256 ^ k"
proof (induction k arbitrary: a)
  case 0
  then show ?case by (simp add: be_bytes_def)
next
  case (Suc k)
  have b: "unat (ucast (drop_bit (8 * k) v) :: byte) = unat v div 256 ^ k mod 256"
    by (simp only: unsigned_ucast_eq unat_drop_bit_eq) (simp add: take_bit_eq_mod drop_bit_eq_div power_mult)
  have "unat v mod 256 ^ Suc k = (unat v div 256 ^ k mod 256) * 256 ^ k + unat v mod 256 ^ k"
    using mod_mult2_eq [of "unat v" "256 ^ k" 256] by (simp add: mult.commute)
  then show ?case by (simp only: be_bytes_Suc foldl_Cons Suc.IH b) (simp add: algebra_simps)
qed

lemma decode_head:
  assumes "n = length p" "n < 2 ^ 64"
  shows "rfc_decode (b0 # len7 n # ext_length n @ p @ rest) = Some (b0, p, rest)"
proof -
  have l: "len7 n AND 0x7F = len7 n" using len7_masked [of n] by (metis and.assoc and.idem)
  consider "n < 126" | "126 \<le> n" "n < 65536" | "65536 \<le> n" by linarith
  then show ?thesis
  proof cases
    case 1
    then have "unat (len7 n) = n" by (simp add: len7_def unat_of_nat)
    with 1 show ?thesis using assms(1) by (simp add: l [unfolded assms(1)] ext_length_def)
  next
    case 2
    have "be_value (be_bytes 2 (of_nat n)) = n"
      using 2 by (simp add: be_value_def be_value_bytes unat_of_nat_u64 [OF assms(2)])
    with 2 show ?thesis using assms(1) by (simp add: l [unfolded assms(1)] ext_length_def) (simp add: len7_def)
  next
    case 3
    have "be_value (be_bytes 8 (of_nat n)) = n"
      using assms(2) by (simp add: be_value_def be_value_bytes unat_of_nat_u64 [OF assms(2)])
    with 3 show ?thesis using assms(1) by (simp add: l [unfolded assms(1)] ext_length_def) (simp add: len7_def)
  qed
qed

lemma byte_and_ff: "ucast (w AND 0xFF) = (ucast w :: byte)" for w :: u64
proof -
  have "w AND 0xFF = take_bit 8 w" by (simp add: take_bit_eq_mask mask_eq_exp_minus_1)
  then show ?thesis by (auto intro!: bit_word_eqI simp: bit_simps)
qed

lemma frame_head_eq: "n < 2 ^ 64 \<Longrightarrow> frame_head (of_nat n) = 0x81 # len7 n # ext_length n"
proof -
  assume n: "n < 2 ^ 64"
  have "(of_nat n :: u64) < 126 \<longleftrightarrow> n < 126" "(of_nat n :: u64) \<le> 0xFFFF \<longleftrightarrow> n < 65536"
    using n by (auto simp: word_less_nat_alt word_le_nat_alt unat_of_nat_u64)
  moreover have "ucast (of_nat n :: u64) = (of_nat n :: byte)" if "n < 126"
    using that n by (simp add: word_unat_eq_iff unsigned_ucast_eq take_bit_eq_mod unat_of_nat)
  ultimately show ?thesis
    by (simp add: frame_head_def len7_def ext_length_def be_bytes_def byte_and_ff numeral_2_eq_2)
qed


section \<open>A wire to try it on\<close>

text \<open>Sessions that are lists of records still to be read and bytes written.\<close>

record wire =
  w_in :: "nat \<Rightarrow> byte list list"
  w_out :: "nat \<Rightarrow> byte list"

definition wire_lib :: "(nat, wire) openssl" where
  "wire_lib =
     \<lparr>SSL_read = (\<lambda>ssl k e. case w_in e ssl of
         [] \<Rightarrow> (Fail 1, e)
       | r # rs \<Rightarrow> (Data (take k r), e\<lparr>w_in := (w_in e)(ssl := onwards (drop k r) rs)\<rparr>)),
      SSL_write = (\<lambda>ssl bs e. (int (length bs), e\<lparr>w_out := (w_out e)(ssl := w_out e ssl @ bs)\<rparr>)),
      SSL_new = (\<lambda>e. (Some 0, e)), SSL_shutdown = (\<lambda>ssl e. e), SSL_free = (\<lambda>ssl e. e),
      SHA1 = (\<lambda>bs. bs), BIO_base64 = (\<lambda>bs. []), SSL_CTX_new = (\<lambda>e. (True, e)), SSL_CTX_free = (\<lambda>e. e),
      SSL_CTX_use_certificate_file = (\<lambda>f e. (1, e)), SSL_CTX_use_PrivateKey_file = (\<lambda>f e. (1, e)),
      os_socket = (\<lambda>e. (4, e)), os_bind = (\<lambda>s p e. (0, e)), os_listen = (\<lambda>s b e. (0, e)),
      os_accept = (\<lambda>s e. (5, e)), os_close = (\<lambda>fd e. e), os_select = (\<lambda>m fds e. ((0, {}), e))\<rparr>"

lemma wire_session: "tls_session wire_lib ssl (\<lambda>e. w_in e ssl) (\<lambda>e. w_out e ssl)"
  by (auto simp: tls_session_def wire_lib_def onwards_def)

definition demo_net :: "byte list list \<Rightarrow> (nat, wire) net" where
  "demo_net recs = \<lparr>n_table = table_add 5 0 (ssl_table_init no_table),
     n_pool = \<lparr>task_q = empty_ring (0, 0), task_dq = empty_ring (0, 0)\<rparr>, n_sock = 4, n_ctx = True,
     n_env = \<lparr>w_in = (\<lambda>_. recs), w_out = (\<lambda>_. [])\<rparr>\<rparr>"

lemma demo_net_get: "ssl_table_get 5 (n_table (demo_net recs)) = Inr (Some 0)"
  by (simp add: demo_net_def get_eq tbl.ok_upd wf_table_init tbl.look_after_upd)

text \<open>The payload \<open>Hi!\<close> masked with 1, 2, 3, 4, cut after its first byte, and a byte of the next frame.\<close>

theorem client_frame_read_back_witness:
  "\<exists>e'. ws_read wire_lib 5 [0, 0, 0, 0] 4 (demo_net [[0x81, 0x83, 1, 2, 3, 4, 0x49], [0x6B, 0x22, 0x81]])
      = Inr (3, [0x48, 0x69, 0x21, 0], demo_net [] \<lparr>n_env := e'\<rparr>) \<and> concat (w_in e' 0) = [0x81]"
proof -
  let ?p = "[0x48, 0x69, 0x21] :: byte list" and ?key = "[1, 2, 3, 4] :: byte list"
  have x: "xor_mask ?key ?p = [0x49, 0x6B, 0x22]"
    by code_simp
  have h: "client_head 0x81 ?key (length ?p) = [0x81, 0x83, 1, 2, 3, 4]"
    by (simp add: client_head_def len7_def ext_length_def)
  from client_frame_read_back [where p = ?p and key = ?key and bufsize = 4 and buf = "[0, 0, 0, 0]" and rest = "[0x81]"
      and q = "[0x49]" and rs = "[[0x6B, 0x22, 0x81]]", OF demo_net_get wire_session, unfolded h x,
      of "[[0x81, 0x83, 1, 2, 3, 4, 0x49], [0x6B, 0x22, 0x81]]"]
  show ?thesis by (auto simp: demo_net_def)
qed


section \<open>Control frames\<close>

lemma send_close_run:
  assumes "ssl_table_get fd (n_table n) = Inr (Some ssl)" "tls_session L ssl recs sent"
  obtains e' where "ws_send_close L fd code reason n = Inr (0, n\<lparr>n_env := e'\<rparr>)" "recs e' = recs (n_env n)"
    "sent e' = sent (n_env n) @ 0x88 # of_nat (length (close_payload code reason)) # close_payload code reason"
proof -
  let ?f = "close_payload code reason"
  obtain e1 where e1: "SSL_write L ssl [0x88, of_nat (length ?f)] (n_env n) = (2, e1)"
    "sent e1 = sent (n_env n) @ [0x88, of_nat (length ?f)]" "recs e1 = recs (n_env n)"
    using tls_write [OF assms(2), of "[0x88, of_nat (length ?f)]" "n_env n"] by auto
  obtain e2 where e2: "SSL_write L ssl ?f e1 = (int (length ?f), e2)" "sent e2 = sent e1 @ ?f" "recs e2 = recs e1"
    using tls_write [OF assms(2)] by blast
  have "0 < length ?f" by (simp add: close_payload_def)
  then have "ws_send_close L fd code reason n = Inr (0, n\<lparr>n_env := e2\<rparr>)"
    using assms(1) e1(1) e2(1) by (simp add: ws_send_close_def Let_def)
  then show thesis using that e1 e2 by simp
qed

lemma masked_ping_run:
  assumes "ssl_table_get fd (n_table n) = Inr (Some ssl)" "tls_session L ssl recs sent"
    and "recs (n_env n) = (client_head 0x89 key (length p) @ xor_mask key p) # rs" "length key = 4" "length p \<le> 125"
  shows "\<exists>e' pong left. ws_read L fd buf bufsize n = Inr (1, buf, n\<lparr>n_env := e'\<rparr>) \<and>
    sent e' = sent (n_env n) @ 0x8A # of_nat (length p) # pong \<and> recs e' = left # rs \<and>
    key @ xor_mask key p = pong @ left \<and> length pong = length p \<and> length left = 4"
proof -
  let ?n = "length p" and ?x = "key @ xor_mask key p"
  let ?pong = "take ?n ?x" and ?left = "drop ?n ?x"
  have x: "length ?x = 4 + ?n" using assms(4) by simp
  have left: "length ?left = 4" "length ?pong = ?n" by (simp_all only: length_drop length_take x)
  then have len: "?left \<noteq> []" "length ?pong = ?n" by (metis list.size(3) zero_neq_numeral)+
  have k: "ext_length ?n = []" using assms(5) by (simp add: ext_length_def)
  have l: "unat (len7 ?n) = ?n" using assms(5) by (simp add: len7_def unat_of_nat)
  have r: "recs (n_env n) = (0x89 # (0x80 OR len7 ?n) # ?x) # rs" using assms(3) k by (simp add: client_head_def)
  obtain e1 where e1: "sent e1 = sent (n_env n)" "recs e1 = onwards ?x rs"
    "ws_read L fd buf bufsize n = Inr (1, buf, n\<lparr>n_env := answer_ping L ssl (unat (len7 ?n)) e1\<rparr>)"
    using ws_read_run [OF assms(1,2) r, of buf bufsize] by (auto simp: len7_masked)
  have "?x \<noteq> []" using assms(4) by auto
  then have r1: "recs e1 = (?pong @ ?left) # rs" unfolding e1(2) onwards_def append_take_drop_id by simp
  have "\<exists>e2. answer_ping L ssl ?n e1 = snd (m_ws_send_control_frame L ssl 0xA ?pong e2) \<and>
      sent e2 = sent e1 \<and> recs e2 = ?left # rs"
  proof (cases "?n = 0")
    case True
    then show ?thesis using r1 by (auto simp: answer_ping_def intro!: exI [of _ e1])
  next
    case False
    then have "?pong \<noteq> []" using len by auto
    from tls_read_exact [OF assms(2) r1 this] obtain e2 where
      "SSL_read L ssl ?n e1 = (Data ?pong, e2)" "sent e2 = sent e1" "recs e2 = ?left # rs"
      using len by (metis onwards_def)
    with False assms(5) len(2) show ?thesis by (auto simp: answer_ping_def intro!: exI [of _ e2])
  qed
  then obtain e2 where e2: "answer_ping L ssl ?n e1 = snd (m_ws_send_control_frame L ssl 0xA ?pong e2)"
    "sent e2 = sent e1" "recs e2 = ?left # rs" by blast
  obtain e3 where e3: "SSL_write L ssl (0x8A # of_nat ?n # ?pong) e2 = (int (length (0x8A # of_nat ?n # ?pong)), e3)"
    "sent e3 = sent e2 @ 0x8A # of_nat ?n # ?pong" "recs e3 = recs e2"
    using tls_write [OF assms(2)] by blast
  have a: "answer_ping L ssl ?n e1 = e3"
    using e2(1) e3(1) assms(5) len(2) by (simp add: m_ws_send_control_frame_def)
  show ?thesis
  proof (rule exI [of _ e3], rule exI [of _ ?pong], rule exI [of _ ?left], intro conjI)
    show "ws_read L fd buf bufsize n = Inr (1, buf, n\<lparr>n_env := e3\<rparr>)" using e1(3) unfolding l a .
    show "sent e3 = sent (n_env n) @ 0x8A # of_nat ?n # ?pong" using e3(2) unfolding e2(2) e1(1) .
    show "recs e3 = ?left # rs" using e3(3) unfolding e2(3) .
    show "?x = ?pong @ ?left" by (rule append_take_drop_id [symmetric])
  qed (fact left)+
qed

text \<open>
  C38: a ping as clients send it, masked, is answered from the wrong bytes: the pong carries as
  many bytes as the ping announces, but starting with the four mask bytes, and the last four
  bytes of the ping stay in the stream, where the next read takes them for a frame header. The
  number returned is 1, as if a payload of one byte had been stored.
\<close>
theorem masked_ping_desynchronises:
  assumes "ssl_table_get fd (n_table n) = Inr (Some ssl)" "tls_session L ssl recs sent"
    and "recs (n_env n) = (client_head 0x89 key (length p) @ xor_mask key p) # rs" "length key = 4" "length p \<le> 125"
  shows "\<exists>e' pong left. ws_read L fd buf bufsize n = Inr (1, buf, n\<lparr>n_env := e'\<rparr>) \<and>
    sent e' = sent (n_env n) @ 0x8A # of_nat (length p) # pong \<and> recs e' = left # rs \<and>
    key @ xor_mask key p = pong @ left \<and> length pong = length p \<and> length left = 4"
  using assms by (rule masked_ping_run)

text \<open>A ping with the payload \<open>M\<close>: the pong carries the first byte of the mask.\<close>

theorem masked_ping_desynchronises_witness:
  "\<exists>e'. ws_read wire_lib 5 [] 4096 (demo_net [[0x89, 0x81, 1, 2, 3, 4, 0x4C], [0x81]]) = Inr (1, [], demo_net [] \<lparr>n_env := e'\<rparr>) \<and>
    w_out e' 0 = [0x8A, 1, 1] \<and> w_in e' 0 = [[2, 3, 4, 0x4C], [0x81]]"
proof -
  have x: "xor_mask [1, 2, 3, 4] [0x4D] = [0x4C]" by code_simp
  have h: "client_head 0x89 [1, 2, 3, 4] (length [0x4D :: byte]) @ xor_mask [1, 2, 3, 4] [0x4D] = [0x89, 0x81, 1, 2, 3, 4, 0x4C]"
    unfolding x by (simp add: client_head_def len7_def ext_length_def)
  let ?n = "demo_net [[0x89, 0x81, 1, 2, 3, 4, 0x4C], [0x81]]"
  have i: "w_in (n_env ?n) 0 = (client_head 0x89 [1, 2, 3, 4] (length [0x4D :: byte]) @ xor_mask [1, 2, 3, 4] [0x4D]) # [[0x81]]"
    unfolding h by (simp add: demo_net_def)
  have o: "w_out (n_env ?n) 0 = []" by (simp add: demo_net_def)
  have l: "length [1, 2, 3, 4 :: byte] = 4" "length [0x4D :: byte] \<le> 125" by simp_all
  obtain e' pong left where e: "ws_read wire_lib 5 [] 4096 ?n = Inr (1, [], ?n\<lparr>n_env := e'\<rparr>)"
    "w_out e' 0 = [] @ 0x8A # of_nat (length [0x4D :: byte]) # pong" "w_in e' 0 = left # [[0x81]]"
    "[1, 2, 3, 4] @ [0x4C] = pong @ left" "length pong = length [0x4D :: byte]"
    using masked_ping_desynchronises [OF demo_net_get wire_session i l, of "[]" 4096] unfolding o x by blast
  then have "pong = [1]" "left = [2, 3, 4, 0x4C]" by (auto simp: length_Suc_conv)
  with e show ?thesis by (auto simp: demo_net_def)
qed

text \<open>
  What makes \<open>ws_read\<close> return 0, the end of the connection: a close frame is answered with
  status 1000, a frame that is neither text, ping nor close (a continuation frame included)
  with 1002, and so is a frame whose mask does not come in one read.
\<close>
theorem frames_that_end_the_connection:
  assumes "ssl_table_get fd (n_table n) = Inr (Some ssl)" "tls_session L ssl recs sent"
    and "recs (n_env n) = (b0 # b1 # x) # rs"
    and "b0 AND 0x0F \<noteq> 0x9" "b0 AND 0x0F = 0x1 \<longrightarrow> unat (b1 AND 0x7F) < 126 \<and> unat (b1 AND 0x7F) \<le> bufsize
      \<and> x \<noteq> [] \<and> length x < 4"
  shows "\<exists>e' code reason. ws_read L fd buf bufsize n = Inr (0, buf, n\<lparr>n_env := e'\<rparr>) \<and>
    sent e' = sent (n_env n) @ 0x88 # of_nat (length (close_payload code reason)) # close_payload code reason \<and>
    (code, reason) = (if b0 AND 0x0F = 0x8 then (1000, Some ''Bye!'')
      else if b0 AND 0x0F = 0x1 then (1002, Some ''Malformed frame'')
      else (1002, Some ''Protocol error: unsupported opcode''))"
proof -
  obtain e1 where e1: "sent e1 = sent (n_env n)" "recs e1 = onwards x rs"
    "ws_read L fd buf bufsize n =
      (let payload_len = b1 AND 0x7F; opcode = b0 AND 0x0F; n1 = n\<lparr>n_env := e1\<rparr> in
       if opcode = 0x8 then
         and_then (ws_send_close L fd 1000 (Some ''Bye!'') n1) (\<lambda>(_, n2). Inr (SUCCESS, buf, n2))
       else if opcode = 0x9 then Inr (1, buf, n\<lparr>n_env := answer_ping L ssl (unat payload_len) e1\<rparr>)
       else if opcode \<noteq> 0x1 then
         and_then (ws_send_close L fd 1002 (Some ''Protocol error: unsupported opcode'') n1)
           (\<lambda>(_, n2). Inr (0, buf, n2))
       else read_text L fd ssl payload_len buf bufsize n1)"
    using ws_read_run [OF assms(1-3)] by blast
  have close: "\<exists>e'. and_then (ws_send_close L fd code reason (n\<lparr>n_env := e\<rparr>)) (\<lambda>(_, n2). Inr (0, buf, n2))
      = Inr (0, buf, n\<lparr>n_env := e'\<rparr>) \<and> sent e' = sent (n_env n) @ 0x88
        # of_nat (length (close_payload code reason)) # close_payload code reason"
    if "sent e = sent (n_env n)" for code reason e
  proof -
    have "ssl_table_get fd (n_table (n\<lparr>n_env := e\<rparr>)) = Inr (Some ssl)" using assms(1) by simp
    from send_close_run [OF this assms(2), of code reason] show ?thesis using that by fastforce
  qed
  consider "b0 AND 0x0F = 0x8" | "b0 AND 0x0F = 0x1" | "b0 AND 0x0F \<noteq> 0x8" "b0 AND 0x0F \<noteq> 0x1" by blast
  then show ?thesis
  proof cases
    case 1
    then show ?thesis using e1(3) close [OF e1(1), of 1000 "Some ''Bye!''"] by simp
  next
    case 2
    let ?l = "b1 AND 0x7F"
    have x: "unat ?l < 126" "unat ?l \<le> bufsize" "x \<noteq> []" "length x < 4" using 2 assms(5) by auto
    have "?l \<noteq> 126" "?l \<noteq> 127" "unat (ucast ?l :: u64) = unat ?l" using x(1) by (auto simp: unsigned_ucast_eq take_bit_eq_mod)
    then have len: "read_length L ssl ?l e1 = (Some (ucast ?l), e1)" by (simp add: read_length_def)
    have "recs e1 = x # rs" using e1(2) x(3) by (simp add: onwards_def)
    then obtain e2 where e2: "SSL_read L ssl 4 e1 = (Data (take 4 x), e2)" "sent e2 = sent e1"
      using assms(2) x(3) unfolding tls_session_def by (metis zero_less_numeral)
    show ?thesis
      using 2 e1(3) close [of e2 1002 "Some ''Malformed frame''"] e1(1) e2 len x(2,4) \<open>unat (ucast ?l :: u64) = unat ?l\<close>
      by (simp add: read_text_def)
  next
    case 3
    then show ?thesis using e1(3) assms(4) close [OF e1(1), of 1002 "Some ''Protocol error: unsupported opcode''"] by simp
  qed
qed

theorem frames_that_end_the_connection_witness:
  "\<exists>e'. ws_read wire_lib 5 buf 4096 (demo_net [[0x88, 0x80, 1, 2, 3, 4]]) = Inr (0, buf, demo_net [] \<lparr>n_env := e'\<rparr>) \<and>
    w_out e' 0 = 0x88 # 6 # close_payload 1000 (Some ''Bye!'')"
proof -
  have "w_in (n_env (demo_net [[0x88, 0x80, 1, 2, 3, 4]])) 0 = [0x88 # 0x80 # [1, 2, 3, 4]]" by (simp add: demo_net_def)
  from frames_that_end_the_connection [OF demo_net_get wire_session this, of 4096 buf] show ?thesis
    by (auto simp: demo_net_def close_payload_def c_bytes_def)
qed

end
