(* ===== verification/Server.thy ===== *)
theory Server
  imports WebSocket Lifecycle
begin

text \<open>
  The connection handling of \<open>server/srcs/server/server.c\<close>: the messages of a client and their
  handlers, the \<open>select\<close> loop, the removal of clients, start and stop. With \<open>USE_SSL\<close> the calls
  \<open>accept\<close>, \<open>send\<close>, \<open>recv\<close> and \<open>close\<close> are those of \<open>ssl_al.c\<close>. The state \<open>srv\<close> is the game with
  the statics of \<open>server.c\<close> (\<open>world\<close>), the connection layer (\<open>net\<close>) and the listening socket.
  \<open>cJSON_Parse\<close> is a parameter \<open>parse\<close>; the contents of the uninitialised buffer on the stack
  are the parameter \<open>stack\<close>. Replies go to \<open>out\<close>, the list of what is handed to \<open>send\<close>.
  Log lines are left out.
\<close>

record ('ssl, 'e) srv =
  s_net :: "('ssl, 'e) net"
  s_world :: world
  s_sock :: int

section \<open>Messages\<close>

datatype client_message_type = type_cmd | type_login | type_unknown

definition client_messages :: "(client_message_type \<times> string) list" where
  "client_messages = [(type_cmd, ''cmd''), (type_login, ''login''), (type_unknown, ''unknown'')]"

definition m_get_message_type :: "string \<Rightarrow> client_message_type" where
  "m_get_message_type str = find_name type_unknown (butlast client_messages) str"

definition m_create_json_response ::
  "int \<Rightarrow> string \<Rightarrow> string \<Rightarrow> string option \<Rightarrow> world \<Rightarrow> int \<times> world" where
  "m_create_json_response fd type msg args w =
     (SUCCESS, send fd (JObject ([(''type'', JString type), (''msg'', JString msg)] @ opt_member ''args'' args)) w)"

text \<open>The same call where its return code is ignored.\<close>

definition tell :: "int \<Rightarrow> string \<Rightarrow> string \<Rightarrow> world \<Rightarrow> world" where
  "tell fd type msg w = snd (m_create_json_response fd type msg None w)"

definition m_handle_cmd :: "int \<Rightarrow> json \<Rightarrow> world \<Rightarrow> (int \<times> world) res" where
  "m_handle_cmd fd msg w =
     (case json_string (cJSON_GetObjectItem msg ''cmd'') of
        None \<Rightarrow> Inr (ERROR, w)
      | Some cmd \<Rightarrow> game_execute_command fd cmd (json_string (cJSON_GetObjectItem msg ''arg'')) w)"

definition m_handle_login_admin :: "int \<Rightarrow> json \<Rightarrow> world \<Rightarrow> (int \<times> world) res" where
  "m_handle_login_admin fd msg w = Inr (ERROR, tell fd ''ko'' ''Not handled yet'' w)"

definition m_handle_login_observer :: "int \<Rightarrow> json \<Rightarrow> world \<Rightarrow> (int \<times> world) res" where
  "m_handle_login_observer fd msg w =
     and_then (game_register_observer fd w) (\<lambda>(ret, w1).
     if ret = ERROR then Inr (ERROR, tell fd ''error'' ''Failed to register observer'' w1)
     else Inr (ret, tell fd ''ok'' ''Observer registered'' w1))"

definition welcome_json :: "int \<Rightarrow> world \<Rightarrow> json" where
  "welcome_json remaining w =
     JObject [(''type'', JString ''welcome''), (''remaining_clients'', JNumber remaining),
       (''map_size'', JObject [(''x'', JNumber (fst (game_get_map_size w))), (''y'', JNumber (snd (game_get_map_size w)))])]"

definition m_handle_login_client :: "int \<Rightarrow> json \<Rightarrow> world \<Rightarrow> (int \<times> world) res" where
  "m_handle_login_client fd msg w =
     (case json_string (cJSON_GetObjectItem msg ''team-name'') of
        None \<Rightarrow> Inr (ERROR, tell fd ''error'' ''Invalid team name'' w)
      | Some name \<Rightarrow>
          and_then (game_register_player fd name w) (\<lambda>(ret, w1).
          if ret = ERROR then Inr (ERROR, tell fd ''error'' ''Failed to register player'' w1)
          else
            and_then (game_get_team_remaining_clients fd w1) (\<lambda>remaining.
            Inr (ret, send fd (welcome_json remaining w1) w1))))"

definition login_roles :: "string list" where
  "login_roles = [''player'', ''admin'', ''observer'']"

definition m_login_handlers :: "(int \<Rightarrow> json \<Rightarrow> world \<Rightarrow> (int \<times> world) res) list" where
  "m_login_handlers = [m_handle_login_client, m_handle_login_admin, m_handle_login_observer]"

text \<open>The index at which the loop over the roles stops, 3 when none matches.\<close>

definition find_role :: "string \<Rightarrow> nat" where
  "find_role role = length (takeWhile (\<lambda>r. r \<noteq> role) login_roles)"

definition m_handle_login :: "int \<Rightarrow> json \<Rightarrow> world \<Rightarrow> (int \<times> world) res" where
  "m_handle_login fd msg w =
     (case json_string (cJSON_GetObjectItem msg ''key'') of
        None \<Rightarrow> Inr (ERROR, w)
      | Some key \<Rightarrow>
          if key \<noteq> ''SOME_KEY'' then Inr (ERROR, tell fd ''error'' ''Invalid key'' w)
          else
            case json_string (cJSON_GetObjectItem msg ''role'') of
              None \<Rightarrow> Inr (ERROR, tell fd ''error'' ''Invalid team name'' w)
            | Some role \<Rightarrow>
                let i = find_role role in
                if i = 3 then Inr (ERROR, tell fd ''error'' ''Invalid role'' w)
                else
                  and_then ((m_login_handlers ! i) fd msg w) (\<lambda>(ret, w1).
                  if ret = ERROR then Inr (ERROR, w1) else Inr (SUCCESS, w1)))"

text \<open>\<open>m_handlers[type]\<close>\<close>

fun m_handlers :: "client_message_type \<Rightarrow> int \<Rightarrow> json \<Rightarrow> world \<Rightarrow> (int \<times> world) res" where
  "m_handlers type_cmd = m_handle_cmd"
| "m_handlers type_login = m_handle_login"
| "m_handlers type_unknown = (\<lambda>fd msg w. Inl Null_Deref)"

definition m_handle_client_message ::
  "(string \<Rightarrow> json option) \<Rightarrow> int \<Rightarrow> byte list \<Rightarrow> int \<Rightarrow> world \<Rightarrow> (int \<times> world) res" where
  "m_handle_client_message parse fd buffer bytes w =
     and_then (arr_set buffer bytes 0) (\<lambda>buffer.
     case parse (c_string buffer) of
       None \<Rightarrow> Inr (ERROR, w)
     | Some msg \<Rightarrow>
         (case json_string (cJSON_GetObjectItem msg ''type'') of
            None \<Rightarrow> Inr (ERROR, tell fd ''error'' ''Invalid JSON format'' w)
          | Some t \<Rightarrow>
              let type = m_get_message_type t in
              if type = type_unknown then Inr (ERROR, tell fd ''error'' ''Unknown message type'' w)
              else
                and_then (m_handlers type fd msg w) (\<lambda>(ret, w1).
                if ret = ERROR then Inr (ERROR, tell fd ''error'' ''Failed to handle message'' w1)
                else Inr (SUCCESS, w1))))"

section \<open>Descriptors\<close>

text \<open>An \<open>fd_set\<close> has 1024 bits.\<close>

definition fd_bit :: "int \<Rightarrow> 'a \<Rightarrow> 'a res" where
  "fd_bit fd x = (if 0 \<le> fd \<and> fd < 1024 then Inr x else Inl Out_Of_Bounds)"

text \<open>The macro \<open>REMOVE_CLIENT\<close>.\<close>

definition REMOVE_CLIENT ::
  "('ssl, 'e) openssl \<Rightarrow> int \<Rightarrow> ('ssl, 'e) srv \<Rightarrow> ('ssl, 'e) srv res" where
  "REMOVE_CLIENT L fd s =
     (let w = s_world s in
      and_then (fd_bit fd (m_read_fds w - {fd})) (\<lambda>fds.
      and_then (game_kill_player fd (w\<lparr>m_read_fds := fds\<rparr>)) (\<lambda>(_, w1).
      and_then (ws_close L fd (s_net s)) (\<lambda>(_, n1).
      Inr (s\<lparr>s_net := n1, s_world := w1\<lparr>closed := closed w1 @ [fd]\<rparr>\<rparr>)))))"

definition cb_on_accept_success :: "int \<Rightarrow> world \<Rightarrow> (int \<times> world) res" where
  "cb_on_accept_success fd w =
     and_then (fd_bit fd (insert fd (m_read_fds w))) (\<lambda>fds.
     let w1 = w\<lparr>m_read_fds := fds\<rparr>;
         w2 = (if fd > m_max_fd w1 then w1\<lparr>m_max_fd := fd\<rparr> else w1);
         (ret, w3) = m_create_json_response fd ''bienvenue'' ''Whoa! Knock knock, whos there?'' None w2
     in if ret = ERROR then Inr (ERROR, w3) else Inr (SUCCESS, w3))"

definition m_handle_new_client :: "('ssl, 'e) openssl \<Rightarrow> ('ssl, 'e) srv \<Rightarrow> int \<times> ('ssl, 'e) srv" where
  "m_handle_new_client L s =
     (let (new_client, n1) = ssl_al_accept_client L (s_net s); s1 = s\<lparr>s_net := n1\<rparr> in
      if new_client = ERROR then (ERROR, s1) else (SUCCESS, s1))"

definition m_handle_client_event ::
  "('ssl, 'e) openssl \<Rightarrow> (string \<Rightarrow> json option) \<Rightarrow> byte list \<Rightarrow> int \<Rightarrow> ('ssl, 'e) srv \<Rightarrow>
   (int \<times> ('ssl, 'e) srv) res" where
  "m_handle_client_event L parse stack fd s =
     and_then (ws_read L fd stack 4096 (s_net s)) (\<lambda>(bytes, buffer, n1).
     let s1 = s\<lparr>s_net := n1\<rparr> in
     if bytes \<le> 0 then and_then (REMOVE_CLIENT L fd s1) (\<lambda>s2. Inr (SUCCESS, s2))
     else
       and_then (m_handle_client_message parse fd buffer bytes (s_world s1)) (\<lambda>(ret, w1).
       let s2 = s1\<lparr>s_world := w1\<rparr> in
       if ret = ERROR then Inr (ERROR, s2) else Inr (SUCCESS, s2)))"

section \<open>Removing the dead\<close>

text \<open>The loop of \<open>m_remove_clients\<close>; a freed node is gone from the heap.\<close>

fun remove_loop ::
  "nat \<Rightarrow> ('ssl, 'e) openssl \<Rightarrow> ptr \<Rightarrow> ('ssl, 'e) srv \<Rightarrow> ('ssl, 'e) srv res" where
  "remove_loop fuel L None s = Inr s"
| "remove_loop 0 L (Some a) s = Inl Out_Of_Fuel"
| "remove_loop (Suc fuel) L (Some a) s =
     and_then (ft_list_get_next (list_heap (s_world s)) (Some (m_clients (s_world s))) (Some a)) (\<lambda>next_client.
     and_then (deref (list_heap (s_world s)) (Some a)) (\<lambda>client.
     and_then (REMOVE_CLIENT L (it_fd client) s) (\<lambda>s1.
     remove_loop fuel L next_client
       (s1\<lparr>s_world := (s_world s1)\<lparr>list_heap := (list_heap (s_world s1))(a := None)\<rparr>\<rparr>))))"

definition m_remove_clients :: "nat \<Rightarrow> ('ssl, 'e) openssl \<Rightarrow> ('ssl, 'e) srv \<Rightarrow> ('ssl, 'e) srv res" where
  "m_remove_clients fuel L s =
     and_then (ft_list_get_first fuel (list_heap (s_world s)) (Some (m_clients (s_world s)))) (\<lambda>client.
     and_then (remove_loop fuel L client s) (\<lambda>s1.
     Inr (s1\<lparr>s_world := (s_world s1)\<lparr>m_clients := None\<rparr>\<rparr>)))"

section \<open>The select loop\<close>

text \<open>One round of the loop over the descriptors; the running state has the last \<open>ret\<close>.\<close>

definition select_fd ::
  "('ssl, 'e) openssl \<Rightarrow> (string \<Rightarrow> json option) \<Rightarrow> (int \<Rightarrow> byte list) \<Rightarrow> int set \<Rightarrow> int \<Rightarrow>
   int \<times> ('ssl, 'e) srv \<Rightarrow> (int \<times> ('ssl, 'e) srv) res" where
  "select_fd L parse stack ready fd rs =
     (let (ret, s) = rs in
      and_then (fd_bit fd (fd \<in> ready)) (\<lambda>set.
      if \<not> set then Inr (ret, s)
      else if fd = s_sock s then
        let (r, s1) = m_handle_new_client L s in Inr (if r = ERROR then 0 else r, s1)
      else
        and_then (m_handle_client_event L parse (stack fd) fd s) (\<lambda>(r, s1).
        if r = ERROR then and_then (REMOVE_CLIENT L fd s1) (\<lambda>s2. Inr (0, s2)) else Inr (r, s1))))"

definition server_select ::
  "nat \<Rightarrow> ('ssl, 'e) openssl \<Rightarrow> (string \<Rightarrow> json option) \<Rightarrow> (int \<Rightarrow> byte list) \<Rightarrow> ('ssl, 'e) srv \<Rightarrow>
   (int \<times> ('ssl, 'e) srv) res" where
  "server_select fuel L parse stack s =
     and_then (ssl_al_lookup_new_clients fuel L
         (\<lambda>fd w. and_then (cb_on_accept_success fd w) (\<lambda>(_, w1). Inr w1)) (s_net s, s_world s)) (\<lambda>(_, n1, w1).
     let ((ret, ready), e2) = os_select L (m_max_fd w1 + 1) (m_read_fds w1) (n_env n1);
         s2 = s\<lparr>s_net := n1\<lparr>n_env := e2\<rparr>, s_world := w1\<rparr> in
     if ret < 0 then Inr (ERROR, s2)
     else if ret = 0 then Inr (0, s2)
     else
       and_then (for_each (map int [0..<nat (m_max_fd w1 + 1)]) (select_fd L parse stack ready) (ret, s2)) (\<lambda>(ret, s3).
       and_then (m_remove_clients fuel L s3) (\<lambda>s4. Inr (ret, s4))))"

section \<open>Start and stop\<close>

definition init_server ::
  "('ssl, 'e) openssl \<Rightarrow> int \<Rightarrow> string \<Rightarrow> string \<Rightarrow> ('ssl, 'e) srv \<Rightarrow> (int \<times> ('ssl, 'e) srv) res" where
  "init_server L port cert key s =
     (let (sock, n1) = init_ssl_al L cert key port (s_net s); s1 = s\<lparr>s_net := n1, s_sock := sock\<rparr> in
      if sock = ERROR then Inr (ERROR, s1)
      else
        and_then (fd_bit sock {sock}) (\<lambda>fds.
        Inr (SUCCESS, s1\<lparr>s_net := set_server_socket sock n1,
          s_world := (s_world s1)\<lparr>m_max_fd := sock, m_read_fds := fds\<rparr>\<rparr>)))"

definition cleanup_fd :: "('ssl, 'e) openssl \<Rightarrow> int \<Rightarrow> ('ssl, 'e) srv \<Rightarrow> ('ssl, 'e) srv res" where
  "cleanup_fd L fd s =
     and_then (fd_bit fd (fd \<in> m_read_fds (s_world s))) (\<lambda>set.
     if set then REMOVE_CLIENT L fd s else Inr s)"

definition cleanup_server :: "('ssl, 'e) openssl \<Rightarrow> ('ssl, 'e) srv \<Rightarrow> ('ssl, 'e) srv res" where
  "cleanup_server L s =
     and_then (for_each (map int [0..<nat (m_max_fd (s_world s) + 1)]) (cleanup_fd L) s) (\<lambda>s1.
     let n1 = snd (cleanup_ssl_al L (s_net s1)) in
     Inr (s1\<lparr>s_net := n1\<lparr>n_table := ssl_table_free (n_table n1)\<rparr>\<rparr>))"

end
