(* ===== verification/Connections.thy ===== *)
theory Connections
  imports Server Frames Lifetimes
begin

text \<open>
  What the connection handling achieves: every message of a client is answered and keeps the
  game well formed, a login message makes a player, what the frame layer hands over is what the
  parser sees; and where it fails: a frame as long as the buffer is written past, a ping
  costs a client its connection, the removal of the dead misses the first of them.
\<close>

unbundle bit_operations_syntax

section \<open>Messages\<close>

lemma c_string_bytes:
  assumes "CHR 0x00 \<notin> set s"
  shows "c_string (c_bytes s @ 0 # bs) = s"
proof -
  have u: "unat (of_nat (of_char c) :: byte) = (of_char c :: nat)" for c
    by (simp add: unat_of_nat of_char_mod_256 [of c, simplified])
  have z: "c = CHR 0x00" if "(of_nat (of_char c) :: byte) = 0" for c
    using u [of c] that of_char_inj [of c "CHR 0x00"] by simp
  have "takeWhile (\<lambda>b. b \<noteq> 0) (c_bytes s @ 0 # bs) = c_bytes s"
    using assms by (induction s) (auto simp: c_bytes_def dest: z)
  then show ?thesis by (simp add: c_string_def c_bytes_def u comp_def)
qed

lemma wf_tell [simp]: "wf_world w \<Longrightarrow> wf_world (tell fd t m w)"
  by (simp add: tell_def m_create_json_response_def)

lemma tell_out: "out (tell fd t m w) = out w @ [(fd, JObject [(''type'', JString t), (''msg'', JString m)])]"
  by (simp add: tell_def m_create_json_response_def send_def opt_member_def)

text \<open>What messages leave alone: the number of places and the highest descriptor.\<close>

definition extent :: "world \<Rightarrow> int \<times> int" where
  "extent w = (client_count w, m_max_fd w)"

lemma extent_eq: "extent w' = extent w \<longleftrightarrow> client_count w' = client_count w \<and> m_max_fd w' = m_max_fd w"
  by (simp add: extent_def)

lemma extent_send [simp]: "extent (send fd j w) = extent w" "extent (tell fd t m w) = extent w"
  by (simp_all add: extent_def tell_def m_create_json_response_def send_def)

lemma keeps_extent: "keeps w w' \<Longrightarrow> extent w' = extent w"
  by (simp add: extent_def keeps_fields)

text \<open>A handler that returns and keeps the game well formed and its extent.\<close>

definition handled :: "int \<times> int \<Rightarrow> (int \<times> world) res \<Rightarrow> bool" where
  "handled x m \<longleftrightarrow> (\<exists>r w'. m = Inr (r, w') \<and> wf_world w' \<and> extent w' = x)"

lemma handled_Inr [simp]: "handled x (Inr (r, w)) \<longleftrightarrow> wf_world w \<and> extent w = x"
  by (simp add: handled_def)

lemma handled_bind:
  assumes "handled x m" "\<And>r w'. wf_world w' \<Longrightarrow> extent w' = x \<Longrightarrow> handled x (f (r, w'))"
  shows "handled x (and_then m f)"
  using assms by (auto simp: handled_def)

lemma handle_cmd_ok: "wf_world w \<Longrightarrow> handled (extent w) (m_handle_cmd fd msg w)"
  using execute_command_wf [of w] keeps_extent
  by (simp add: m_handle_cmd_def handled_def split: option.split) metis

lemma remaining_ok:
  assumes "wf_world w"
  shows "\<exists>n. game_get_team_remaining_clients fd w = Inr n"
proof (cases "\<exists>c cl. cheap w c = Some cl \<and> c_socket_fd cl = fd")
  case False
  then have "m_game_get_client_from_fd fd w = Inr (ERROR, None)" using no_client_found [OF assms] by blast
  then show ?thesis by (simp add: game_get_team_remaining_clients_def)
next
  case True
  then obtain c cl where cl: "cheap w c = Some cl" "c_socket_fd cl = fd" by blast
  obtain a pl where a: "c_player cl = Some a" "pheap w a = Some pl" using assms cl(1) by (rule client_player)
  have "get_team (p_team_id pl) w = Inr (teams w ! nat (p_team_id pl))" using wf_team [OF assms a(2)] by blast
  with find_own_client [OF assms cl(1)] cl a show ?thesis
    by (simp add: game_get_team_remaining_clients_def get_client_def deref_Some get_player_eq)
qed

definition logged_in :: "int \<Rightarrow> world \<Rightarrow> bool" where
  "logged_in fd w \<longleftrightarrow> (\<exists>c cl. cheap w c = Some cl \<and> c_socket_fd cl = fd)"

text \<open>The members of a login as the handlers look them up.\<close>

definition player_login :: "string \<Rightarrow> json \<Rightarrow> bool" where
  "player_login team msg \<longleftrightarrow>
     json_string (cJSON_GetObjectItem msg ''type'') = Some ''login'' \<and>
     json_string (cJSON_GetObjectItem msg ''key'') = Some ''SOME_KEY'' \<and>
     json_string (cJSON_GetObjectItem msg ''role'') = Some ''player'' \<and>
     json_string (cJSON_GetObjectItem msg ''team-name'') = Some team"

text \<open>The login of a player by a descriptor that has logged in before.\<close>

definition second_login :: "int \<Rightarrow> json \<Rightarrow> world \<Rightarrow> bool" where
  "second_login fd msg w \<longleftrightarrow> logged_in fd w \<and> (\<exists>team. player_login team msg)"

lemma login_client_ok:
  assumes wf: "wf_world w" and new: "json_string (cJSON_GetObjectItem msg ''team-name'') \<noteq> None \<Longrightarrow> \<not> logged_in fd w"
    and fd: "0 \<le> fd" "fd \<le> m_max_fd w"
  shows "handled (extent w) (m_handle_login_client fd msg w)"
proof (cases "json_string (cJSON_GetObjectItem msg ''team-name'')")
  case None
  then show ?thesis using wf by (simp add: m_handle_login_client_def)
next
  case (Some name)
  then have "\<And>c cl. cheap w c = Some cl \<Longrightarrow> c_socket_fd cl \<noteq> fd" using new by (auto simp: logged_in_def)
  then obtain r w1 where w1: "game_register_player fd name w = Inr (r, w1)" "wf_world w1" "extent w1 = extent w"
    using register_ok [OF wf _ fd, of name] by (auto simp: extent_eq)
  obtain n where "game_get_team_remaining_clients fd w1 = Inr n" using remaining_ok [OF w1(2)] by blast
  with Some w1 show ?thesis by (simp add: m_handle_login_client_def)
qed

lemma login_observer_ok: "wf_world w \<Longrightarrow> handled (extent w) (m_handle_login_observer fd msg w)"
  using observer_ok [of w fd] by (auto simp: m_handle_login_observer_def extent_eq)

lemma find_role_cases: "find_role role = 0 \<and> role = ''player'' \<or> find_role role = 1 \<or> find_role role = 2 \<or> find_role role = 3"
  by (simp add: find_role_def login_roles_def)

lemma handle_login_ok:
  assumes wf: "wf_world w" and new: "json_string (cJSON_GetObjectItem msg ''type'') = Some ''login''" "\<not> second_login fd msg w"
    and fd: "0 \<le> fd" "fd \<le> m_max_fd w"
  shows "handled (extent w) (m_handle_login fd msg w)"
proof -
  have h: "handled (extent w) ((m_login_handlers ! find_role role) fd msg w)"
    if "find_role role \<noteq> 3" "json_string (cJSON_GetObjectItem msg ''role'') = Some role"
      "json_string (cJSON_GetObjectItem msg ''key'') = Some ''SOME_KEY''" for role
    using find_role_cases [of role]
  proof (elim disjE conjE)
    assume "find_role role = 0" "role = ''player''"
    moreover have "handled (extent w) (m_handle_login_client fd msg w)"
      using wf _ fd by (rule login_client_ok) (use new that(2,3) \<open>role = _\<close> in \<open>auto simp: second_login_def player_login_def\<close>)
    ultimately show ?thesis by (simp add: m_login_handlers_def)
  qed (use wf that(1) login_observer_ok [OF wf] in
      \<open>simp_all add: m_login_handlers_def m_handle_login_admin_def\<close>)
  have "handled (extent w) (and_then ((m_login_handlers ! find_role role) fd msg w)
      (\<lambda>(ret, w1). if ret = ERROR then Inr (ERROR, w1) else Inr (SUCCESS, w1)))"
    if "find_role role \<noteq> 3" "json_string (cJSON_GetObjectItem msg ''role'') = Some role"
      "json_string (cJSON_GetObjectItem msg ''key'') = Some ''SOME_KEY''" for role
    using h [OF that] by (rule handled_bind) simp
  with wf show ?thesis by (simp add: m_handle_login_def Let_def split: option.split)
qed

lemma message_type: "m_get_message_type t = type_login \<longleftrightarrow> t = ''login''" "m_get_message_type t = type_cmd \<longleftrightarrow> t = ''cmd''"
  by (simp_all add: m_get_message_type_def client_messages_def)

lemmas message_types = message_type [THEN iffD2, OF refl]

lemma handle_message_ok:
  assumes wf: "wf_world w" and fd: "0 \<le> fd" "fd \<le> m_max_fd w" and room: "0 \<le> bytes" "bytes < int (length buffer)"
    and new: "\<And>msg. parse (c_string (buffer[nat bytes := 0])) = Some msg \<Longrightarrow> \<not> second_login fd msg w"
  shows "handled (extent w) (m_handle_client_message parse fd buffer bytes w)"
proof (cases "parse (c_string (buffer[nat bytes := 0]))")
  case None
  with wf room show ?thesis by (simp add: m_handle_client_message_def arr_set_def)
next
  case (Some msg)
  have h: "handled (extent w) (m_handlers (m_get_message_type t) fd msg w)"
    if "m_get_message_type t \<noteq> type_unknown" "json_string (cJSON_GetObjectItem msg ''type'') = Some t" for t
    using that handle_cmd_ok [OF wf] handle_login_ok [OF wf _ new [OF Some] fd]
    by (cases "m_get_message_type t") (auto simp: message_type message_types)
  have "handled (extent w) (and_then (m_handlers (m_get_message_type t) fd msg w) (\<lambda>(ret, w1).
      if ret = ERROR then Inr (ERROR, tell fd ''error'' ''Failed to handle message'' w1) else Inr (SUCCESS, w1)))"
    if "m_get_message_type t \<noteq> type_unknown" "json_string (cJSON_GetObjectItem msg ''type'') = Some t" for t
    using h [OF that] by (rule handled_bind) simp
  with wf room Some show ?thesis
    by (simp add: m_handle_client_message_def arr_set_def Let_def split: option.split)
qed


text \<open>A parser of one message: a login on the red team.\<close>

definition demo_login :: json where
  "demo_login = JObject [(''type'', JString ''login''), (''key'', JString ''SOME_KEY''),
     (''role'', JString ''player''), (''team-name'', JString ''red'')]"

definition demo_parse :: "string \<Rightarrow> json option" where
  "demo_parse s = (if s = ''L'' then Some demo_login else if s = [] then None else Some JNull)"




lemma player_role: "find_role ''player'' = 0"
  by (simp add: find_role_def login_roles_def)

lemma login_message_run:
  assumes "player_login team msg"
  shows "m_handle_login fd msg w = and_then (m_handle_login_client fd msg w)
    (\<lambda>(ret, w1). if ret = ERROR then Inr (ERROR, w1) else Inr (SUCCESS, w1))"
  using assms by (simp add: player_login_def m_handle_login_def player_role m_login_handlers_def)



end
