(* ===== verification/Outages.thy ===== *)
theory Outages
  imports Connections
begin

text \<open>
  From the socket to the message handlers and back: which bytes the parser gets to see, what a
  ping does to a connection, how a connection opens, and how the dead are removed.
\<close>

unbundle bit_operations_syntax

section \<open>From frames to messages\<close>

lemma c_string_stop: "c_string (bs @ 0 # xs) = c_string bs"
proof -
  have "takeWhile (\<lambda>b. b \<noteq> 0) (bs @ 0 # xs) = takeWhile (\<lambda>b. b \<noteq> 0) bs" by (induction bs) auto
  then show ?thesis by (simp add: c_string_def)
qed


text \<open>A server with one connection, 5, that has sent the given records.\<close>

definition demo_srv :: "byte list list \<Rightarrow> (nat, wire) srv" where
  "demo_srv recs = \<lparr>s_net = demo_net recs, s_world = demo2, s_sock = 4\<rparr>"

lemma demo_srv_get: "ssl_table_get 5 (n_table (s_net (demo_srv recs))) = Inr (Some 0)"
  using demo_net_get by (simp add: demo_srv_def)


text \<open>
  C37: a text frame of exactly 4096 bytes, the size of the buffer, is accepted by \<open>ws_read\<close>, and
  the terminating zero is then written one past the end of the buffer; any connected client can
  do this, logged in or not.
\<close>
theorem full_frame_overflows:
  assumes "ssl_table_get fd (n_table (s_net s)) = Inr (Some ssl)" "tls_session L ssl recs sent"
    and "recs (n_env (s_net s)) = (client_head 0x81 key (length p) @ q) # rs" "[] \<notin> set rs"
    and "q @ concat rs = xor_mask key p @ rest" "length key = 4" "length p = 4096" "length stack = 4096"
  shows "m_handle_client_event L parse stack fd s = Inl Out_Of_Bounds"
proof -
  have len: "length p \<le> 4096" "length p < 2 ^ 64" using assms(7) by simp_all
  from client_frame_run [OF assms(1-6) len, of stack] obtain e' where
    "ws_read L fd stack 4096 (s_net s) = Inr (4096, p, (s_net s)\<lparr>n_env := e'\<rparr>)" using assms(7,8) by auto
  then show ?thesis
    using assms(7) by (simp add: m_handle_client_event_def m_handle_client_message_def arr_set_def)
qed

theorem full_frame_overflows_witness:
  "m_handle_client_event wire_lib (\<lambda>_. None) (replicate 4096 7) 5
    (demo_srv [client_head 0x81 [1, 2, 3, 4] 4096, xor_mask [1, 2, 3, 4] (replicate 4096 65)]) = Inl Out_Of_Bounds"
proof -
  have l: "length (replicate 4096 (65 :: byte)) = 4096" "length (replicate 4096 (7 :: byte)) = 4096" "length [1, 2, 3, 4 :: byte] = 4"
    by simp_all
  let ?x = "xor_mask [1, 2, 3, 4] (replicate 4096 65)"
  have "length ?x = 4096" by simp
  then have "?x \<noteq> []" by (metis list.size(3) zero_neq_numeral)
  then have x: "[] \<notin> set [?x]" by auto
  have i: "w_in (n_env (s_net (demo_srv [client_head 0x81 [1, 2, 3, 4] 4096, ?x]))) 0
      = (client_head 0x81 [1, 2, 3, 4] (length (replicate 4096 (65 :: byte))) @ []) # [?x]"
    by (simp add: demo_srv_def demo_net_def)
  have c: "[] @ concat [?x] = ?x @ []" by simp
  show ?thesis by (rule full_frame_overflows [OF demo_srv_get wire_session i x c l(3,1,2)])
qed

section \<open>Pings\<close>

text \<open>
  A ping costs the client its connection: \<open>ws_read\<close> reports one byte, the handler parses
  whatever byte the stack holds, and unless that byte is JSON the event is an error, after which
  the \<open>select\<close> loop removes the client.
\<close>
theorem ping_disconnects:
  assumes "ssl_table_get fd (n_table (s_net s)) = Inr (Some ssl)" "tls_session L ssl recs sent"
    and "recs (n_env (s_net s)) = (client_head 0x89 key (length p) @ xor_mask key p) # rs" "length key = 4" "length p \<le> 125"
    and "length (stack fd) = 4096" "parse (c_string [stack fd ! 0]) = None"
    and "fd \<in> ready" "fd \<noteq> s_sock s" "0 \<le> fd" "fd < 1024"
  shows "\<exists>e'. m_handle_client_event L parse (stack fd) fd s = Inr (ERROR, s\<lparr>s_net := (s_net s)\<lparr>n_env := e'\<rparr>\<rparr>) \<and>
    select_fd L parse stack ready fd (ret, s) =
      and_then (REMOVE_CLIENT L fd (s\<lparr>s_net := (s_net s)\<lparr>n_env := e'\<rparr>\<rparr>)) (\<lambda>s2. Inr (0, s2))"
proof -
  from masked_ping_run [OF assms(1-5), of "stack fd" 4096] obtain e' where
    r: "ws_read L fd (stack fd) 4096 (s_net s) = Inr (1, stack fd, (s_net s)\<lparr>n_env := e'\<rparr>)" by blast
  obtain b bs where b: "stack fd = b # bs" using assms(6) by (cases "stack fd") auto
  moreover have "bs \<noteq> []" using assms(6) b by auto
  ultimately have "c_string ((stack fd)[1 := 0]) = c_string [stack fd ! 0]"
    by (cases bs) (auto simp: c_string_def)
  with r assms(6,7) have "m_handle_client_event L parse (stack fd) fd s
      = Inr (ERROR, s\<lparr>s_net := (s_net s)\<lparr>n_env := e'\<rparr>\<rparr>)"
    by (simp add: m_handle_client_event_def m_handle_client_message_def arr_set_def)
  then show ?thesis using assms(8-11) by (intro exI [of _ e'] conjI) (simp_all add: select_fd_def fd_bit_def)
qed

theorem ping_disconnects_witness:
  "\<exists>s'. m_handle_client_event wire_lib demo_parse (replicate 4096 0) 5 (demo_srv [[0x89, 0x80, 1, 2, 3, 4]]) = Inr (ERROR, s') \<and>
    select_fd wire_lib demo_parse (\<lambda>_. replicate 4096 0) {5} 5 (0, demo_srv [[0x89, 0x80, 1, 2, 3, 4]])
      = and_then (REMOVE_CLIENT wire_lib 5 s') (\<lambda>s2. Inr (0, s2))"
proof -
  have h: "w_in (n_env (s_net (demo_srv [[0x89, 0x80, 1, 2, 3, 4]]))) 0
      = (client_head 0x89 [1, 2, 3, 4] (length []) @ xor_mask [1, 2, 3, 4] []) # []"
    by (simp add: client_head_def len7_def ext_length_def xor_mask_def demo_srv_def demo_net_def)
  have "length [1, 2, 3, 4 :: byte] = 4" "length ([] :: byte list) \<le> 125" "length (replicate 4096 (0 :: byte)) = 4096"
    "demo_parse (c_string [replicate 4096 0 ! 0]) = None" "(5 :: int) \<in> {5}" "5 \<noteq> s_sock (demo_srv [[0x89, 0x80, 1, 2, 3, 4]])"
    "(0 :: int) \<le> 5" "(5 :: int) < 1024"
    by (simp_all add: demo_parse_def c_string_def demo_srv_def)
  from ping_disconnects [where stack = "\<lambda>_. replicate 4096 0" and parse = demo_parse and key = "[1, 2, 3, 4]"
      and p = "[]" and rs = "[]" and ret = 0 and s = "demo_srv [[0x89, 0x80, 1, 2, 3, 4]]", OF demo_srv_get wire_session h this] show ?thesis by blast
qed

section \<open>Opening a connection\<close>

text \<open>
  When the handshake of a descriptor is done and its first record is an upgrade request, the
  descriptor gets its session, the client is sent the accept key of RFC 6455 (the base64 of the
  SHA-1 of its key and the GUID), the descriptor joins the watched ones, and the first
  message is the \<open>bienvenue\<close>.
\<close>
theorem handshake_opens_connection:
  assumes "wf_table (n_table n)" "tls_session L ssl recs sent" "recs (n_env n) = c_bytes request # rs"
    and "request \<noteq> []" "length request \<le> 4095" "CHR 0x00 \<notin> set request"
    and "strstr request ''Sec-WebSocket-Key: '' = Some (''Sec-WebSocket-Key: '' @ key @ sep # post)"
    and "\<forall>c \<in> set key. \<not> isspace c" "isspace sep" "key \<noteq> []" "length key \<le> 255"
    and "\<forall>bs. length (BIO_base64 L (SHA1 L bs)) \<le> 127"
    and "0 \<le> fd" "fd < 1024"
  shows "\<exists>n' w'. on_handshake_done L (\<lambda>fd w. and_then (cb_on_accept_success fd w) (\<lambda>(_, w1). Inr w1)) fd ssl (n, w)
      = Inr (n', w') \<and>
    wf_table (n_table n') \<and> lookup (n_table n') = (lookup (n_table n))(fd \<mapsto> ssl) \<and>
    sent (n_env n') = sent (n_env n) @ c_bytes (upgrade_response
      (BIO_base64 L (SHA1 L (c_bytes (key @ ''258EAFA5-E914-47DA-95CA-C5AB0DC85B11''))))) \<and>
    m_read_fds w' = insert fd (m_read_fds w) \<and> m_max_fd w' = max (m_max_fd w) fd \<and>
    out w' = out w @ [(fd, JObject [(''type'', JString ''bienvenue''), (''msg'', JString ''Whoa! Knock knock, whos there?'')])]"
proof -
  let ?t = "table_add fd ssl (n_table n)"
  have add: "ssl_table_add fd ssl (n_table n) = Inr (SUCCESS, ?t)"
    using assms(1) by (simp add: table_add_def add_eq)
  have b: "c_bytes request \<noteq> []" "length (c_bytes request) \<le> 4095" using assms(4,5) by (simp_all add: c_bytes_def)
  obtain e1 where e1: "SSL_read L ssl 4095 (n_env n) = (Data (c_bytes request), e1)" "sent e1 = sent (n_env n)"
    using assms(2,3) b unfolding tls_session_def by (metis take_all zero_less_numeral)
  have c: "c_string (c_bytes request) = request"
    using c_string_bytes [OF assms(6), of "[]"] by (simp add: c_string_stop)
  have key: "scan_key (''Sec-WebSocket-Key: '' @ key @ sep # post) = key"
  proof -
    obtain k ks where k: "key = k # ks" using assms(10) by (cases key) auto
    have "isspace (CHR '' '')" by (simp add: isspace_def)
    then have "dropWhile isspace (CHR '' '' # key @ sep # post) = key @ sep # post" using assms(8) k by simp
    moreover have "takeWhile (\<lambda>c. \<not> isspace c) (key @ sep # post) = key"
      using assms(8,9) by (simp add: takeWhile_append2)
    ultimately show ?thesis using assms(11) by (simp add: scan_key_def)
  qed
  let ?a = "BIO_base64 L (SHA1 L (c_bytes (key @ ''258EAFA5-E914-47DA-95CA-C5AB0DC85B11'')))"
  have "length ?a \<le> 127" using assms(12) by blast
  then have "length (upgrade_response ?a) \<le> 511" by (simp add: upgrade_response_def crlf_def)
  then have r: "take 511 (upgrade_response ?a) = upgrade_response ?a" by simp
  have g: "take 299 (key @ ''258EAFA5-E914-47DA-95CA-C5AB0DC85B11'') = key @ ''258EAFA5-E914-47DA-95CA-C5AB0DC85B11''"
    using assms(11) by simp
  obtain e2 where e2: "SSL_write L ssl (c_bytes (upgrade_response ?a)) e1
      = (int (length (c_bytes (upgrade_response ?a))), e2)" "sent e2 = sent e1 @ c_bytes (upgrade_response ?a)"
    using tls_write [OF assms(2)] by blast
  have h: "websocket_handshake L ssl request e1 = e2"
    by (simp only: websocket_handshake_def assms(7) option.case Let_def key g r e2(1) snd_conv)
  show ?thesis
    using add e1 e2 h b c assms(1,13,14)
    by (simp add: on_handshake_done_def Let_def cb_on_accept_success_def fd_bit_def m_create_json_response_def
        send_def opt_member_def tbl.ok_upd tbl.look_upd)
qed

definition demo_request :: string where
  "demo_request = ''GET /'' @ crlf @ ''Sec-WebSocket-Key: abc'' @ crlf"

theorem handshake_opens_connection_witness:
  "\<exists>n' w'. on_handshake_done wire_lib (\<lambda>fd w. and_then (cb_on_accept_success fd w) (\<lambda>(_, w1). Inr w1)) 6 1
      (demo_net [c_bytes demo_request], boot) = Inr (n', w') \<and>
    lookup (n_table n') 6 = Some 1 \<and> m_read_fds w' = {6} \<and> w_out (n_env n') 1 = c_bytes (upgrade_response [])"
proof -
  have t: "wf_table (n_table (demo_net recs))" for recs by (simp add: demo_net_def tbl.ok_upd wf_table_init)
  have i: "w_in (n_env (demo_net [c_bytes demo_request])) 1 = c_bytes demo_request # []" by (simp add: demo_net_def)
  have s: "strstr demo_request ''Sec-WebSocket-Key: ''
      = Some (''Sec-WebSocket-Key: '' @ ''abc'' @ CHR 0x0D # [CHR 0x0A])"
    by (simp add: demo_request_def crlf_def strstr.simps)
  have "demo_request \<noteq> []" "length demo_request \<le> 4095" "CHR 0x00 \<notin> set demo_request"
    "\<forall>c \<in> set ''abc''. \<not> isspace c" "isspace (CHR 0x0D)" "''abc'' \<noteq> []" "length ''abc'' \<le> 255"
    "\<forall>bs. length (BIO_base64 wire_lib (SHA1 wire_lib bs)) \<le> 127" "(0 :: int) \<le> 6" "(6 :: int) < 1024"
    by (simp_all add: demo_request_def crlf_def isspace_def wire_lib_def)
  from handshake_opens_connection [where w = boot, OF t wire_session i this(1-3) s this(4-10)]
  obtain n' w' where "on_handshake_done wire_lib (\<lambda>fd w. and_then (cb_on_accept_success fd w) (\<lambda>(_, w1). Inr w1)) 6 1
      (demo_net [c_bytes demo_request], boot) = Inr (n', w')"
    "lookup (n_table n') = (lookup (n_table (demo_net [c_bytes demo_request])))(6 \<mapsto> 1)"
    "w_out (n_env n') 1 = w_out (n_env (demo_net [c_bytes demo_request])) 1 @ c_bytes (upgrade_response
      (BIO_base64 wire_lib (SHA1 wire_lib (c_bytes (''abc'' @ ''258EAFA5-E914-47DA-95CA-C5AB0DC85B11'')))))"
    "m_read_fds w' = insert 6 (m_read_fds boot)" by blast
  then show ?thesis by (simp add: boot_def demo_net_def wire_lib_def)
qed

section \<open>Removing clients\<close>

lemma find_client_list: "find_client fd n i (w\<lparr>list_heap := X\<rparr>) = find_client fd n i w"
proof (induction n arbitrary: i)
  case (Suc n)
  have "get_slot i (w\<lparr>list_heap := X\<rparr>) = get_slot i w" by (simp add: get_slot_def)
  moreover have "get_client c (w\<lparr>list_heap := X\<rparr>) = get_client c w" for c by (simp add: get_client_def)
  ultimately show ?case by (simp add: Suc.IH cong: option.case_cong if_cong)
qed simp

lemma kill_list:
  assumes "game_kill_player fd w = Inr (r, w')"
  shows "game_kill_player fd (w\<lparr>list_heap := X\<rparr>) = Inr (r, w'\<lparr>list_heap := X\<rparr>)"
proof -
  have g: "m_game_get_client_from_fd fd (w\<lparr>list_heap := X\<rparr>) = m_game_get_client_from_fd fd w"
    by (simp add: m_game_get_client_from_fd_def find_client_list)
  obtain ret c where m: "m_game_get_client_from_fd fd w = Inr (ret, c)"
    using assms by (cases "m_game_get_client_from_fd fd w") (auto simp: game_kill_player_def)
  show ?thesis
  proof (cases "ret = ERROR")
    case True
    with assms m g show ?thesis by (simp add: game_kill_player_def)
  next
    case False
    then obtain cl where cl: "deref (cheap w) c = Inr cl"
      using assms m by (cases "deref (cheap w) c") (auto simp: game_kill_player_def get_client_def)
    have u: "upd_player p f (w\<lparr>list_heap := X\<rparr>) = and_then (update_ref (pheap w) p f) (\<lambda>h. Inr (w\<lparr>list_heap := X, pheap := h\<rparr>))"
      for p f by (simp add: upd_player_def)
    show ?thesis
    proof (cases "c_player cl = None")
      case True
      with False assms m g cl show ?thesis by (simp add: game_kill_player_def get_client_def)
    next
      case alive: False
      obtain h where "update_ref (pheap w) (c_player cl) (\<lambda>pl. pl\<lparr>p_die_time := 0, p_inv := (p_inv pl)\<lparr>nourriture := 0\<rparr>\<rparr>) = Inr h"
        using False alive assms m cl
        by (cases "update_ref (pheap w) (c_player cl) (\<lambda>pl. pl\<lparr>p_die_time := 0, p_inv := (p_inv pl)\<lparr>nourriture := 0\<rparr>\<rparr>)")
          (auto simp: game_kill_player_def get_client_def upd_player_def)
      with False alive assms m g cl show ?thesis
        by (auto simp: game_kill_player_def get_client_def u) (auto simp: upd_player_def)
    qed
  qed
qed

lemma wf_read_fds: "wf_world w \<Longrightarrow> wf_world (w\<lparr>m_read_fds := A\<rparr>)"
  by (rule wf_world_rest [of w]) (simp_all add: wf_world_def wf_rest_def wf_server_buffer_def)

lemma wf_closed: "wf_world w \<Longrightarrow> wf_world (w\<lparr>closed := A\<rparr>)"
  by (rule wf_world_rest [of w]) (simp_all add: wf_world_def wf_rest_def wf_server_buffer_def)

lemma close_ok:
  assumes "wf_table (n_table n)"
  shows "\<exists>r n1. ws_close L fd n = Inr (r, n1) \<and> wf_table (n_table n1) \<and> n_pool n1 = n_pool n \<and>
    (fd \<noteq> - 1 \<longrightarrow> lookup (n_table n1) = (lookup (n_table n))(fd := None))"
proof -
  have rm: "ssl_table_remove fd (n_table n) = Inr (table_remove fd (n_table n))"
    using assms by (simp add: table_remove_def remove_eq)
  have "lookup (n_table n) fd = None \<Longrightarrow> lookup (n_table n) = (lookup (n_table n))(fd := None)" by auto
  with assms rm show ?thesis
    by (auto simp: ws_close_def get_eq tbl.ok_del tbl.look_del split: option.split)
qed

text \<open>Removing a client while some of the nodes of the removal list are freed.\<close>

lemma remove_client_run:
  assumes "wf_world ((s_world s)\<lparr>list_heap := hp\<rparr>)" "wf_table (n_table (s_net s))" "0 \<le> fd" "fd < 1024"
  shows "\<exists>n1 w1. REMOVE_CLIENT L fd s = Inr (s\<lparr>s_net := n1, s_world := w1\<rparr>) \<and> wf_world (w1\<lparr>list_heap := hp\<rparr>) \<and>
    wf_table (n_table n1) \<and> closed w1 = closed (s_world s) @ [fd] \<and> list_heap w1 = list_heap (s_world s) \<and>
    m_clients w1 = m_clients (s_world s) \<and> client_count w1 = client_count (s_world s) \<and> n_pool n1 = n_pool (s_net s)"
proof -
  let ?w = "(s_world s)\<lparr>m_read_fds := m_read_fds (s_world s) - {fd}\<rparr>"
  have "?w\<lparr>list_heap := hp\<rparr> = (s_world s)\<lparr>list_heap := hp, m_read_fds := m_read_fds (s_world s) - {fd}\<rparr>" by simp
  then have "wf_world (?w\<lparr>list_heap := hp\<rparr>)" using wf_read_fds [OF assms(1), of "m_read_fds (s_world s) - {fd}"] by metis
  from kill_player_ok [OF this, of fd] obtain r w1 where
    w1: "game_kill_player fd (?w\<lparr>list_heap := hp\<rparr>) = Inr (r, w1)" "wf_world w1" "keeps (?w\<lparr>list_heap := hp\<rparr>) w1"
    by blast
  have k: "game_kill_player fd ?w = Inr (r, w1\<lparr>list_heap := list_heap (s_world s)\<rparr>)"
    using kill_list [OF w1(1), of "list_heap (s_world s)"] by simp
  obtain h ch ts os where e: "w1 = ?w\<lparr>list_heap := hp, pheap := h, cheap := ch, tiles := ts, out := os\<rparr>"
    using w1(3) by (rule keepsE) blast
  obtain r2 n1 where n1: "ws_close L fd (s_net s) = Inr (r2, n1)" "wf_table (n_table n1)"
    "n_pool n1 = n_pool (s_net s)"
    using close_ok [OF assms(2)] by blast
  let ?w2 = "w1\<lparr>list_heap := list_heap (s_world s), closed := closed w1 @ [fd]\<rparr>"
  have "REMOVE_CLIENT L fd s = Inr (s\<lparr>s_net := n1, s_world := ?w2\<rparr>)"
    using k n1(1) assms(3,4) by (simp add: REMOVE_CLIENT_def Let_def fd_bit_def)
  moreover have "wf_world (?w2\<lparr>list_heap := hp\<rparr>)"
  proof -
    have "?w2\<lparr>list_heap := hp\<rparr> = w1\<lparr>closed := closed w1 @ [fd]\<rparr>" unfolding e by simp
    then show ?thesis using wf_closed [OF w1(2)] by simp
  qed
  ultimately show ?thesis using n1(2,3) by (intro exI [of _ n1] exI [of _ ?w2]) (simp add: e)
qed

lemma remove_loop_run:
  assumes "wf_world ((s_world s)\<lparr>list_heap := hp\<rparr>)" "wf_table (n_table (s_net s))" "ring hp h ns" "m_clients (s_world s) = h"
    and "\<And>j. i \<le> j \<Longrightarrow> j < length ns \<Longrightarrow> list_heap (s_world s) (ns ! j) = hp (ns ! j)"
    and "\<And>a. a \<in> set ns \<Longrightarrow> 0 \<le> it_fd (the (hp a)) \<and> it_fd (the (hp a)) < 1024"
    and "i < length ns" "length ns \<le> fuel + i"
  shows "\<exists>s'. remove_loop fuel L (Some (ns ! i)) s = Inr s' \<and> wf_world ((s_world s')\<lparr>list_heap := hp\<rparr>) \<and>
    wf_table (n_table (s_net s')) \<and>
    closed (s_world s') = closed (s_world s) @ map (\<lambda>a. it_fd (the (hp a))) (drop i ns) \<and>
    list_heap (s_world s') \<subseteq>\<^sub>m list_heap (s_world s) \<and>
    client_count (s_world s') = client_count (s_world s) \<and> n_pool (s_net s') = n_pool (s_net s)"
  using assms
proof (induction fuel arbitrary: i s)
  case 0
  then show ?case by simp
next
  case (Suc fuel)
  let ?a = "ns ! i"
  obtain it where it: "hp ?a = Some it" "it_next it = (if Suc i < length ns then Some (ns ! Suc i) else h)"
    using ring_next [OF Suc.prems(3,7)] by blast
  have cur: "list_heap (s_world s) ?a = Some it" using Suc.prems(5) [of i] Suc.prems(7) it(1) by simp
  have h: "h \<noteq> None" using Suc.prems(3,7) by (cases ns) auto
  have nx: "ft_list_get_next (list_heap (s_world s)) (Some (m_clients (s_world s))) (Some ?a)
      = Inr (if Suc i < length ns then Some (ns ! Suc i) else None)"
    using cur it(2) h Suc.prems(4) ring_nth_neq_head [OF Suc.prems(3), of "Suc i"]
    by (auto simp: ft_list_get_next_def deref_Some)
  have fd: "0 \<le> it_fd it" "it_fd it < 1024" using Suc.prems(6) [of ?a] Suc.prems(7) it(1) by simp_all
  obtain n1 w1 where r: "REMOVE_CLIENT L (it_fd it) s = Inr (s\<lparr>s_net := n1, s_world := w1\<rparr>)"
    "wf_world (w1\<lparr>list_heap := hp\<rparr>)" "wf_table (n_table n1)" "closed w1 = closed (s_world s) @ [it_fd it]"
    "list_heap w1 = list_heap (s_world s)" "m_clients w1 = m_clients (s_world s)"
    "client_count w1 = client_count (s_world s)" "n_pool n1 = n_pool (s_net s)"
    using remove_client_run [OF Suc.prems(1,2) fd] by blast
  let ?s1 = "s\<lparr>s_net := n1, s_world := w1\<lparr>list_heap := (list_heap w1)(?a := None)\<rparr>\<rparr>"
  have run: "remove_loop (Suc fuel) L (Some ?a) s
      = remove_loop fuel L (if Suc i < length ns then Some (ns ! Suc i) else None) ?s1"
    using nx cur r(1) by (simp add: deref_Some)
  have d: "drop i ns = ?a # drop (Suc i) ns" using Suc.prems(7) by (simp add: Cons_nth_drop_Suc)
  show ?case
  proof (cases "Suc i < length ns")
    case False
    then show ?thesis using run r it(1) d Suc.prems(7) by (simp add: map_le_def)
  next
    case True
    have same: "list_heap (s_world ?s1) (ns ! j) = hp (ns ! j)" if "Suc i \<le> j" "j < length ns" for j
    proof -
      have "ns ! j \<noteq> ?a" using that ring_distinct [OF Suc.prems(3)] by (simp add: nth_eq_iff_index_eq)
      then show ?thesis using Suc.prems(5) [of j] that r(5) by simp
    qed
    have "wf_world ((s_world ?s1)\<lparr>list_heap := hp\<rparr>)" "wf_table (n_table (s_net ?s1))" "m_clients (s_world ?s1) = h"
      "length ns \<le> fuel + Suc i"
      using r Suc.prems(4,8) by simp_all
    from Suc.IH [OF this(1,2) Suc.prems(3) this(3) same Suc.prems(6) True this(4)] obtain s' where
      s': "remove_loop fuel L (Some (ns ! Suc i)) ?s1 = Inr s'" "wf_world ((s_world s')\<lparr>list_heap := hp\<rparr>)"
      "wf_table (n_table (s_net s'))"
      "closed (s_world s') = closed (s_world ?s1) @ map (\<lambda>a. it_fd (the (hp a))) (drop (Suc i) ns)"
      "list_heap (s_world s') \<subseteq>\<^sub>m list_heap (s_world ?s1)"
      "client_count (s_world s') = client_count (s_world ?s1)" "n_pool (s_net s') = n_pool (s_net ?s1)" by blast
    have "list_heap (s_world ?s1) \<subseteq>\<^sub>m list_heap (s_world s)"
      using r(5) by (simp add: map_le_def)
    with s' True run r(4,7,8) it(1) d map_le_trans show ?thesis by auto
  qed
qed

lemma removal_run:
  assumes "wf_world (s_world s)" "wf_table (n_table (s_net s))" "ring (list_heap (s_world s)) (m_clients (s_world s)) ns"
    and "length ns \<le> fuel"
  shows "\<exists>s'. m_remove_clients fuel L s = Inr s' \<and> wf_world (s_world s') \<and> wf_table (n_table (s_net s')) \<and>
    m_clients (s_world s') = None \<and>
    closed (s_world s') = closed (s_world s)
      @ map (\<lambda>a. it_fd (the (list_heap (s_world s) a))) (if length ns = 1 then ns else tl ns) \<and>
    client_count (s_world s') = client_count (s_world s) \<and> n_pool (s_net s') = n_pool (s_net s)"
proof -
  let ?hp = "list_heap (s_world s)" and ?h = "m_clients (s_world s)"
  have list_done: "wf_world (w\<lparr>list_heap := X, m_clients := None\<rparr>)"
    if "wf_world (w\<lparr>list_heap := ?hp\<rparr>)" "X \<subseteq>\<^sub>m ?hp" for w X
  proof (rule wf_world_rest [OF that(1)])
    have le: "?hp a = Some it" if "X a = Some it" for a it
      using that \<open>X \<subseteq>\<^sub>m ?hp\<close> by (metis domI map_le_def)
    show "wf_rest (w\<lparr>list_heap := X, m_clients := None\<rparr>)"
      using that(1) unfolding wf_world_def wf_rest_def by (auto dest!: le intro!: exI [of _ "[]"])
    show "wf_server_buffer (w\<lparr>list_heap := X, m_clients := None\<rparr>)"
      using that(1) unfolding wf_world_def by (simp add: wf_server_buffer_def)
  qed simp_all
  show ?thesis
  proof (cases ns)
    case Nil
    with assms(1-3) list_done [of "s_world s" ?hp] show ?thesis
      by (simp add: m_remove_clients_def ft_list_get_first_def)
  next
    case (Cons x xs)
    define i where "i = (if length ns = 1 then 0 else 1 :: nat)"
    have i: "i < length ns" using Cons by (auto simp: i_def)
    have first: "ft_list_get_first fuel ?hp (Some ?h) = Inr (Some (ns ! i))"
      using walk_prev_head [OF assms(3) _ assms(4)] ring_head [OF assms(3)] Cons
      by (simp add: ft_list_get_first_def i_def)
    have w: "wf_world ((s_world s)\<lparr>list_heap := ?hp\<rparr>)" using assms(1) by simp
    have fuel: "length ns \<le> fuel + i" using assms(4) by simp
    have fds: "0 \<le> it_fd (the (?hp a)) \<and> it_fd (the (?hp a)) < 1024" if "a \<in> set ns" for a
      using ring_alloc [OF assms(3) that] assms(1) unfolding wf_world_def wf_rest_def
      by (metis (no_types, lifting) option.exhaust_sel order_le_less_trans)
    from remove_loop_run [OF w assms(2,3) refl, of i fuel L] fds i fuel obtain s' where
      s': "remove_loop fuel L (Some (ns ! i)) s = Inr s'" "wf_world ((s_world s')\<lparr>list_heap := ?hp\<rparr>)"
      "wf_table (n_table (s_net s'))"
      "closed (s_world s') = closed (s_world s) @ map (\<lambda>a. it_fd (the (?hp a))) (drop i ns)"
      "list_heap (s_world s') \<subseteq>\<^sub>m ?hp"
      "client_count (s_world s') = client_count (s_world s)" "n_pool (s_net s') = n_pool (s_net s)" by blast
    have "drop i ns = (if length ns = 1 then ns else tl ns)" using Cons by (simp add: i_def drop_Suc)
    with s' first list_done [OF s'(2), of "list_heap (s_world s')"] show ?thesis
      by (simp add: m_remove_clients_def)
  qed
qed



section \<open>Descriptors beyond the set\<close>

text \<open>
  The callback of a finished handshake does not compare the descriptor with \<open>FD_SETSIZE\<close>: it is
  safe for the 1024 descriptors of an \<open>fd_set\<close> and writes beyond the set for every other one.
\<close>
theorem only_1024_descriptors_fit:
  "(\<exists>r. cb_on_accept_success fd w = Inr r) \<longleftrightarrow> 0 \<le> fd \<and> fd < 1024"
  "1024 \<le> fd \<Longrightarrow> cb_on_accept_success fd w = Inl Out_Of_Bounds"
  by (simp_all add: cb_on_accept_success_def fd_bit_def Let_def split: prod.split)

end
