(* ===== verification/Config.thy ===== *)
theory Config
  imports Spawn
begin

text \<open>
  The configuration file, \<open>server/srcs/parse_arg/config_file.c\<close>, and the arguments,
  \<open>parse_arg.c\<close>. \<open>config_t\<close> is the content of a configuration, \<open>m_config_content\<close> an option
  (NULL before \<open>parse_config\<close> and after \<open>parse_free_config\<close>). The chain of key comparisons is the
  list \<open>config_keys\<close> of keys with their assignments. Of \<open>strtod\<close> the decimal format is
  modelled, hexadecimal, infinity and NaN are not. A file is its text, \<open>None\<close> when it
  cannot be opened.
\<close>

section \<open>The content\<close>

record config_t =
  INITIAL_LIFE_UNITS :: int
  LIFE_UNIT_TO_TIME :: int
  DENSITY_NOURRITURE :: real
  DENSITY_LINEMATE :: real
  DENSITY_DERAUMERE :: real
  DENSITY_SIBUR :: real
  DENSITY_MENDIANE :: real
  DENSITY_PHIRAS :: real
  DENSITY_THYSTAME :: real
  DELAY_AVANCE :: int
  DELAY_DROITE :: int
  DELAY_GAUCHE :: int
  DELAY_VOIR :: int
  DELAY_INVENTAIRE :: int
  DELAY_PREND :: int
  DELAY_POSE :: int
  DELAY_EXPULSE :: int
  DELAY_BROADCAST :: int
  DELAY_INCANTATION :: int
  DELAY_FORK :: int
  DELAY_CONNECT_NBR :: int
  SPAWN_MORE_RESOURCES :: bool
  SPAWN_MORE_RESOURCES_TIME :: int
  SPAWN_MORE_RESOURCES_NOURRITURE :: real
  SPAWN_MORE_RESOURCES_LINEMATE :: real
  SPAWN_MORE_RESOURCES_DERAUMERE :: real
  SPAWN_MORE_RESOURCES_SIBUR :: real
  SPAWN_MORE_RESOURCES_MENDIANE :: real
  SPAWN_MORE_RESOURCES_PHIRAS :: real
  SPAWN_MORE_RESOURCES_THYSTAME :: real
  LOG_LEVEL :: int
  LOG_FILE_PATH :: string
  LOG_ERASE :: bool

definition m_init_config_content :: config_t where
  "m_init_config_content =
     \<lparr>INITIAL_LIFE_UNITS = 10, LIFE_UNIT_TO_TIME = 126,
      DENSITY_NOURRITURE = 1, DENSITY_LINEMATE = 2 / 100, DENSITY_DERAUMERE = 2 / 100,
      DENSITY_SIBUR = 4 / 100, DENSITY_MENDIANE = 4 / 100, DENSITY_PHIRAS = 4 / 100,
      DENSITY_THYSTAME = 5 / 1000,
      DELAY_AVANCE = 7, DELAY_DROITE = 7, DELAY_GAUCHE = 7, DELAY_VOIR = 7, DELAY_INVENTAIRE = 1,
      DELAY_PREND = 7, DELAY_POSE = 7, DELAY_EXPULSE = 7, DELAY_BROADCAST = 7,
      DELAY_INCANTATION = 300, DELAY_FORK = 42, DELAY_CONNECT_NBR = 0,
      SPAWN_MORE_RESOURCES = True, SPAWN_MORE_RESOURCES_TIME = 100,
      SPAWN_MORE_RESOURCES_NOURRITURE = 5 / 10, SPAWN_MORE_RESOURCES_LINEMATE = 2 / 100,
      SPAWN_MORE_RESOURCES_DERAUMERE = 2 / 100, SPAWN_MORE_RESOURCES_SIBUR = 4 / 100,
      SPAWN_MORE_RESOURCES_MENDIANE = 4 / 100, SPAWN_MORE_RESOURCES_PHIRAS = 4 / 100,
      SPAWN_MORE_RESOURCES_THYSTAME = 5 / 1000,
      LOG_LEVEL = 2, LOG_FILE_PATH = ''log.txt'', LOG_ERASE = True\<rparr>"

section \<open>Handing it out\<close>

definition parse_set_initial_density :: "config_t option \<Rightarrow> spawn_ctx \<Rightarrow> spawn_ctx" where
  "parse_set_initial_density cfg ctx =
     (case cfg of None \<Rightarrow> ctx
      | Some c \<Rightarrow> ctx\<lparr>d_nourriture := DENSITY_NOURRITURE c, d_linemate := DENSITY_LINEMATE c,
          d_deraumere := DENSITY_DERAUMERE c, d_sibur := DENSITY_SIBUR c,
          d_mendiane := DENSITY_MENDIANE c, d_phiras := DENSITY_PHIRAS c,
          d_thystame := DENSITY_THYSTAME c\<rparr>)"

definition parse_set_commands_delay :: "config_t option \<Rightarrow> int list \<Rightarrow> int list" where
  "parse_set_commands_delay cfg ds =
     (case cfg of None \<Rightarrow> ds
      | Some c \<Rightarrow> [DELAY_AVANCE c, DELAY_DROITE c, DELAY_GAUCHE c, DELAY_VOIR c, DELAY_INVENTAIRE c,
          DELAY_PREND c, DELAY_POSE c, DELAY_EXPULSE c, DELAY_BROADCAST c, DELAY_INCANTATION c,
          DELAY_FORK c, DELAY_CONNECT_NBR c])"

definition parse_set_respawn_context :: "config_t option \<Rightarrow> spawn_ctx \<Rightarrow> spawn_ctx" where
  "parse_set_respawn_context cfg ctx =
     (case cfg of None \<Rightarrow> ctx
      | Some c \<Rightarrow> ctx\<lparr>period := SPAWN_MORE_RESOURCES_TIME c,
          d_nourriture := SPAWN_MORE_RESOURCES_NOURRITURE c, d_linemate := SPAWN_MORE_RESOURCES_LINEMATE c,
          d_deraumere := SPAWN_MORE_RESOURCES_DERAUMERE c, d_sibur := SPAWN_MORE_RESOURCES_SIBUR c,
          d_mendiane := SPAWN_MORE_RESOURCES_MENDIANE c, d_phiras := SPAWN_MORE_RESOURCES_PHIRAS c,
          d_thystame := SPAWN_MORE_RESOURCES_THYSTAME c\<rparr>)"

definition parse_respawn_resources :: "config_t option \<Rightarrow> bool" where
  "parse_respawn_resources cfg = (case cfg of None \<Rightarrow> False | Some c \<Rightarrow> SPAWN_MORE_RESOURCES c)"

definition parse_set_life_unit :: "config_t option \<Rightarrow> int \<Rightarrow> int" where
  "parse_set_life_unit cfg n = (case cfg of None \<Rightarrow> n | Some c \<Rightarrow> LIFE_UNIT_TO_TIME c)"

definition parse_set_start_life_units :: "config_t option \<Rightarrow> int \<Rightarrow> int" where
  "parse_set_start_life_units cfg n = (case cfg of None \<Rightarrow> n | Some c \<Rightarrow> INITIAL_LIFE_UNITS c)"

text \<open>What \<open>game_init\<close> makes of a configuration; every field it starts from is overwritten.\<close>

definition game_config_of :: "config_t \<Rightarrow> spawn_ctx \<Rightarrow> game_config" where
  "game_config_of c ctx =
     \<lparr>g_life_unit = parse_set_life_unit (Some c) 0,
      g_start_life_units = parse_set_start_life_units (Some c) 0,
      g_density = parse_set_initial_density (Some c) ctx,
      g_delays = parse_set_commands_delay (Some c) [],
      g_respawn = parse_set_respawn_context (Some c) ctx,
      g_respawn_on = parse_respawn_resources (Some c)\<rparr>"

section \<open>Numbers\<close>

definition digits_value :: "string \<Rightarrow> nat" where
  "digits_value ds = foldl (\<lambda>n c. 10 * n + (of_char c - 48)) 0 ds"

text \<open>The exponent after the mantissa: \<open>e\<close> or \<open>E\<close> with at least one digit behind the sign.\<close>

definition exponent :: "string \<Rightarrow> int" where
  "exponent s =
     (case s of
        e # t \<Rightarrow>
          if e \<noteq> CHR ''e'' \<and> e \<noteq> CHR ''E'' then 0
          else
            (case t of
               CHR ''-'' # ds \<Rightarrow> - int (digits_value (takeWhile isdigit ds))
             | CHR ''+'' # ds \<Rightarrow> int (digits_value (takeWhile isdigit ds))
             | ds \<Rightarrow> int (digits_value (takeWhile isdigit ds)))
      | [] \<Rightarrow> 0)"

definition strtod_unsigned :: "string \<Rightarrow> real" where
  "strtod_unsigned s =
     (let whole = takeWhile isdigit s; rest = dropWhile isdigit s;
          frac = (case rest of CHR ''.'' # t \<Rightarrow> takeWhile isdigit t | _ \<Rightarrow> []);
          tail = (case rest of CHR ''.'' # t \<Rightarrow> dropWhile isdigit t | _ \<Rightarrow> rest)
      in if whole @ frac = [] then 0
         else real (digits_value (whole @ frac)) / 10 ^ length frac * 10 powi exponent tail)"

definition strtod :: "string \<Rightarrow> real" where
  "strtod s =
     (case dropWhile isspace s of
        CHR ''-'' # t \<Rightarrow> - strtod_unsigned t
      | CHR ''+'' # t \<Rightarrow> strtod_unsigned t
      | t \<Rightarrow> strtod_unsigned t)"

text \<open>\<open>c == 'y' || c == 'Y' || c == '1'\<close> for the first character of the value.\<close>

definition yes :: "string \<Rightarrow> bool" where
  "yes v = (case v of [] \<Rightarrow> False | c # _ \<Rightarrow> c = CHR ''y'' \<or> c = CHR ''Y'' \<or> c = CHR ''1'')"

section \<open>The file\<close>

definition config_keys :: "(string \<times> (string \<Rightarrow> config_t \<Rightarrow> config_t)) list" where
  "config_keys =
     [(''INITIAL_LIFE_UNITS'', \<lambda>v c. c\<lparr>INITIAL_LIFE_UNITS := atoi v\<rparr>),
      (''LIFE_UNIT_TO_TIME'', \<lambda>v c. c\<lparr>LIFE_UNIT_TO_TIME := atoi v\<rparr>),
      (''DENSITY_NOURRITURE'', \<lambda>v c. c\<lparr>DENSITY_NOURRITURE := strtod v\<rparr>),
      (''DENSITY_LINEMATE'', \<lambda>v c. c\<lparr>DENSITY_LINEMATE := strtod v\<rparr>),
      (''DENSITY_DERAUMERE'', \<lambda>v c. c\<lparr>DENSITY_DERAUMERE := strtod v\<rparr>),
      (''DENSITY_SIBUR'', \<lambda>v c. c\<lparr>DENSITY_SIBUR := strtod v\<rparr>),
      (''DENSITY_MENDIANE'', \<lambda>v c. c\<lparr>DENSITY_MENDIANE := strtod v\<rparr>),
      (''DENSITY_PHIRAS'', \<lambda>v c. c\<lparr>DENSITY_PHIRAS := strtod v\<rparr>),
      (''DENSITY_THYSTAME'', \<lambda>v c. c\<lparr>DENSITY_THYSTAME := strtod v\<rparr>),
      (''DELAY_AVANCE'', \<lambda>v c. c\<lparr>DELAY_AVANCE := atoi v\<rparr>),
      (''DELAY_DROITE'', \<lambda>v c. c\<lparr>DELAY_DROITE := atoi v\<rparr>),
      (''DELAY_GAUCHE'', \<lambda>v c. c\<lparr>DELAY_GAUCHE := atoi v\<rparr>),
      (''DELAY_VOIR'', \<lambda>v c. c\<lparr>DELAY_VOIR := atoi v\<rparr>),
      (''DELAY_INVENTAIRE'', \<lambda>v c. c\<lparr>DELAY_INVENTAIRE := atoi v\<rparr>),
      (''DELAY_PREND'', \<lambda>v c. c\<lparr>DELAY_PREND := atoi v\<rparr>),
      (''DELAY_POSE'', \<lambda>v c. c\<lparr>DELAY_POSE := atoi v\<rparr>),
      (''DELAY_EXPULSE'', \<lambda>v c. c\<lparr>DELAY_EXPULSE := atoi v\<rparr>),
      (''DELAY_BROADCAST'', \<lambda>v c. c\<lparr>DELAY_BROADCAST := atoi v\<rparr>),
      (''DELAY_INCANTATION'', \<lambda>v c. c\<lparr>DELAY_INCANTATION := atoi v\<rparr>),
      (''DELAY_FORK'', \<lambda>v c. c\<lparr>DELAY_FORK := atoi v\<rparr>),
      (''DELAY_CONNECT_NBR'', \<lambda>v c. c\<lparr>DELAY_CONNECT_NBR := atoi v\<rparr>),
      (''SPAWN_MORE_RESOURCES'', \<lambda>v c. c\<lparr>SPAWN_MORE_RESOURCES := yes v\<rparr>),
      (''SPAWN_MORE_RESOURCES_TIME'', \<lambda>v c. c\<lparr>SPAWN_MORE_RESOURCES_TIME := atoi v\<rparr>),
      (''SPAWN_MORE_RESOURCES_NOURRITURE'', \<lambda>v c. c\<lparr>SPAWN_MORE_RESOURCES_NOURRITURE := strtod v\<rparr>),
      (''SPAWN_MORE_RESOURCES_LINEMATE'', \<lambda>v c. c\<lparr>SPAWN_MORE_RESOURCES_LINEMATE := strtod v\<rparr>),
      (''SPAWN_MORE_RESOURCES_DERAUMERE'', \<lambda>v c. c\<lparr>SPAWN_MORE_RESOURCES_DERAUMERE := strtod v\<rparr>),
      (''SPAWN_MORE_RESOURCES_SIBUR'', \<lambda>v c. c\<lparr>SPAWN_MORE_RESOURCES_SIBUR := strtod v\<rparr>),
      (''SPAWN_MORE_RESOURCES_MENDIANE'', \<lambda>v c. c\<lparr>SPAWN_MORE_RESOURCES_MENDIANE := strtod v\<rparr>),
      (''SPAWN_MORE_RESOURCES_PHIRAS'', \<lambda>v c. c\<lparr>SPAWN_MORE_RESOURCES_PHIRAS := strtod v\<rparr>),
      (''SPAWN_MORE_RESOURCES_THYSTAME'', \<lambda>v c. c\<lparr>SPAWN_MORE_RESOURCES_THYSTAME := strtod v\<rparr>),
      (''LOG_LEVEL'', \<lambda>v c. c\<lparr>LOG_LEVEL := atoi v\<rparr>),
      (''LOG_FILE_PATH'', \<lambda>v c. c\<lparr>LOG_FILE_PATH := v\<rparr>),
      (''LOG_ERASE'', \<lambda>v c. c\<lparr>LOG_ERASE := yes v\<rparr>)]"

definition set_key :: "string \<times> string \<Rightarrow> config_t \<Rightarrow> config_t" where
  "set_key kv c = (case map_of config_keys (fst kv) of None \<Rightarrow> c | Some f \<Rightarrow> f (snd kv) c)"

text \<open>\<open>while (end > s && isspace (*end)) *end-- = 0\<close>: the first character always stays.\<close>

definition rtrim :: "string \<Rightarrow> string" where
  "rtrim s = (case s of [] \<Rightarrow> [] | c # cs \<Rightarrow> c # rev (dropWhile isspace (rev cs)))"

text \<open>The key and the value of a line, or nothing.\<close>

definition parse_line :: "string \<Rightarrow> (string \<times> string) option" where
  "parse_line line =
     (let p = dropWhile isspace line in
      if p = [] \<or> hd p = CHR ''#'' \<or> hd p = CHR 0x0A then None
      else if CHR ''='' \<notin> set p then None
      else
        let key = takeWhile (\<lambda>c. c \<noteq> CHR ''='') p;
            val = tl (dropWhile (\<lambda>c. c \<noteq> CHR ''='') p)
        in Some (rtrim key, rtrim (dropWhile isspace val)))"

text \<open>\<open>fgets\<close>: up to \<open>n\<close> characters, stopping after a newline; the line and what is left.\<close>

fun fgets :: "nat \<Rightarrow> string \<Rightarrow> string \<times> string" where
  "fgets 0 s = ([], s)"
| "fgets (Suc n) [] = ([], [])"
| "fgets (Suc n) (c # cs) =
     (if c = CHR 0x0A then ([c], cs) else (c # fst (fgets n cs), snd (fgets n cs)))"

lemma fgets_shorter: "length (snd (fgets n s)) \<le> length s"
  by (induction n s rule: fgets.induct) auto

lemma fgets_less: "s \<noteq> [] \<Longrightarrow> 0 < n \<Longrightarrow> length (snd (fgets n s)) < length s"
  using fgets_shorter by (cases n; cases s) (auto simp: less_Suc_eq_le)

text \<open>The lines the loop sees; \<open>line\<close> has room for 255 characters and a zero.\<close>

function file_lines :: "string \<Rightarrow> string list" where
  "file_lines s = (if s = [] then [] else fst (fgets 255 s) # file_lines (snd (fgets 255 s)))"
  by pat_completeness auto

termination by (relation "measure length") (auto intro: fgets_less)

declare file_lines.simps [simp del]

definition parse_config :: "string option \<Rightarrow> int \<times> config_t" where
  "parse_config file =
     (case file of
        None \<Rightarrow> (ERROR, m_init_config_content)
      | Some text \<Rightarrow>
          (SUCCESS, fold set_key (List.map_filter (\<lambda>l. parse_line (takeWhile (\<lambda>c. c \<noteq> CHR 0x00) l)) (file_lines text))
             m_init_config_content))"

section \<open>Arguments\<close>

record t_args =
  a_port :: int
  a_width :: int
  a_height :: int
  a_teams :: "string list"
  a_nb_teams :: int
  a_nb_clients :: int
  a_time_unit :: int
  a_cert :: string
  a_key :: string

text \<open>\<open>check_params\<close>: the message with which it exits, if it does; \<open>root\<close> when \<open>geteuid ()\<close> is 0.\<close>

definition check_params :: "bool \<Rightarrow> t_args \<Rightarrow> string option" where
  "check_params is_root args =
     (if a_port args < 1024 \<and> \<not> is_root then
        Some ''Port must be higher than 1024 or process must be launched as root.''
      else if a_port args > 65535 then Some ''Port must be lower than 65535''
      else if a_width args < 10 \<or> a_height args < 10 then Some ''Width and height must be greater than 9''
      else if a_nb_clients args < 3 then Some ''Number of clients must be greater than 2''
      else if a_time_unit args < 1 then Some ''Time unit must be greater than 0''
      else if a_teams args = [] then Some ''At least one team must be specified''
      else None)"

text \<open>\<open>parse_args\<close> returns before it looks at anything.\<close>

definition parse_args :: "string list \<Rightarrow> t_args \<Rightarrow> int \<times> t_args" where
  "parse_args argv args = (SUCCESS, args)"

section \<open>Settings\<close>

text \<open>A well-formed setting and the line it is written on.\<close>

definition setting :: "string \<times> string \<Rightarrow> bool" where
  "setting kv \<longleftrightarrow> fst kv \<noteq> [] \<and> \<not> isspace (hd (fst kv)) \<and> \<not> isspace (last (fst kv)) \<and> hd (fst kv) \<noteq> CHR ''#'' \<and>
     (snd kv \<noteq> [] \<longrightarrow> \<not> isspace (hd (snd kv)) \<and> \<not> isspace (last (snd kv))) \<and>
     CHR ''='' \<notin> set (fst kv) \<and> CHR 0x0A \<notin> set (fst kv @ snd kv) \<and> CHR 0x00 \<notin> set (fst kv @ snd kv) \<and>
     length (fst kv) + length (snd kv) \<le> 253"

definition setting_line :: "string \<times> string \<Rightarrow> string" where
  "setting_line kv = fst kv @ ''='' @ snd kv @ [CHR 0x0A]"

lemma rtrim_id: "s = [] \<or> \<not> isspace (last s) \<Longrightarrow> rtrim s = s"
proof (cases s)
  case (Cons c cs)
  assume a: "s = [] \<or> \<not> isspace (last s)"
  have "rev (dropWhile isspace (rev cs)) = cs"
  proof (cases cs rule: rev_cases)
    case (snoc ds d)
    with a Cons show ?thesis by simp
  qed simp
  with Cons show ?thesis by (simp add: rtrim_def)
qed (simp add: rtrim_def)

lemma rtrim_newline: "s = [] \<or> \<not> isspace (hd s) \<and> \<not> isspace (last s) \<Longrightarrow> rtrim (dropWhile isspace (s @ [CHR 0x0A])) = s"
proof -
  assume a: "s = [] \<or> \<not> isspace (hd s) \<and> \<not> isspace (last s)"
  have n: "isspace (CHR 0x0A)" by (simp add: isspace_def)
  show ?thesis
  proof (cases s)
    case Nil
    then show ?thesis using n by (simp add: rtrim_def)
  next
    case (Cons c cs)
    have "rev (dropWhile isspace (rev (cs @ [CHR 0x0A]))) = cs"
      using a n Cons by (cases cs rule: rev_cases) auto
    with a Cons show ?thesis by (simp add: rtrim_def)
  qed
qed

lemma parse_setting_line: "setting kv \<Longrightarrow> parse_line (setting_line kv) = Some kv"
proof -
  assume s: "setting kv"
  obtain k v where kv: "kv = (k, v)" by (cases kv)
  obtain c cs where k: "k = c # cs" using s kv by (cases k) (auto simp: setting_def)
  have neq: "c \<noteq> CHR ''=''" if "c \<in> set k" for c using that s kv by (auto simp: setting_def)
  have "dropWhile isspace (setting_line kv) = setting_line kv"
    using s kv k by (simp add: setting_line_def setting_def)
  moreover have "takeWhile (\<lambda>c. c \<noteq> CHR ''='') (setting_line kv) = k"
    "dropWhile (\<lambda>c. c \<noteq> CHR ''='') (setting_line kv) = ''='' @ v @ [CHR 0x0A]"
    using neq by (simp_all add: setting_line_def kv takeWhile_append2 dropWhile_append2)
  ultimately show ?thesis
    using s kv k rtrim_id [of k] rtrim_newline [of v]
    by (auto simp: parse_line_def setting_line_def setting_def Let_def)
qed

end
