(* ===== verification/Settings.thy ===== *)
theory Settings
  imports Config Demo
begin

text \<open>
  What the configuration achieves: a file of well-formed settings is read back as written, the
  delays reach the commands, the default configuration is one the game starts with; and where
  it does not do what is said: comments behind a value become part of it, a log level out of
  range is kept, the arguments are not checked.
\<close>

section \<open>Files of settings\<close>

lemma fgets_line: "CHR 0x0A \<notin> set l \<Longrightarrow> length l < n \<Longrightarrow> fgets n (l @ CHR 0x0A # rest) = (l @ [CHR 0x0A], rest)"
  by (induction n l arbitrary: rest rule: fgets.induct) auto

lemma file_lines_settings:
  "\<forall>kv \<in> set kvs. setting kv \<Longrightarrow> file_lines (concat (map setting_line kvs)) = map setting_line kvs"
proof (induction kvs)
  case Nil
  then show ?case by (simp add: file_lines.simps)
next
  case (Cons kv kvs)
  let ?l = "fst kv @ ''='' @ snd kv" and ?rest = "concat (map setting_line kvs)"
  have l: "CHR 0x0A \<notin> set ?l" "length ?l < 255" using Cons.prems by (auto simp: setting_def)
  have "setting_line kv = ?l @ [CHR 0x0A]" by (simp add: setting_line_def)
  then have e: "concat (map setting_line (kv # kvs)) = ?l @ CHR 0x0A # ?rest" "setting_line kv = ?l @ [CHR 0x0A]" by simp_all
  have "file_lines (?l @ CHR 0x0A # ?rest) = (?l @ [CHR 0x0A]) # file_lines ?rest"
    unfolding file_lines.simps [of "?l @ CHR 0x0A # ?rest"] fgets_line [OF l] by simp
  with Cons e show ?case by simp
qed

lemma setting_line_text:
  assumes "setting kv"
  shows "takeWhile (\<lambda>c. c \<noteq> CHR 0x00) (setting_line kv) = setting_line kv"
proof -
  have "c \<noteq> CHR 0x00" if "c \<in> set (setting_line kv)" for c
    using that assms by (auto simp: setting_line_def setting_def)
  then show ?thesis by (simp add: takeWhile_eq_all_conv)
qed

lemma settings_run:
  assumes "\<forall>kv \<in> set kvs. setting kv"
  shows "parse_config (Some (concat (map setting_line kvs))) = (SUCCESS, fold set_key kvs m_init_config_content)"
proof -
  have "List.map_filter (\<lambda>l. parse_line (takeWhile (\<lambda>c. c \<noteq> CHR 0x00) l)) (map setting_line kvs) = kvs"
    using assms by (induction kvs) (simp_all add: List.map_filter_simps setting_line_text parse_setting_line)
  with file_lines_settings [OF assms] show ?thesis by (simp add: parse_config_def)
qed

text \<open>
  C32: a file written as one line \<open>key=value\<close> for each of a list of settings is read back as
  exactly these settings, applied in order to the defaults: the last one for a key wins, unknown
  keys change nothing. Keys and values are at most 253 characters together.
\<close>
theorem settings_read_back:
  assumes "\<forall>kv \<in> set kvs. setting kv"
  shows "parse_config (Some (concat (map setting_line kvs))) = (SUCCESS, fold set_key kvs m_init_config_content)"
  using assms by (rule settings_run)

theorem settings_read_back_witness:
  "parse_config (Some (concat (map setting_line [(''DELAY_FORK'', ''50''), (''LOG_ERASE'', ''no''), (''X'', [])])))
    = (SUCCESS, m_init_config_content\<lparr>DELAY_FORK := 50, LOG_ERASE := False\<rparr>)"
proof -
  have "\<forall>kv \<in> set [(''DELAY_FORK'', ''50''), (''LOG_ERASE'', ''no''), (''X'', [])]. setting kv"
    by (simp add: setting_def isspace_def)
  from settings_read_back [OF this] show ?thesis
    by (simp add: set_key_def config_keys_def yes_def atoi_def isspace_def isdigit_def)
qed

section \<open>The delays of the commands\<close>

lemma show_nat_length: "n < 10 ^ Suc k \<Longrightarrow> length (show_nat n) \<le> Suc k"
proof (induction k arbitrary: n)
  case 0
  then show ?case by (simp add: show_nat.simps)
next
  case (Suc k)
  have "n div 10 < 10 ^ Suc k" using Suc.prems by (simp add: less_mult_imp_div_less)
  from Suc.IH [OF this] show ?case by (simp add: show_nat.simps [of n])
qed

lemma show_int_char:
  assumes "c \<in> set (show_int n)"
  shows "\<not> isspace c" "c \<noteq> CHR 0x0A" "c \<noteq> CHR 0x00"
proof -
  have "c = CHR ''-'' \<or> (\<exists>d < 10. c = digit_char d)"
    using assms show_nat_digits by (auto simp: show_int_def split: if_splits)
  then show s: "\<not> isspace c" using digit_char_not_special(3) by (auto simp: isspace_def)
  then show "c \<noteq> CHR 0x0A" by (auto simp: isspace_def)
  show "c \<noteq> CHR 0x00"
  proof
    assume z: "c = CHR 0x00"
    with \<open>c = CHR ''-'' \<or> (\<exists>d < 10. c = digit_char d)\<close> obtain d where "d < 10" "c = digit_char d" by auto
    then have "(of_char c :: nat) = 48 + d" using of_char_digit by simp
    with z show False by simp
  qed
qed

lemma show_int_length: "\<bar>n\<bar> < 2 ^ 31 \<Longrightarrow> length (show_int n) \<le> 11"
proof -
  assume "\<bar>n\<bar> < 2 ^ 31"
  then have "nat \<bar>n\<bar> < 10 ^ Suc 9" by (simp add: nat_less_iff)
  from show_nat_length [OF this] show ?thesis by (cases "n < 0") (simp_all add: show_int_def)
qed

definition delay_keys :: "string list" where
  "delay_keys = [''DELAY_AVANCE'', ''DELAY_DROITE'', ''DELAY_GAUCHE'', ''DELAY_VOIR'', ''DELAY_INVENTAIRE'',
     ''DELAY_PREND'', ''DELAY_POSE'', ''DELAY_EXPULSE'', ''DELAY_BROADCAST'', ''DELAY_INCANTATION'',
     ''DELAY_FORK'', ''DELAY_CONNECT_NBR'']"

lemma delay_setting:
  assumes "k \<in> set delay_keys" "\<bar>n\<bar> < 2 ^ 31"
  shows "setting (k, show_int n)"
proof -
  have k: "k \<noteq> [] \<and> \<not> isspace (hd k) \<and> \<not> isspace (last k) \<and> hd k \<noteq> CHR ''#'' \<and> CHR ''='' \<notin> set k \<and>
      CHR 0x0A \<notin> set k \<and> CHR 0x00 \<notin> set k \<and> length k \<le> 100"
    using assms(1) by (auto simp: delay_keys_def isspace_def)
  have v: "show_int n \<noteq> []" by (simp add: show_int_def)
  then have "\<not> isspace (hd (show_int n))" "\<not> isspace (last (show_int n))" using show_int_char(1) hd_in_set [of "show_int n"] last_in_set [of "show_int n"] by blast+
  moreover have "CHR 0x0A \<notin> set (show_int n)" "CHR 0x00 \<notin> set (show_int n)" using show_int_char(2,3) by blast+
  ultimately show ?thesis using k show_int_length [OF assms(2)] by (simp add: setting_def)
qed

text \<open>
  Twelve delays written to a configuration file under their keys are the delays
  \<open>game_init\<close> gives the twelve commands, number for number, negative ones included.
\<close>
theorem delays_reach_commands:
  assumes "length ds = 12" "\<forall>d \<in> set ds. \<bar>d\<bar> < 2 ^ 31"
  shows "g_delays (game_config_of (snd (parse_config (Some (concat (map setting_line
    (zip delay_keys (map show_int ds))))))) ctx) = ds"
proof -
  have "\<forall>kv \<in> set (zip delay_keys (map show_int ds)). setting kv"
  proof
    fix kv
    assume kv: "kv \<in> set (zip delay_keys (map show_int ds))"
    obtain k v where e: "kv = (k, v)" by (cases kv)
    have "k \<in> set delay_keys" "v \<in> set (map show_int ds)"
      using kv unfolding e by (rule set_zip_leftD, rule set_zip_rightD)
    then obtain d where "kv = (k, show_int d)" "k \<in> set delay_keys" "d \<in> set ds" using e by auto
    with assms(2) show "setting kv" using delay_setting by blast
  qed
  note run = settings_run [OF this]
  obtain a b c d e f g h i j k l where "ds = [a, b, c, d, e, f, g, h, i, j, k, l]"
    using assms(1) by (auto simp: numeral_eq_Suc length_Suc_conv)
  then show ?thesis
    unfolding run
    by (simp add: delay_keys_def set_key_def config_keys_def game_config_of_def parse_set_commands_delay_def atoi_show_int)
qed

theorem delays_reach_commands_witness:
  "g_delays (game_config_of (snd (parse_config (Some (concat (map setting_line
    (zip delay_keys (map show_int [0, 1, 2, 3, 4, 5, 6, 7, 8, 9, 10, - 1]))))))) demo_ctx) = [0, 1, 2, 3, 4, 5, 6, 7, 8, 9, 10, - 1]"
  by (rule delays_reach_commands) simp_all

text \<open>
  Whatever configuration file is read, if any, the configuration handed to \<open>game_init\<close> is one
  it can start with, for the size, the teams and the number of clients \<open>main\<close> passes.
\<close>
theorem any_config_starts:
  "config_ok (game_config_of (snd (parse_config file)) ctx) 10 10 names 1000 2 \<longleftrightarrow> 2 \<le> length names"
  by (simp add: config_ok_def game_config_of_def parse_set_commands_delay_def)

section \<open>What is not as it is said\<close>

text \<open>
  The line of \<open>server/config_explained\<close> for the log file, read as a configuration, makes the
  comment part of the path; a log level that is none of the documented ones is taken as it is,
  and one that is no number is 0, not the default 2.
\<close>
theorem explained_lines_misread:
  "parse_line ''LOG_FILE_PATH=/tmp/log.txt /* PATH */'' = Some (''LOG_FILE_PATH'', ''/tmp/log.txt /* PATH */'') \<and>
   LOG_FILE_PATH (set_key (''LOG_FILE_PATH'', ''/tmp/log.txt /* PATH */'') c) = ''/tmp/log.txt /* PATH */'' \<and>
   LOG_LEVEL (set_key (''LOG_LEVEL'', ''9'') c) = 9 \<and> LOG_LEVEL (set_key (''LOG_LEVEL'', ''WARN'') c) = 0 \<and>
   LOG_LEVEL m_init_config_content = 2"
  by (simp add: parse_line_def rtrim_def Let_def set_key_def config_keys_def atoi_def isspace_def isdigit_def
      m_init_config_content_def)

text \<open>
  \<open>parse_args\<close> accepts every argument: it succeeds and changes nothing even where
  \<open>check_params\<close> would refuse the port, the size of the map or the time unit.
\<close>
theorem arguments_unchecked:
  "parse_args argv args = (SUCCESS, args) \<and>
   check_params False (args\<lparr>a_port := 80\<rparr>) \<noteq> None \<and> check_params r (args\<lparr>a_port := 70000\<rparr>) \<noteq> None \<and>
   check_params r (args\<lparr>a_width := 9\<rparr>) \<noteq> None \<and> check_params r (args\<lparr>a_time_unit := 0\<rparr>) \<noteq> None"
  by (simp add: parse_args_def check_params_def)

end
