(* ===== verification/Logging.thy ===== *)
theory Logging
  imports Config
begin

text \<open>
  The log, \<open>server/srcs/log/log.c\<close>. The formatted text of a message is given; the log file and
  the terminal are the text written to them. The levels are ordered as the numbers of the C
  enum (an instance of \<open>linorder\<close>); the threshold is what the configuration says, as the
  unsigned number it is compared as.
\<close>

section \<open>Levels\<close>

datatype log_level = LOG_LEVEL_ERROR | LOG_LEVEL_BOOT | LOG_LEVEL_WARN | LOG_LEVEL_INFO | LOG_LEVEL_DEBUG

fun level_no :: "log_level \<Rightarrow> nat" where
  "level_no LOG_LEVEL_ERROR = 0"
| "level_no LOG_LEVEL_BOOT = 1"
| "level_no LOG_LEVEL_WARN = 2"
| "level_no LOG_LEVEL_INFO = 3"
| "level_no LOG_LEVEL_DEBUG = 4"

lemma level_no_inj: "level_no a = level_no b \<Longrightarrow> a = b"
  by (cases a; cases b) simp_all

lemma level_no_less: "level_no l < 5"
  by (cases l) simp_all

instantiation log_level :: linorder
begin

definition less_eq_log_level :: "log_level \<Rightarrow> log_level \<Rightarrow> bool" where
  "less_eq_log_level a b \<longleftrightarrow> level_no a \<le> level_no b"

definition less_log_level :: "log_level \<Rightarrow> log_level \<Rightarrow> bool" where
  "less_log_level a b \<longleftrightarrow> level_no a < level_no b"

instance
  by standard (auto simp: less_eq_log_level_def less_log_level_def dest: level_no_inj)

end

section \<open>The code\<close>

record log_config =
  lc_level :: int
  lc_file_path :: string
  lc_erase :: bool

record logger =
  m_log_fp :: bool
  m_log_threshold :: u32
  m_log_config :: log_config
  inside_logger :: bool
  log_file :: string
  log_stderr :: string
  log_stdout :: string

definition parse_set_log_config :: "config_t option \<Rightarrow> log_config \<Rightarrow> log_config res" where
  "parse_set_log_config cfg lc =
     (case cfg of None \<Rightarrow> Inl Null_Deref
      | Some c \<Rightarrow> Inr (lc\<lparr>lc_erase := LOG_ERASE c, lc_file_path := LOG_FILE_PATH c, lc_level := LOG_LEVEL c\<rparr>))"

text \<open>\<open>opened\<close> says whether \<open>fopen\<close> succeeds; mode \<open>w+\<close> empties the file, \<open>a\<close> keeps it.\<close>

definition log_init :: "config_t option \<Rightarrow> bool \<Rightarrow> logger \<Rightarrow> (int \<times> logger) res" where
  "log_init cfg opened lg =
     and_then (parse_set_log_config cfg (m_log_config lg)) (\<lambda>conf.
     let lg1 = lg\<lparr>m_log_config := conf, m_log_threshold := word_of_int (lc_level conf), m_log_fp := opened\<rparr> in
     if \<not> opened then Inr (- 1, lg1)
     else Inr (0, if lc_erase conf then lg1\<lparr>log_file := []\<rparr> else lg1))"

definition log_close :: "logger \<Rightarrow> logger" where
  "log_close lg = (if m_log_fp lg then lg\<lparr>m_log_fp := False\<rparr> else lg)"

text \<open>\<open>[%ld]\<close> of the game time, and the red of warnings and errors.\<close>

definition stamp :: "u64 \<Rightarrow> string" where
  "stamp units = ''['' @ show_int (sint units) @ ''] ''"

definition red :: "string \<Rightarrow> string" where
  "red s = CHR 0x1B # ''[1;31m'' @ s @ CHR 0x1B # ''[0m''"

text \<open>
  \<open>units\<close> is what \<open>time_get_current_time_units\<close> returns; while the message is written, the flag
  \<open>inside_logger\<close> keeps the clock's own messages out.
\<close>

definition log_msg :: "log_level \<Rightarrow> string \<Rightarrow> u64 \<Rightarrow> logger \<Rightarrow> logger" where
  "log_msg level text units lg =
     (if \<not> m_log_fp lg then lg
      else if inside_logger lg then lg
      else
        let line = stamp units @ text;
            lg1 = lg\<lparr>inside_logger := True, log_file := log_file lg @ line\<rparr>;
            lg2 = (if of_nat (level_no level) \<le> m_log_threshold lg1 \<or> level = LOG_LEVEL_BOOT then
                     (case level of
                        LOG_LEVEL_ERROR \<Rightarrow> lg1\<lparr>log_stderr := log_stderr lg1 @ red line\<rparr>
                      | LOG_LEVEL_WARN \<Rightarrow> lg1\<lparr>log_stderr := log_stderr lg1 @ red line\<rparr>
                      | _ \<Rightarrow> lg1\<lparr>log_stdout := log_stdout lg1 @ line\<rparr>)
                   else lg1)
        in lg2\<lparr>inside_logger := False\<rparr>)"

section \<open>What is logged where\<close>

lemma threshold_level: "(of_nat (level_no a) :: u32) \<le> of_nat (level_no b) \<longleftrightarrow> a \<le> b"
proof -
  have "unat (of_nat (level_no l) :: u32) = level_no l" for l
    using level_no_less [of l] by (simp add: unat_of_nat)
  then show ?thesis by (simp add: word_le_nat_alt less_eq_log_level_def)
qed

text \<open>
  With the log opened by a configuration that names level \<open>t\<close>, every message is appended to
  the log file; on the terminal appear exactly those up to level \<open>t\<close> and the boot messages,
  errors and warnings in red on the standard error, the others on the standard output; and
  the logger is ready for the next message.
\<close>
theorem every_message_logged:
  "\<exists>lg1. log_init (Some (c\<lparr>LOG_LEVEL := int (level_no t)\<rparr>)) True (lg\<lparr>inside_logger := False\<rparr>) = Inr (0, lg1) \<and>
    log_msg level text u lg1 = lg1\<lparr>log_file := log_file lg1 @ stamp u @ text,
      log_stderr := log_stderr lg @
        (if level \<le> t \<and> (level = LOG_LEVEL_ERROR \<or> level = LOG_LEVEL_WARN) then red (stamp u @ text) else []),
      log_stdout := log_stdout lg @
        (if level = LOG_LEVEL_BOOT \<or> level \<le> t \<and> (level = LOG_LEVEL_INFO \<or> level = LOG_LEVEL_DEBUG)
         then stamp u @ text else [])\<rparr> \<and>
    log_file lg1 = (if LOG_ERASE c then [] else log_file lg)"
proof -
  define lg1 where "lg1 = (let l = lg\<lparr>inside_logger := False, m_log_config := (m_log_config lg)\<lparr>lc_erase := LOG_ERASE c,
      lc_file_path := LOG_FILE_PATH c, lc_level := int (level_no t)\<rparr>, m_log_threshold := of_nat (level_no t),
      m_log_fp := True\<rparr> in if LOG_ERASE c then l\<lparr>log_file := []\<rparr> else l)"
  have "log_init (Some (c\<lparr>LOG_LEVEL := int (level_no t)\<rparr>)) True (lg\<lparr>inside_logger := False\<rparr>) = Inr (0, lg1)"
    by (simp add: log_init_def parse_set_log_config_def Let_def lg1_def)
  moreover have f: "m_log_fp lg1" "\<not> inside_logger lg1" "m_log_threshold lg1 = of_nat (level_no t)"
    "log_stderr lg1 = log_stderr lg" "log_stdout lg1 = log_stdout lg"
    "log_file lg1 = (if LOG_ERASE c then [] else log_file lg)"
    by (simp_all add: lg1_def Let_def)
  moreover have "log_msg level text u lg1 = lg1\<lparr>log_file := log_file lg1 @ stamp u @ text,
      log_stderr := log_stderr lg @
        (if level \<le> t \<and> (level = LOG_LEVEL_ERROR \<or> level = LOG_LEVEL_WARN) then red (stamp u @ text) else []),
      log_stdout := log_stdout lg @
        (if level = LOG_LEVEL_BOOT \<or> level \<le> t \<and> (level = LOG_LEVEL_INFO \<or> level = LOG_LEVEL_DEBUG)
         then stamp u @ text else [])\<rparr>"
    using f(1-3) unfolding f(4,5) [symmetric]
    by (cases level) (simp_all add: log_msg_def Let_def threshold_level del: level_no.simps)
  ultimately show ?thesis by blast
qed

end
