(* ===== verification/Process.thy ===== *)
theory Process
  imports Server Config Play
begin

text \<open>
  The process, \<open>server/srcs/main.c\<close>: the start, the main loop and the shutdown, over the state
  \<open>srv\<close> of the server. A run of the loop is given by the readings of the clock, the stack
  contents and the work of the handshake thread in each of its rounds; it ends with the list,
  when the signal handler has set \<open>m_die\<close>, or before on an error. Log lines and the timing statistics that are only logged are
  left out.
\<close>

section \<open>The clock of the process\<close>

definition time_api_get_local :: "world \<Rightarrow> time_api option" where
  "time_api_get_local w = m_time w"

definition time_api_init_local :: "int \<Rightarrow> int \<Rightarrow> world \<Rightarrow> int \<times> world" where
  "time_api_init_local t now w = (SUCCESS, w\<lparr>m_time := Some (time_api_init t now)\<rparr>)"

text \<open>\<open>time_api_free (NULL)\<close>\<close>

definition time_api_free :: "world \<Rightarrow> world" where
  "time_api_free w = w\<lparr>m_time := None\<rparr>"

definition tick :: "int \<Rightarrow> ('ssl, 'e) srv \<Rightarrow> ('ssl, 'e) srv" where
  "tick now s = s\<lparr>s_world := (s_world s)\<lparr>m_time := snd (time_api_update (m_time (s_world s)) now)\<rparr>\<rparr>"

text \<open>\<open>time_api_get_local ()->current_time_units\<close>\<close>

definition local_time :: "('ssl, 'e) srv \<Rightarrow> u64 res" where
  "local_time s = (case time_api_get_local (s_world s) of None \<Rightarrow> Inl Null_Deref | Some a \<Rightarrow> Inr (current_time_units a))"

section \<open>The main loop\<close>

definition signal_handler :: "int \<Rightarrow> bool \<Rightarrow> bool" where
  "signal_handler signum m_die = (if signum = 2 \<or> signum = 15 then True else m_die)"

text \<open>
  The handshake thread: the passes through its loop that it completes, given by what
  \<open>SSL_set_fd\<close> and \<open>SSL_accept\<close> answer. The thread meets the main one only in the two rings,
  which the main thread touches in \<open>server_select\<close> alone: so its work between two
  dequeuings can be placed before the second one.
\<close>

fun worker_run :: "('ssl, 'e) openssl \<Rightarrow> (int \<times> int) list \<Rightarrow> ('ssl, 'e) net \<Rightarrow> ('ssl, 'e) net" where
  "worker_run L [] n = n"
| "worker_run L ((set_fd_ret, accept_ret) # answers) n =
     (case worker_take (n_pool n) of
        None \<Rightarrow> n
      | Some ((client_fd, ssl), p) \<Rightarrow>
          let (ok, p1) = worker_finish set_fd_ret accept_ret (client_fd, ssl) p;
              e = (if ok then n_env n else os_close L client_fd (SSL_free L ssl (n_env n)))
          in worker_run L answers (n\<lparr>n_pool := p1, n_env := e\<rparr>))"

record round_input =
  r_worker :: "(int \<times> int) list"
  r_now1 :: int
  r_now2 :: int
  r_now3 :: int
  r_stack :: "int \<Rightarrow> byte list"

text \<open>One round; the flag says whether the loop goes on.\<close>

definition main_round ::
  "nat \<Rightarrow> ('ssl, 'e) openssl \<Rightarrow> (string \<Rightarrow> json option) \<Rightarrow> round_input \<Rightarrow> ('ssl, 'e) srv \<Rightarrow>
   (bool \<times> ('ssl, 'e) srv) res" where
  "main_round fuel L parse i s =
     (let s1 = tick (r_now1 i) (s\<lparr>s_net := worker_run L (r_worker i) (s_net s)\<rparr>) in
      and_then (local_time s1) (\<lambda>_.
      and_then (server_select fuel L parse (r_stack i) s1) (\<lambda>(sel_ret, s2).
      if sel_ret = ERROR then Inr (False, s2)
      else
        let s3 = tick (r_now2 i) s2 in
        and_then (local_time s3) (\<lambda>_.
        and_then (game_play fuel (s_world s3)) (\<lambda>(game_ret, w).
        let s4 = s3\<lparr>s_world := w\<rparr> in
        if game_ret = ERROR then Inr (False, s4) else Inr (True, tick (r_now3 i) s4))))))"

text \<open>The cleaning up after the loop and on an error in \<open>main\<close>.\<close>

definition shut_down :: "('ssl, 'e) openssl \<Rightarrow> ('ssl, 'e) srv \<Rightarrow> ('ssl, 'e) srv res" where
  "shut_down L s =
     and_then (game_clean (s_world s)) (\<lambda>w.
     and_then (cleanup_server L (s\<lparr>s_world := time_api_free w\<rparr>)) (\<lambda>s1.
     Inr (s1\<lparr>s_net := snd (cleanup_ssl_al L (s_net s1))\<rparr>)))"

fun main_loop ::
  "nat \<Rightarrow> ('ssl, 'e) openssl \<Rightarrow> (string \<Rightarrow> json option) \<Rightarrow> round_input list \<Rightarrow> ('ssl, 'e) srv \<Rightarrow>
   (int \<times> ('ssl, 'e) srv) res" where
  "main_loop fuel L parse [] s = and_then (shut_down L s) (\<lambda>s1. Inr (0, s1))"
| "main_loop fuel L parse (i # rounds) s =
     and_then (main_round fuel L parse i s) (\<lambda>(more, s1).
     if more then main_loop fuel L parse rounds s1 else and_then (shut_down L s1) (\<lambda>s2. Inr (0, s2)))"

section \<open>Start\<close>

definition team_names :: "string list" where
  "team_names = [''team1'', ''team2'', ''team3'', ''team4'', ''team5'', ''team6'', ''team7'', ''team8'',
     ''team9'', ''team10'', ''team11'', ''team12'', ''team13'', ''team14'', ''team15'']"

text \<open>The arguments as \<open>main\<close> fixes them; only the port comes from the command line.\<close>

definition main_args :: "string list \<Rightarrow> t_args" where
  "main_args argv =
     (let port = atoi (if length argv > 1 then argv ! 1 else ''2'') in
      \<lparr>a_port = (if port \<noteq> 2 then port else 8674), a_width = 10, a_height = 10, a_teams = team_names,
       a_nb_teams = 2, a_nb_clients = 1000, a_time_unit = 800, a_cert = ''certs/cert.pem'', a_key = ''certs/key.pem''\<rparr>)"

text \<open>
  Lines 161 to 176, up to the main loop: the arguments, the server socket, the clock, the
  game. The flag tells success from the jump to \<open>error\<close>.
\<close>

definition start_up ::
  "nat \<Rightarrow> ('ssl, 'e) openssl \<Rightarrow> config_t \<Rightarrow> string list \<Rightarrow> t_args \<Rightarrow> int \<Rightarrow> ('ssl, 'e) srv \<Rightarrow>
   (bool \<times> ('ssl, 'e) srv) res" where
  "start_up fuel L cfg argv args0 now s =
     (let (ret, args) = parse_args argv args0 in
      if ret = ERROR then Inr (False, s)
      else
        and_then (init_server L (a_port args) (a_cert args) (a_key args) s) (\<lambda>(ret, s1).
        if ret = ERROR then Inr (False, s1)
        else
          let (ret, w1) = time_api_init_local (a_time_unit args) now (s_world s1) in
          if ret = ERROR then Inr (False, s1\<lparr>s_world := w1\<rparr>)
          else
            and_then (game_init fuel (game_config_of cfg (m_ctx w1)) (a_width args) (a_height args)
                (a_teams args) (a_nb_clients args) (a_nb_teams args) w1) (\<lambda>(ret, w2).
            Inr (ret \<noteq> ERROR, s1\<lparr>s_world := w2\<rparr>))))"

text \<open>The exit code and the final state of the process; \<open>exit\<close> in \<open>ZAPPY_USAGE\<close> cleans nothing up.\<close>

definition main ::
  "nat \<Rightarrow> ('ssl, 'e) openssl \<Rightarrow> (string \<Rightarrow> json option) \<Rightarrow> string option \<Rightarrow> string list \<Rightarrow> int \<Rightarrow>
   round_input list \<Rightarrow> ('ssl, 'e) srv \<Rightarrow> (int \<times> ('ssl, 'e) srv) res" where
  "main fuel L parse file argv now rounds s =
     (let (ret, cfg) = parse_config file; args = main_args argv in
      if ret = ERROR then and_then (shut_down L s) (\<lambda>s1. Inr (1, s1))
      else if a_nb_teams args > a_nb_clients args then Inr (ERROR, s)
      else if length argv < 2 then Inr (1, s)
      else
        and_then (start_up fuel L cfg argv args now s) (\<lambda>(started, s1).
        if \<not> started then and_then (shut_down L s1) (\<lambda>s2. Inr (1, s2))
        else and_then (main_loop fuel L parse rounds s1) (\<lambda>(_, s2). Inr (0, s2))))"

end
