(* ===== verification/Runs.thy ===== *)
theory Runs
  imports Process Outages Settings Draws
begin

text \<open>
  The process from start to end: whatever the configuration, \<open>main\<close> starts a well-formed game or
  says so; and the shutdown of a well-formed server frees every player and client and closes
  every descriptor it watches, the listening one twice.
\<close>

section \<open>Starting\<close>

lemma init_server_run:
  assumes "\<forall>e. - 1 \<le> fst (os_socket L e) \<and> fst (os_socket L e) < 1024"
  obtains n1 where "fst (init_ssl_al L cert key port (s_net s)) = - 1" "n_pool n1 = n_pool (s_net s)"
      "init_server L port cert key s = Inr (ERROR, s\<lparr>s_net := n1, s_sock := - 1\<rparr>)"
  | n1 sock where "fst (init_ssl_al L cert key port (s_net s)) \<noteq> - 1" "n_pool n1 = n_pool (s_net s)"
      "wf_table (n_table n1)" "0 \<le> sock" "sock < 1024"
      "init_server L port cert key s = Inr (SUCCESS, s\<lparr>s_net := n1, s_sock := sock,
         s_world := (s_world s)\<lparr>m_max_fd := sock, m_read_fds := {sock}\<rparr>\<rparr>)"
proof -
  obtain sock n1 where i: "init_ssl_al L cert key port (s_net s) = (sock, n1)" by (cases "init_ssl_al L cert key port (s_net s)")
  have l: "- 1 \<le> fst (listen_server L port e) \<and> fst (listen_server L port e) < 1024" for e
    using assms by (auto simp: listen_server_def Let_def split: prod.splits) (metis fst_conv)+
  have "- 1 \<le> fst (init_ssl_al L cert key port (s_net s)) \<and> fst (init_ssl_al L cert key port (s_net s)) < 1024"
    using l by (auto simp: init_ssl_al_def Let_def split: prod.splits) (metis fst_conv)+
  then have b: "- 1 \<le> sock" "sock < 1024" using i by simp_all
  have n: "n_pool n1 = n_pool (s_net s)" "sock \<noteq> - 1 \<Longrightarrow> wf_table (n_table n1)"
    using i by (auto simp: init_ssl_al_def Let_def wf_table_init split: prod.splits if_splits)
  show ?thesis
  proof (cases "sock = - 1")
    case True
    have "init_server L port cert key s = Inr (ERROR, s\<lparr>s_net := n1, s_sock := - 1\<rparr>)"
      using i True by (simp add: init_server_def)
    with that(1) i True n(1) show ?thesis by simp
  next
    case False
    then have "init_server L port cert key s = Inr (SUCCESS, s\<lparr>s_net := set_server_socket sock n1, s_sock := sock,
        s_world := (s_world s)\<lparr>m_max_fd := sock, m_read_fds := {sock}\<rparr>\<rparr>)"
      using i b by (simp add: init_server_def fd_bit_def)
    with that(2) [of "set_server_socket sock n1" sock] i False b n show ?thesis by (simp add: set_server_socket_def)
  qed
qed

text \<open>Whether there is a listening TLS socket for the port of the command line.\<close>

definition listens :: "('ssl, 'e) openssl \<Rightarrow> string list \<Rightarrow> ('ssl, 'e) srv \<Rightarrow> bool" where
  "listens L argv s \<longleftrightarrow>
     fst (init_ssl_al L ''certs/cert.pem'' ''certs/key.pem'' (a_port (main_args argv)) (s_net s)) \<noteq> - 1"

text \<open>The start is that of the game, on the world the server and the clock have been set up in.\<close>

lemma start_up_run:
  assumes "booted ((s_world s)\<lparr>m_time := Some t0\<rparr>)" "\<forall>e. - 1 \<le> fst (os_socket L e) \<and> fst (os_socket L e) < 1024"
  obtains n1 where "\<not> listens L argv s" "n_pool n1 = n_pool (s_net s)"
      "start_up N L (snd (parse_config conf)) argv (main_args argv) now s = Inr (False, s\<lparr>s_net := n1, s_sock := - 1\<rparr>)"
  | n1 sock w1 cfg where "listens L argv s" "n_pool n1 = n_pool (s_net s)" "wf_table (n_table n1)" "booted w1"
      "cfg = game_config_of (snd (parse_config conf)) (m_ctx (s_world s))" "rnd w1 = rnd (s_world s)"
      "config_ok cfg 10 10 team_names 1000 2"
      "start_up N L (snd (parse_config conf)) argv (main_args argv) now s =
         and_then (game_init N cfg 10 10 team_names 1000 2 w1)
           (\<lambda>(ret, w2). Inr (ret \<noteq> ERROR, s\<lparr>s_net := n1, s_sock := sock, s_world := w2\<rparr>))"
proof -
  let ?a = "main_args argv" and ?cfg = "game_config_of (snd (parse_config conf)) (m_ctx (s_world s))"
  have a: "a_width ?a = 10" "a_height ?a = 10" "a_teams ?a = team_names" "a_nb_teams ?a = 2" "a_nb_clients ?a = 1000"
    "a_time_unit ?a = 800"
    "a_cert ?a = ''certs/cert.pem''" "a_key ?a = ''certs/key.pem''"
    by (simp_all add: main_args_def Let_def)
  show ?thesis
    using assms(2)
  proof (rule init_server_run [where port = "a_port ?a" and cert = "a_cert ?a" and key = "a_key ?a" and s = s])
    fix n1
    assume "fst (init_ssl_al L (a_cert ?a) (a_key ?a) (a_port ?a) (s_net s)) = - 1" "n_pool n1 = n_pool (s_net s)"
      "init_server L (a_port ?a) (a_cert ?a) (a_key ?a) s = Inr (ERROR, s\<lparr>s_net := n1, s_sock := - 1\<rparr>)"
    with a show ?thesis using that(1) by (simp add: start_up_def parse_args_def listens_def)
  next
    fix n1 sock
    assume n: "fst (init_ssl_al L (a_cert ?a) (a_key ?a) (a_port ?a) (s_net s)) \<noteq> - 1" "n_pool n1 = n_pool (s_net s)"
      "wf_table (n_table n1)" "0 \<le> sock" "sock < 1024"
      and i: "init_server L (a_port ?a) (a_cert ?a) (a_key ?a) s = Inr (SUCCESS, s\<lparr>s_net := n1, s_sock := sock,
         s_world := (s_world s)\<lparr>m_max_fd := sock, m_read_fds := {sock}\<rparr>\<rparr>)"
    let ?w = "(s_world s)\<lparr>m_max_fd := sock, m_read_fds := {sock}, m_time := Some (time_api_init 800 now)\<rparr>"
    have "booted ?w" using assms(1) n(5) by (auto simp: booted_def)
    moreover have "config_ok ?cfg 10 10 team_names 1000 2"
      by (simp add: config_ok_def game_config_of_def parse_set_commands_delay_def team_names_def)
    moreover have "start_up N L (snd (parse_config conf)) argv ?a now s = and_then (game_init N ?cfg 10 10 team_names 1000 2 ?w)
        (\<lambda>(ret, w2). Inr (ret \<noteq> ERROR, s\<lparr>s_net := n1, s_sock := sock, s_world := w2\<rparr>))"
      using i a by (simp add: start_up_def parse_args_def time_api_init_local_def)
    ultimately show ?thesis using that(2) [OF _ n(2,3) _ refl] n(1) a by (simp add: listens_def)
  qed
qed


text \<open>A process before its start.\<close>

definition demo_start :: "(nat, wire) srv" where
  "demo_start = \<lparr>s_net = \<lparr>n_table = no_table, n_pool = \<lparr>task_q = empty_ring (0, 0), task_dq = empty_ring (0, 0)\<rparr>,
     n_sock = - 1, n_ctx = False, n_env = \<lparr>w_in = (\<lambda>_. []), w_out = (\<lambda>_. [])\<rparr>\<rparr>,
     s_world = boot\<lparr>m_time := None, m_max_fd := - 1\<rparr>, s_sock = - 1\<rparr>"


section \<open>Ending\<close>

lemma remove_client_dead:
  assumes "clients (s_world s) = None" "wf_table (n_table (s_net s))" "0 \<le> fd" "fd < 1024"
  shows "\<exists>n1. REMOVE_CLIENT L fd s = Inr (s\<lparr>s_net := n1, s_world := (s_world s)
      \<lparr>m_read_fds := m_read_fds (s_world s) - {fd}, closed := closed (s_world s) @ [fd]\<rparr>\<rparr>) \<and>
    wf_table (n_table n1) \<and> n_sock n1 = n_sock (s_net s) \<and> n_ctx n1 = n_ctx (s_net s) \<and>
    (lookup (n_table (s_net s)) fd = None \<longrightarrow> n_table n1 = n_table (s_net s) \<and> n_env n1 = os_close L fd (n_env (s_net s)))"
proof -
  have k: "game_kill_player fd (w\<lparr>m_read_fds := A\<rparr>) = Inr (ERROR, w\<lparr>m_read_fds := A\<rparr>)" if "clients w = None" for w A
    using that by (simp add: game_kill_player_def m_game_get_client_from_fd_def)
  have rm: "ssl_table_remove fd (n_table (s_net s)) = Inr (table_remove fd (n_table (s_net s)))"
    using assms(2) by (simp add: table_remove_def remove_eq)
  let ?w1 = "(s_world s)\<lparr>m_read_fds := m_read_fds (s_world s) - {fd}\<rparr>"
  have run: "REMOVE_CLIENT L fd s = and_then (ws_close L fd (s_net s))
      (\<lambda>(_, n1). Inr (s\<lparr>s_net := n1, s_world := ?w1\<lparr>closed := closed ?w1 @ [fd]\<rparr>\<rparr>))"
    using assms(3,4) k [OF assms(1)] by (simp add: REMOVE_CLIENT_def Let_def fd_bit_def)
  show ?thesis
  proof (cases "lookup (n_table (s_net s)) fd")
    case None
    let ?n = "(s_net s)\<lparr>n_env := os_close L fd (n_env (s_net s))\<rparr>"
    have "ws_close L fd (s_net s) = Inr (SUCCESS, ?n)"
      using None assms(2,3) by (simp add: ws_close_def get_eq)
    then show ?thesis using assms(2) None by (intro exI [of _ ?n]) (simp add: run)
  next
    case (Some a)
    let ?n = "(s_net s)\<lparr>n_table := table_remove fd (n_table (s_net s)),
      n_env := os_close L fd (SSL_free L a (SSL_shutdown L a (n_env (s_net s))))\<rparr>"
    have "ws_close L fd (s_net s) = Inr (SUCCESS, ?n)"
      using Some assms(2,3) rm by (simp add: ws_close_def get_eq)
    then show ?thesis using assms(2) Some by (intro exI [of _ ?n]) (simp add: run tbl.ok_del)
  qed
qed

definition same_game :: "world \<Rightarrow> world \<Rightarrow> bool" where
  "same_game w w' = (pheap w' = pheap w \<and> cheap w' = cheap w \<and> clients w' = clients w \<and> m_time w' = m_time w)"

lemma cleanup_loop:
  assumes "clients (s_world s) = None" "wf_table (n_table (s_net s))" "distinct fds" "\<And>fd. fd \<in> set fds \<Longrightarrow> 0 \<le> fd \<and> fd < 1024"
  shows "\<exists>s'. for_each fds (cleanup_fd L) s = Inr s' \<and> same_game (s_world s) (s_world s') \<and>
    closed (s_world s') = closed (s_world s) @ filter (\<lambda>fd. fd \<in> m_read_fds (s_world s)) fds"
  using assms
proof (induction fds arbitrary: s)
  case Nil
  then show ?case by (simp add: same_game_def)
next
  case (Cons fd fds)
  have fd: "0 \<le> fd" "fd < 1024" and fds: "distinct fds" "\<And>x. x \<in> set fds \<Longrightarrow> 0 \<le> x \<and> x < 1024"
    using Cons.prems(3,4) by simp_all
  show ?case
  proof (cases "fd \<in> m_read_fds (s_world s)")
    case False
    then have "cleanup_fd L fd s = Inr s" using fd by (simp add: cleanup_fd_def fd_bit_def)
    then show ?thesis using Cons.IH [OF Cons.prems(1,2) fds] False by simp
  next
    case True
    obtain n1 where n1: "REMOVE_CLIENT L fd s = Inr (s\<lparr>s_net := n1, s_world := (s_world s)
        \<lparr>m_read_fds := m_read_fds (s_world s) - {fd}, closed := closed (s_world s) @ [fd]\<rparr>\<rparr>)"
      "wf_table (n_table n1)"
      using remove_client_dead [OF Cons.prems(1,2) fd] by blast
    define s1 where "s1 = s\<lparr>s_net := n1, s_world := (s_world s)
        \<lparr>m_read_fds := m_read_fds (s_world s) - {fd}, closed := closed (s_world s) @ [fd]\<rparr>\<rparr>"
    have r: "for_each (fd # fds) (cleanup_fd L) s = for_each fds (cleanup_fd L) s1"
      using fd True n1(1) by (simp add: cleanup_fd_def fd_bit_def s1_def)
    have g: "clients (s_world s1) = None" "wf_table (n_table (s_net s1))" "same_game (s_world s) (s_world s1)"
      "closed (s_world s1) = closed (s_world s) @ [fd]" "m_read_fds (s_world s1) = m_read_fds (s_world s) - {fd}"
      using Cons.prems(1) n1(2) by (simp_all add: s1_def same_game_def)
    have "filter (\<lambda>x. x \<in> m_read_fds (s_world s1)) fds = filter (\<lambda>x. x \<in> m_read_fds (s_world s)) fds"
      using Cons.prems(3) g(5) by (intro filter_cong) auto
    with Cons.IH [OF g(1,2) fds] g(3,4) True show ?thesis
      unfolding r by (auto simp: same_game_def)
  qed
qed

lemma cleanup_ssl_al_ends:
  "n_sock (snd (cleanup_ssl_al L n)) = - 1" "\<not> n_ctx (snd (cleanup_ssl_al L n))"
  by (simp_all add: cleanup_ssl_al_def stop_server_def Let_def)

lemma shut_down_run:
  assumes "wf_world (s_world s)" "wf_table (n_table (s_net s))"
  shows "\<exists>s'. shut_down L s = Inr s' \<and> pheap (s_world s') = Map.empty \<and> cheap (s_world s') = Map.empty \<and>
    clients (s_world s') = None \<and> m_time (s_world s') = None \<and>
    closed (s_world s') = closed (s_world s)
      @ filter (\<lambda>fd. fd \<in> m_read_fds (s_world s)) (map int [0..<nat (m_max_fd (s_world s) + 1)]) \<and>
    n_sock (s_net s') = - 1 \<and> \<not> n_ctx (s_net s')"
proof -
  let ?w = "(s_world s)\<lparr>pheap := Map.empty, cheap := Map.empty, clients := None, teams := [], tiles := []\<rparr>"
  define s0 where "s0 = s\<lparr>s_world := time_api_free ?w\<rparr>"
  let ?fds = "map int [0..<nat (m_max_fd (s_world s) + 1)]"
  have e: "clients (s_world s0) = None" "pheap (s_world s0) = Map.empty" "cheap (s_world s0) = Map.empty"
    "m_time (s_world s0) = None" "closed (s_world s0) = closed (s_world s)" "m_read_fds (s_world s0) = m_read_fds (s_world s)"
    "m_max_fd (s_world s0) = m_max_fd (s_world s)" "s_net s0 = s_net s"
    by (simp_all add: s0_def time_api_free_def)
  have p: "wf_table (n_table (s_net s0))" "distinct ?fds" "\<And>fd. fd \<in> set ?fds \<Longrightarrow> 0 \<le> fd \<and> fd < 1024"
    using assms e(8) by (auto simp: distinct_map wf_world_def wf_rest_def)
  obtain s1 where s1: "for_each ?fds (cleanup_fd L) s0 = Inr s1" "same_game (s_world s0) (s_world s1)"
    "closed (s_world s1) = closed (s_world s) @ filter (\<lambda>fd. fd \<in> m_read_fds (s_world s)) ?fds"
    using cleanup_loop [OF e(1) p] unfolding e(5,6) by blast
  define n2 where "n2 = (snd (cleanup_ssl_al L (s_net s1)))\<lparr>n_table := ssl_table_free (n_table (snd (cleanup_ssl_al L (s_net s1))))\<rparr>"
  have "cleanup_server L s0 = Inr (s1\<lparr>s_net := n2\<rparr>)"
    unfolding cleanup_server_def e(7) s1(1) and_then_Inr Let_def n2_def ..
  then have "shut_down L s = Inr (s1\<lparr>s_net := snd (cleanup_ssl_al L n2)\<rparr>)"
    using clean_ok [OF assms(1)] by (simp add: shut_down_def s0_def)
  then show ?thesis
    using s1(2,3) e(1-4) by (simp add: same_game_def cleanup_ssl_al_ends)
qed

text \<open>
  C27: shutting down a well-formed server frees every player and every client, stops the clock and
  closes every watched descriptor up to the highest one, in order, each once through
  \<open>REMOVE_CLIENT\<close>; no socket is listened on and no TLS context is left.
\<close>
theorem shutdown_closes_everything:
  assumes "wf_world (s_world s)" "wf_table (n_table (s_net s))"
  shows "\<exists>s'. main_loop fuel L parse [] s = Inr (0, s') \<and> pheap (s_world s') = Map.empty \<and> cheap (s_world s') = Map.empty \<and>
    clients (s_world s') = None \<and> m_time (s_world s') = None \<and>
    closed (s_world s') = closed (s_world s)
      @ filter (\<lambda>fd. fd \<in> m_read_fds (s_world s)) (map int [0..<nat (m_max_fd (s_world s) + 1)]) \<and>
    n_sock (s_net s') = - 1 \<and> \<not> n_ctx (s_net s')"
  using shut_down_run [OF assms, of L] by auto

theorem shutdown_closes_everything_witness:
  "\<exists>s'. main_loop 1 wire_lib (\<lambda>_. None) [] ((demo_srv [])\<lparr>s_world := demo2\<lparr>m_read_fds := {4, 5, 6}\<rparr>\<rparr>) = Inr (0, s') \<and>
    pheap (s_world s') = Map.empty \<and> closed (s_world s') = [4, 5, 6]"
proof -
  let ?s = "(demo_srv [])\<lparr>s_world := demo2\<lparr>m_read_fds := {4, 5, 6}\<rparr>\<rparr>"
  have "wf_world (s_world ?s)" using wf_read_fds [OF demo2_wf] by simp
  moreover have "wf_table (n_table (s_net ?s))" by (simp add: demo_srv_def demo_net_def tbl.ok_upd wf_table_init)
  moreover have "m_max_fd (s_world ?s) = 9" "closed (s_world ?s) = []" by (simp_all add: demo2_def demo1_def demo0_def boot_def)
  moreover have "filter (\<lambda>fd. fd \<in> {4, 5, 6}) (map int [0..<nat (9 + 1)]) = [4, 5, 6]" by code_simp
  ultimately show ?thesis
    using shutdown_closes_everything [of ?s 1 wire_lib "\<lambda>_. None"] by auto
qed

text \<open>
  The listening socket is among the watched descriptors, so the shutdown closes it twice: a
  server that watches nothing else closes it as a client, frees the TLS context and closes the
  same descriptor again.
\<close>
theorem listener_closed_twice:
  assumes "wf_world (s_world s)" "wf_table (n_table (s_net s))" "m_read_fds (s_world s) = {sock}"
    and "n_sock (s_net s) = sock" "n_ctx (s_net s)" "lookup (n_table (s_net s)) sock = None"
    and "0 \<le> sock" "sock < 1024" "m_max_fd (s_world s) = sock"
  shows "\<exists>s'. shut_down L s = Inr s' \<and>
    n_env (s_net s') = os_close L sock (SSL_CTX_free L (os_close L sock (n_env (s_net s))))"
proof -
  let ?w = "(s_world s)\<lparr>pheap := Map.empty, cheap := Map.empty, clients := None, teams := [], tiles := []\<rparr>"
  let ?s = "s\<lparr>s_world := time_api_free ?w\<rparr>"
  have "clients (s_world ?s) = None" "wf_table (n_table (s_net ?s))" "lookup (n_table (s_net ?s)) sock = None"
    using assms(2,6) by (simp_all add: time_api_free_def)
  from remove_client_dead [OF this(1,2) assms(7,8), of L] this(3) obtain n1 where
    n1: "REMOVE_CLIENT L sock ?s = Inr (?s\<lparr>s_net := n1, s_world := (s_world ?s)
      \<lparr>m_read_fds := m_read_fds (s_world ?s) - {sock}, closed := closed (s_world ?s) @ [sock]\<rparr>\<rparr>)"
    "n_sock n1 = sock" "n_ctx n1" "n_env n1 = os_close L sock (n_env (s_net s))"
    using assms(4,5) by auto
  have skip: "for_each fds (cleanup_fd L) t = Inr t"
    if "\<forall>fd \<in> set fds. fd \<notin> m_read_fds (s_world t) \<and> 0 \<le> fd \<and> fd < 1024" for fds and t :: "('a, 'b) srv"
    using that by (induction fds) (simp_all add: cleanup_fd_def fd_bit_def)
  have split: "map int [0..<nat (sock + 1)] = map int [0..<nat sock] @ [sock]"
    using assms(7) by (simp add: nat_add_distrib)
  have "for_each (map int [0..<nat sock]) (cleanup_fd L) ?s = Inr ?s"
    using assms(3,8) by (intro skip) (auto simp: time_api_free_def)
  moreover have "cleanup_fd L sock ?s = REMOVE_CLIENT L sock ?s"
    using assms(3,7,8) by (simp add: cleanup_fd_def fd_bit_def time_api_free_def)
  moreover have "m_max_fd (s_world ?s) = sock" using assms(9) by (simp add: time_api_free_def)
  ultimately show ?thesis
    using n1 clean_ok [OF assms(1)] assms(7)
    by (simp add: shut_down_def cleanup_server_def split for_each_append Let_def cleanup_ssl_al_def stop_server_def)
qed

theorem listener_closed_twice_witness:
  "\<exists>s'. shut_down (wire_lib\<lparr>os_close := \<lambda>fd e. e\<lparr>w_out := (w_out e)(9 := w_out e 9 @ [of_int fd])\<rparr>\<rparr>)
      ((demo_srv [])\<lparr>s_world := demo2\<lparr>m_read_fds := {9}\<rparr>, s_net := (demo_net [])\<lparr>n_sock := 9\<rparr>\<rparr>) = Inr s' \<and>
    w_out (n_env (s_net s')) 9 = [9, 9]"
proof -
  let ?s = "(demo_srv [])\<lparr>s_world := demo2\<lparr>m_read_fds := {9}\<rparr>, s_net := (demo_net [])\<lparr>n_sock := 9\<rparr>\<rparr>"
  have "wf_world (s_world ?s)" using wf_read_fds [OF demo2_wf] by simp
  moreover have "wf_table (n_table (s_net ?s))" by (simp add: demo_net_def tbl.ok_upd wf_table_init)
  moreover have "m_read_fds (s_world ?s) = {9}" "n_sock (s_net ?s) = 9" "n_ctx (s_net ?s)"
    "lookup (n_table (s_net ?s)) 9 = None" "m_max_fd (s_world ?s) = 9"
    by (simp_all add: demo_net_def tbl.look_upd wf_table_init demo2_def demo1_def demo0_def boot_def)
  ultimately obtain s' where "shut_down (wire_lib\<lparr>os_close := \<lambda>fd e. e\<lparr>w_out := (w_out e)(9 := w_out e 9 @ [of_int fd])\<rparr>\<rparr>) ?s = Inr s'"
    "n_env (s_net s') = os_close (wire_lib\<lparr>os_close := \<lambda>fd e. e\<lparr>w_out := (w_out e)(9 := w_out e 9 @ [of_int fd])\<rparr>\<rparr>) 9
      (SSL_CTX_free (wire_lib\<lparr>os_close := \<lambda>fd e. e\<lparr>w_out := (w_out e)(9 := w_out e 9 @ [of_int fd])\<rparr>\<rparr>)
      (os_close (wire_lib\<lparr>os_close := \<lambda>fd e. e\<lparr>w_out := (w_out e)(9 := w_out e 9 @ [of_int fd])\<rparr>\<rparr>) 9 (n_env (s_net ?s))))"
    using listener_closed_twice [of ?s 9 "wire_lib\<lparr>os_close := \<lambda>fd e. e\<lparr>w_out := (w_out e)(9 := w_out e 9 @ [of_int fd])\<rparr>\<rparr>"]
    by auto
  then show ?thesis by (simp add: wire_lib_def demo_net_def)
qed

text \<open>Called without an argument the program exits with 1 and has started nothing.\<close>
theorem usage_without_argument:
  "main fuel L parse (Some text) [prog] now rounds s = Inr (1, s)"
  by (simp add: main_def main_args_def Let_def parse_config_def)

end
