(* ===== verification/Lobby.thy ===== *)
theory Lobby
  imports Lifetimes
begin

text \<open>
  The game seen from the outside: who is in it, for which team, and how many places are left. The
  specification \<open>lobby_step\<close> knows places and pairs of a descriptor and a team; the
  game refines it: every step of it is a join, which the specification allows only on a team with a free
  place and for a descriptor that is not in, or a departure.
\<close>

section \<open>The specification\<close>

text \<open>The descriptors of a team.\<close>

definition side :: "int \<Rightarrow> (int \<times> int) set \<Rightarrow> int set" where
  "side t T = {fd. (fd, t) \<in> T}"

inductive lobby_step :: "int list \<Rightarrow> (int \<times> int) set \<Rightarrow> (int \<times> int) set \<Rightarrow> bool" for places where
  join: "0 \<le> t \<Longrightarrow> t < int (length places) \<Longrightarrow> fd \<notin> fst ` T \<Longrightarrow> int (card (side t T)) < places ! nat t \<Longrightarrow>
    lobby_step places T (insert (fd, t) T)"
| leave: "T' \<subseteq> T \<Longrightarrow> lobby_step places T T'"

inductive lobby_run :: "int list \<Rightarrow> (int \<times> int) set \<Rightarrow> bool" for places where
  nobody: "lobby_run places {}"
| further: "lobby_run places T \<Longrightarrow> lobby_step places T T' \<Longrightarrow> lobby_run places T'"

lemma side_insert: "side t (insert (fd, u) T) = (if u = t then insert fd (side t T) else side t T)"
  by (auto simp: side_def)

lemma finite_side: "finite T \<Longrightarrow> finite (side t T)"
  by (rule finite_subset [of _ "fst ` T"]) (force simp: side_def)+

text \<open>What the specification promises: one team each, a team that exists, and no more than its places.\<close>

lemma lobby_run_promise:
  "lobby_run places T \<Longrightarrow> finite T \<and> inj_on fst T \<and>
     (\<forall>(fd, t) \<in> T. 0 \<le> t \<and> t < int (length places)) \<and>
     (\<forall>t. side t T \<noteq> {} \<longrightarrow> int (card (side t T)) \<le> places ! nat t)"
proof (induction rule: lobby_run.induct)
  case nobody
  then show ?case by (simp add: side_def)
next
  case (further T T')
  from further(2) show ?case
  proof (cases rule: lobby_step.cases)
    case (join t fd)
    have "int (card (side u T')) \<le> places ! nat u" if "side u T' \<noteq> {}" for u
    proof (cases "u = t")
      case True
      have "fd \<notin> side t T" using join(4) by (force simp: side_def)
      then show ?thesis using True join further(3) finite_side by (simp add: side_insert)
    next
      case False
      then show ?thesis using that join further(3) by (auto simp: side_insert)
    qed
    moreover have "inj_on fst T'" using join further(3) by (auto simp: inj_on_insert)
    ultimately show ?thesis using join further(3) by auto
  next
    case leave
    have "int (card (side u T')) \<le> places ! nat u" if "side u T' \<noteq> {}" for u
    proof -
      have s: "side u T' \<subseteq> side u T" using leave by (auto simp: side_def)
      then have "card (side u T') \<le> card (side u T)" using further(3) finite_side card_mono by blast
      moreover have "side u T \<noteq> {}" using that s by auto
      ultimately show ?thesis using further(3) by fastforce
    qed
    moreover have "finite T'" "inj_on fst T'"
      using leave further(3) by (auto intro: finite_subset inj_on_subset)
    moreover have "\<forall>(fd, t) \<in> T'. 0 \<le> t \<and> t < int (length places)" using leave further(3) by blast
    ultimately show ?thesis by blast
  qed
qed

section \<open>The game\<close>

text \<open>The players of a team are as many as its descriptors.\<close>

lemma same_player:
  assumes wf: "wf_world w" and a: "pheap w a = Some pl" and b: "pheap w b = Some pl'" and id: "p_id pl = p_id pl'"
  shows "a = b"
proof -
  have r: "\<exists>c cl. cheap w c = Some cl \<and> c_player cl = Some p \<and> c_socket_fd cl = p_id q" if "pheap w p = Some q" for p q
    using wf that unfolding wf_world_def wf_roster_def client_ok_def by (metis option.inject option.distinct(1))
  obtain c cl c' cl' where "cheap w c = Some cl" "c_player cl = Some a" "c_socket_fd cl = p_id pl"
    "cheap w c' = Some cl'" "c_player cl' = Some b" "c_socket_fd cl' = p_id pl'"
    using r [OF a] r [OF b] by blast
  moreover from this id have "c = c'" using unique_client [OF wf] by metis
  ultimately show ?thesis by simp
qed

lemma card_side:
  assumes wf: "wf_world w"
  shows "card (side t (lobby w)) = card (members w t)"
proof -
  have "side t (lobby w) = (\<lambda>a. p_id (the (pheap w a))) ` members w t"
    by (force simp: side_def lobby_iff members_def)
  moreover have "inj_on (\<lambda>a. p_id (the (pheap w a))) (members w t)"
    using same_player [OF wf] by (auto simp: inj_on_def members_def)
  ultimately show ?thesis by (simp add: card_image)
qed

lemma taken_places:
  assumes "wf_world w" "0 \<le> t" "nat t < length (teams w)"
  shows "tm_current_players (teams w ! nat t) = int (card (side t (lobby w)))"
  using assms card_side [OF assms(1)] unfolding wf_world_def wf_teams_def Let_def by auto

lemma register_lobby:
  assumes wf: "wf_world w" and run: "game_register_player fd name w = Inr (r, w')"
    and new: "\<forall>c cl. cheap w c = Some cl \<longrightarrow> c_socket_fd cl \<noteq> fd"
  shows "seats w' = seats w \<and> lobby_step (seats w) (lobby w) (lobby w')"
proof -
  let ?t = "m_game_get_team_id name w"
  have stay: "seats w = seats w \<and> lobby_step (seats w) (lobby w) (lobby w)" by (simp add: leave)
  consider "?t < 0" | "0 \<le> ?t" "\<not> tm_current_players (teams w ! nat ?t) < tm_max_players (teams w ! nat ?t)"
    | "0 \<le> ?t" "tm_current_players (teams w ! nat ?t) < tm_max_players (teams w ! nat ?t)" by linarith
  then show ?thesis
  proof cases
    case 1
    then have "w' = w" using run by (simp add: game_register_player_def Let_def)
    with stay show ?thesis by simp
  next
    case 2
    then have "TEAM_IS_FULL ?t w = Inr True"
      using team_id_range(1) [OF wf 2(1)] by (simp add: TEAM_IS_FULL_def get_team_def)
    then have "w' = w" using run 2(1) by (simp add: game_register_player_def Let_def)
    with stay show ?thesis by simp
  next
    case 3
    obtain tm where tm: "m_time w = Some tm" using wf_clock [OF wf] by blast
    let ?pl = "start_player w fd ?t (current_time_units tm)"
    show ?thesis
      using wf refl 3 tm
    proof (rule register_run)
      fix cs k h ts
      assume "game_register_player fd name w = Inr (SUCCESS, entered w fd ?t cs k h ts)"
        and h: "same_cores ((pheap w)(next_addr w \<mapsto> ?pl)) h"
      then have w': "w' = entered w fd ?t cs k h ts" using run by simp
      have t: "nat ?t < length (teams w)" using team_id_range(1) [OF wf 3(1)] .
      have free: "pheap w (next_addr w) = None" using unused_addr [OF wf, of 0] by simp
      have pl: "p_id ?pl = fd" "p_team_id ?pl = ?t" by (simp_all add: start_player_def new_player_def)
      have old: "(f, u) = (fd, ?t) \<or> (f, u) \<in> lobby w" if mem: "(f, u) \<in> lobby w'" for f u
      proof -
        obtain b q' where b: "h b = Some q'" "p_id q' = f" "p_team_id q' = u" using mem by (auto simp: lobby_iff w')
        from same_cores_back [OF h b(1)] obtain q where
          q: "((pheap w)(next_addr w \<mapsto> ?pl)) b = Some q" "core q' = core q" by blast
        with b(2,3) pl coreD(1,2) [OF q(2)] show ?thesis by (auto simp: lobby_iff split: if_splits)
      qed
      have stays: "(f, u) \<in> lobby w'" if "(f, u) = (fd, ?t) \<or> (f, u) \<in> lobby w" for f u
      proof -
        have "\<exists>b q. ((pheap w)(next_addr w \<mapsto> ?pl)) b = Some q \<and> p_id q = f \<and> p_team_id q = u"
          using that
        proof
          assume "(f, u) = (fd, ?t)"
          with pl show ?thesis by (intro exI [of _ "next_addr w"] exI [of _ ?pl]) simp
        next
          assume "(f, u) \<in> lobby w"
          then obtain b q where "pheap w b = Some q" "p_id q = f" "p_team_id q = u" by (auto simp: lobby_iff)
          with free show ?thesis by (intro exI [of _ b] exI [of _ q]) auto
        qed
        then obtain b q where q: "((pheap w)(next_addr w \<mapsto> ?pl)) b = Some q" "p_id q = f" "p_team_id q = u" by blast
        from same_coresD [OF h q(1)] obtain q' where "h b = Some q'" "core q' = core q" by blast
        with q(2,3) coreD(1,2) [OF this(2)] show ?thesis by (auto simp: lobby_iff w')
      qed
      from old stays have "(f, u) \<in> lobby w' \<longleftrightarrow> (f, u) = (fd, ?t) \<or> (f, u) \<in> lobby w" for f u by blast
      then have l: "lobby w' = insert (fd, ?t) (lobby w)" by auto
      have "fd \<notin> fst ` lobby w"
      proof
        assume "fd \<in> fst ` lobby w"
        then obtain a pl where "pheap w a = Some pl" "p_id pl = fd" by (force simp: lobby_iff)
        with wf new show False
          unfolding wf_world_def wf_roster_def client_ok_def by (metis option.inject option.distinct(1))
      qed
      moreover have "int (card (side ?t (lobby w))) < seats w ! nat ?t"
        using 3(2) taken_places [OF wf 3(1) t] t by (simp add: seats_def)
      ultimately have "lobby_step (seats w) (lobby w) (lobby w')"
        unfolding l using 3(1) t by (intro join) (simp_all add: seats_def)
      moreover have "seats w' = seats w"
        unfolding w' seats_def entered_fields by (rule seats_update) (simp add: team_with_def)
      ultimately show ?thesis by simp
    qed
  qed
qed

lemma step_lobby:
  assumes "game_step fuel w w'" "wf_world w" "nat (client_count w) \<le> fuel"
  shows "seats w' = seats w \<and> lobby_step (seats w) (lobby w) (lobby w')"
proof -
  have less: ?thesis if "fewer w w'" using that by (simp add: fewer_def leave)
  from assms(1) show ?thesis
  proof cases
    case (login fd name r)
    then show ?thesis using register_lobby [OF assms(2)] by blast
  next
    case (command fd cmd arg r)
    then show ?thesis using execute_command_wf [OF assms(2), of fd cmd arg] keeps_fewer less by auto
  next
    case (observe fd r)
    then have "teams w' = teams w" "pheap w' = pheap w" using observer_ok [OF assms(2), of fd] by auto
    then show ?thesis by (simp add: seats_def lobby_def leave)
  next
    case (kill fd r)
    then show ?thesis using kill_player_ok [OF assms(2), of fd] keeps_fewer less by auto
  next
    case (play r)
    then show ?thesis using play_ok [OF assms(2,3)] less by auto
  qed (rule less, simp add: fewer_same)+
qed

lemma start_lobby:
  assumes "booted w" "config_ok cfg width height names nb_clients nb_teams"
    "game_init fuel cfg width height names nb_clients nb_teams w = Inr (r, w')"
  shows "lobby w' = {}"
proof -
  have "wf_world w'" "live w' = []" using start_ok [OF assms(1,2), of fuel] assms(3) by auto
  then have "pheap w' = Map.empty"
    unfolding wf_world_def wf_roster_def by (auto simp: fun_eq_iff)
  then show ?thesis by (simp add: lobby_def)
qed

lemma reachable_lobby: "reachable fuel w \<Longrightarrow> lobby_run (seats w) (lobby w)"
proof (induction rule: reachable.induct)
  case (start w cfg width height names nb_clients nb_teams r w')
  then show ?case using start_lobby by (simp add: nobody)
next
  case (step w w')
  from step_lobby [OF step(2)] reachable_ok [OF step(1)] step(3) show ?case
    by (auto intro: further)
qed

lemma places_left:
  assumes "wf_world w" "(fd, t) \<in> lobby w"
  shows "game_get_team_remaining_clients fd w = Inr (seats w ! nat t - int (card (side t (lobby w))))"
proof -
  obtain a pl where a: "pheap w a = Some pl" "p_id pl = fd" "p_team_id pl = t" using assms(2) lobby_iff by blast
  then obtain c cl where c: "cheap w c = Some cl" "c_player cl = Some a"
    using assms(1) unfolding wf_world_def wf_roster_def by blast
  have fd: "c_socket_fd cl = fd" using client_player [OF assms(1) c(1)] c(2) a by force
  have t: "0 \<le> t" "nat t < length (teams w)" "get_team t w = Inr (teams w ! nat t)"
    using wf_team [OF assms(1) a(1)] a(3) assms(1) unfolding wf_world_def wf_teams_def by (auto simp: nat_less_iff)
  with find_own_client [OF assms(1) c(1)] c a fd taken_places [OF assms(1) t(1,2)] show ?thesis
    by (simp add: game_get_team_remaining_clients_def get_client_def deref_Some get_player_eq seats_def)
qed



end
