(* ===== verification/Service.thy ===== *)
theory Service
  imports Process Outages
begin

text \<open>
  The whole server in one invariant, \<open>srv_ok\<close>: the game, the table of sessions and the rings of
  the handshake thread are well formed, and every descriptor is one an \<open>fd_set\<close> has room for.
  Each step of the main loop keeps it and fails neither in memory nor on a table or ring, unless
  a client does one of two things, \<open>trouble\<close>: fill the message buffer to its last byte, or log
  in a second time.
\<close>

section \<open>The library and the operating system\<close>

text \<open>
  What is relied on: \<open>accept\<close> and \<open>socket\<close> return -1 or a descriptor that fits an \<open>fd_set\<close> (the
  limit of open files is at most \<open>FD_SETSIZE\<close>); \<open>SSL_read\<close> returns at most the bytes asked for.
\<close>

definition lib_ok :: "('ssl, 'e) openssl \<Rightarrow> bool" where
  "lib_ok L \<longleftrightarrow> (\<forall>sock e. - 1 \<le> fst (os_accept L sock e) \<and> fst (os_accept L sock e) < 1024) \<and>
     (\<forall>e. - 1 \<le> fst (os_socket L e) \<and> fst (os_socket L e) < 1024) \<and>
     (\<forall>ssl n e d e'. SSL_read L ssl n e = (Data d, e') \<longrightarrow> length d \<le> n)"

lemma lib_read: "lib_ok L \<Longrightarrow> SSL_read L ssl n e = (Data d, e') \<Longrightarrow> length d \<le> n"
  unfolding lib_ok_def by blast

section \<open>The invariant\<close>

definition task_ok :: "'ssl handshake_task \<Rightarrow> bool" where
  "task_ok t \<longleftrightarrow> 0 \<le> fst t \<and> fst t < 1024"

definition ring_ok :: "'ssl task_ring \<Rightarrow> bool" where
  "ring_ok r \<longleftrightarrow> wf_ring r \<and> (\<forall>t \<in> set (task_fds r). task_ok t)"

definition net_ok :: "('ssl, 'e) net \<Rightarrow> bool" where
  "net_ok n \<longleftrightarrow> wf_table (n_table n) \<and> ring_ok (task_q (n_pool n)) \<and> ring_ok (task_dq (n_pool n))"

definition srv_ok :: "nat \<Rightarrow> ('ssl, 'e) srv \<Rightarrow> bool" where
  "srv_ok fuel s \<longleftrightarrow> wf_world (s_world s) \<and> net_ok (s_net s) \<and> nat (client_count (s_world s)) \<le> fuel"

lemma net_ok_env [simp]: "net_ok (n\<lparr>n_env := e\<rparr>) = net_ok n"
  by (simp add: net_ok_def)

lemma srv_okD:
  assumes "srv_ok fuel s"
  shows "wf_world (s_world s)" "net_ok (s_net s)" "nat (client_count (s_world s)) \<le> fuel"
    "wf_table (n_table (s_net s))" "m_max_fd (s_world s) < 1024"
  using assms by (simp_all add: srv_ok_def net_ok_def wf_world_def wf_rest_def)

section \<open>Rings\<close>

lemma ring_ok_enqueue: "ring_ok r \<Longrightarrow> task_ok t \<Longrightarrow> ring_ok (ring_enqueue t r)"
  using rq.ok_put by (auto simp: ring_ok_def wf_ring_def ring_enqueue_def smod_nonneg dest!: set_update_subset_insert [THEN subsetD])

lemma ring_ok_advance: "ring_ok r \<Longrightarrow> ring_ok (ring_advance r)"
  by (auto simp: ring_ok_def wf_ring_def ring_advance_def smod_nonneg)

lemma ring_ok_first: "ring_ok r \<Longrightarrow> task_ok (ring_first r)"
  by (auto simp: ring_ok_def wf_ring_def ring_first_def)

lemma ring_ok_empty: "task_ok z \<Longrightarrow> ring_ok (empty_ring z)"
  by (simp add: ring_ok_def) (simp add: empty_ring_def)

lemma ring_ok_items: "ring_ok r \<Longrightarrow> t \<in> set (ring_items r) \<Longrightarrow> task_ok t"
  by (auto simp: ring_ok_def wf_ring_def ring_items_def ring_list_def)

lemma worker_run_ok: "net_ok n \<Longrightarrow> net_ok (worker_run L answers n)"
proof (induction L answers n rule: worker_run.induct)
  case (2 L set_fd_ret accept_ret answers n)
  show ?case
  proof (cases "ring_empty (task_q (n_pool n))")
    case True
    with 2 show ?thesis by (simp add: worker_take_def)
  next
    case False
    obtain fd ssl where t: "ring_first (task_q (n_pool n)) = (fd, ssl)" by fastforce
    let ?p = "(n_pool n)\<lparr>task_q := ring_advance (task_q (n_pool n))\<rparr>"
    obtain ok p where f: "worker_finish set_fd_ret accept_ret (fd, ssl) ?p = (ok, p)" by fastforce
    have "task_ok (fd, ssl)" using ring_ok_first [of "task_q (n_pool n)"] 2(2) t by (simp add: net_ok_def)
    then have "net_ok (n\<lparr>n_pool := p, n_env := e\<rparr>)" for e
      using 2(2) f by (auto simp: net_ok_def worker_finish_def ring_ok_advance ring_ok_enqueue split: if_splits)
    then show ?thesis using 2(1) False t f by (simp add: worker_take_def)
  qed
qed simp

section \<open>Reading\<close>

lemma read_payload_length:
  assumes "lib_ok L" "length dest \<le> len"
  shows "length (snd (fst (read_payload L ssl len dest e))) \<le> len \<and>
    (fst (fst (read_payload L ssl len dest e)) \<longrightarrow> length (snd (fst (read_payload L ssl len dest e))) = len)"
  using assms
proof (induction L ssl len dest e rule: read_payload.induct)
  case (1 L ssl len dest e)
  show ?case
  proof (cases "length dest < len")
    case False
    with 1(3) show ?thesis by (simp add: read_payload.simps [of L ssl len dest e])
  next
    case True
    obtain r e1 where r: "SSL_read L ssl (len - length dest) e = (r, e1)" by fastforce
    show ?thesis
    proof (cases r)
      case (Fail k)
      with r True show ?thesis by (simp add: read_payload.simps [of L ssl len dest e])
    next
      case (Data d)
      have d: "length d \<le> len - length dest" using lib_read [OF 1(2)] r Data by blast
      show ?thesis
      proof (cases "d = []")
        case True
        with r Data 1(3) show ?thesis by (simp add: read_payload.simps [of L ssl len dest e])
      next
        case False
        have "length (dest @ d) \<le> len" using d True by simp
        from 1(1) [OF True r [symmetric] Data False 1(2) this] True False r Data show ?thesis
          by (simp add: read_payload.simps [of L ssl len dest e])
      qed
    qed
  qed
qed

text \<open>A read changes the environment only and leaves a buffer of its sz with at most that many bytes.\<close>

definition read_fine :: "nat \<Rightarrow> ('ssl, 'e) net \<Rightarrow> (int \<times> byte list \<times> ('ssl, 'e) net) res \<Rightarrow> bool" where
  "read_fine sz n m \<longleftrightarrow> (\<exists>r b e. m = Inr (r, b, n\<lparr>n_env := e\<rparr>) \<and> r \<le> int sz \<and> length b = sz)"

lemma read_fineI: "r \<le> int sz \<Longrightarrow> length b = sz \<Longrightarrow> read_fine sz n (Inr (r, b, n\<lparr>n_env := e\<rparr>))"
  by (auto simp: read_fine_def)

lemma read_fine_env [simp]: "read_fine sz (n\<lparr>n_env := e\<rparr>) m = read_fine sz n m"
  by (simp add: read_fine_def)

lemma send_close_env:
  assumes "wf_table (n_table n)"
  shows "\<exists>r e. ws_send_close L fd code reason n = Inr (r, n\<lparr>n_env := e\<rparr>)"
  using assms
  by (auto simp: ws_send_close_def get_eq Let_def split: option.split prod.split)
    (metis net.surjective net.update_convs(5))+

lemma read_fine_close:
  assumes "wf_table (n_table n)" "length buf = sz"
  shows "read_fine sz n (and_then (ws_send_close L fd code reason n) (\<lambda>(_, n1). Inr (0, buf, n1)))"
proof -
  obtain r e where "ws_send_close L fd code reason n = Inr (r, n\<lparr>n_env := e\<rparr>)"
    using send_close_env [OF assms(1)] by blast
  then show ?thesis using assms(2) by (simp add: read_fineI)
qed

lemma read_text_fine:
  assumes L: "lib_ok L" and t: "wf_table (n_table n)" and b: "length buf = sz"
  shows "read_fine sz n (read_text L fd ssl len0 buf sz n)"
proof -
  obtain l e1 where l: "read_length L ssl len0 (n_env n) = (l, e1)" by fastforce
  show ?thesis
  proof (cases l)
    case None
    with l b show ?thesis by (simp add: read_text_def read_fineI)
  next
    case (Some len)
    show ?thesis
    proof (cases "unat len > sz")
      case True
      with l Some b show ?thesis by (simp add: read_text_def read_fineI)
    next
      case False
      obtain r e2 where r: "SSL_read L ssl 4 e1 = (r, e2)" by fastforce
      show ?thesis
      proof (cases "read_ret r = 4")
        case mfalse: False
        have "read_fine sz n (and_then (ws_send_close L fd 1002 (Some ''Malformed frame'') (n\<lparr>n_env := e2\<rparr>)) (\<lambda>(_, n3). Inr (0, buf, n3)))"
          using read_fine_close [of "n\<lparr>n_env := e2\<rparr>" buf sz L fd 1002] t b by simp
        with l Some False r mfalse show ?thesis by (simp add: read_text_def)
      next
        case True
        obtain all dest e3 where p: "read_payload L ssl (unat len) [] e2 = ((all, dest), e3)"
          by (metis surj_pair)
        have d: "length dest \<le> unat len" "all \<longrightarrow> length dest = unat len"
          using read_payload_length [OF L, of "[]" "unat len" ssl e2] p by simp_all
        have "int (unat len) \<le> int sz" using False by linarith
        then have "uint len \<le> int sz" by simp
        with d show ?thesis
          using l Some False r True p b
          by (auto simp: read_text_def Let_def intro!: read_fineI)
      qed
    qed
  qed
qed

lemma ws_read_fine:
  assumes L: "lib_ok L" and t: "wf_table (n_table n)" and b: "length buf = sz" "1 \<le> sz"
  shows "read_fine sz n (ws_read L fd buf sz n)"
proof (cases "lookup (n_table n) fd")
  case None
  have "read_fine sz n (Inr (ERROR, buf, n\<lparr>n_env := n_env n\<rparr>))" using b by (intro read_fineI) simp_all
  with None t show ?thesis by (simp add: ws_read_def get_eq)
next
  case (Some ssl)
  obtain h e where h: "read_header L ssl [] (n_env n) = (h, e)" by fastforce
  show ?thesis
  proof (cases h)
    case None
    with Some h t b show ?thesis by (simp add: ws_read_def get_eq read_fineI)
  next
    case h2: (Some hd2)
    note c = read_fine_close [of "n\<lparr>n_env := e\<rparr>" buf sz L fd, unfolded read_fine_env]
    note x = read_text_fine [OF L, of "n\<lparr>n_env := e\<rparr>" buf sz fd ssl, unfolded read_fine_env]
    show ?thesis
      using Some h h2 t b c x by (auto simp: ws_read_def get_eq Let_def intro: read_fineI)
  qed
qed

section \<open>Serving a descriptor\<close>

lemma remove_client_ok:
  assumes "srv_ok fuel s" "0 \<le> fd" "fd < 1024"
  shows "\<exists>s'. REMOVE_CLIENT L fd s = Inr s' \<and> srv_ok fuel s' \<and> extent (s_world s') = extent (s_world s)"
proof -
  note s = srv_okD [OF assms(1)]
  let ?w = "(s_world s)\<lparr>m_read_fds := m_read_fds (s_world s) - {fd}\<rparr>"
  obtain r w1 where w1: "game_kill_player fd ?w = Inr (r, w1)" "wf_world w1" "keeps ?w w1"
    using kill_player_ok [OF wf_read_fds [OF s(1)], of fd] by blast
  have c: "client_count w1 = client_count (s_world s)" "m_max_fd w1 = m_max_fd (s_world s)"
    using keeps_fields(4,9) [OF w1(3)] by simp_all
  obtain r2 n1 where n1: "ws_close L fd (s_net s) = Inr (r2, n1)" "wf_table (n_table n1)"
    using close_ok [OF s(4)] by blast
  have "n_pool n1 = n_pool (s_net s)"
    using n1(1) s(4) by (auto simp: ws_close_def get_eq remove_eq split: if_splits option.splits)
  then have "net_ok n1" using n1(2) s(2) by (simp add: net_ok_def)
  with w1(1,2) n1(1) c assms(2,3) s(3) wf_closed [OF w1(2)] show ?thesis
    by (simp add: REMOVE_CLIENT_def Let_def fd_bit_def srv_ok_def extent_def)
qed

text \<open>
  The next message of a descriptor brings trouble: it fills the buffer, or it is a login of one
  that is logged in.
\<close>

definition trouble ::
  "('ssl, 'e) openssl \<Rightarrow> (string \<Rightarrow> json option) \<Rightarrow> byte list \<Rightarrow> int \<Rightarrow> ('ssl, 'e) srv \<Rightarrow> bool" where
  "trouble L parse stack fd s \<longleftrightarrow>
     (case ws_read L fd stack 4096 (s_net s) of
        Inl _ \<Rightarrow> False
      | Inr (bytes, buffer, _) \<Rightarrow> bytes = 4096 \<or> 0 < bytes \<and>
          (case parse (c_string (buffer[nat bytes := 0])) of
             None \<Rightarrow> False | Some msg \<Rightarrow> second_login fd msg (s_world s)))"

lemma client_event_ok:
  assumes L: "lib_ok L" and s: "srv_ok fuel s" and fd: "0 \<le> fd" "fd \<le> m_max_fd (s_world s)"
    and b: "length stack = 4096" and fine: "\<not> trouble L parse stack fd s"
  shows "\<exists>r s'. m_handle_client_event L parse stack fd s = Inr (r, s') \<and> srv_ok fuel s' \<and>
    extent (s_world s') = extent (s_world s)"
proof -
  note d = srv_okD [OF s]
  obtain bytes buffer e where r: "ws_read L fd stack 4096 (s_net s) = Inr (bytes, buffer, (s_net s)\<lparr>n_env := e\<rparr>)"
    "bytes \<le> 4096" "length buffer = 4096"
    using ws_read_fine [OF L d(4) b, of fd] unfolding read_fine_def by auto
  let ?s = "s\<lparr>s_net := (s_net s)\<lparr>n_env := e\<rparr>\<rparr>"
  have ok: "srv_ok fuel ?s" using s by (simp add: srv_ok_def)
  show ?thesis
  proof (cases "bytes \<le> 0")
    case True
    with r(1) remove_client_ok [OF ok fd(1), of L] fd(2) d(5) show ?thesis
      by (auto simp: m_handle_client_event_def)
  next
    case False
    have "bytes < int (length buffer)" using fine r False by (auto simp: trouble_def)
    moreover have "\<not> second_login fd msg (s_world s)" if "parse (c_string (buffer[nat bytes := 0])) = Some msg" for msg
      using fine r(1) False that by (simp add: trouble_def)
    ultimately have "handled (extent (s_world s)) (m_handle_client_message parse fd buffer bytes (s_world s))"
      using False by (intro handle_message_ok d(1) fd) auto
    then obtain ret w' where "m_handle_client_message parse fd buffer bytes (s_world s) = Inr (ret, w')" "wf_world w'"
      "extent w' = extent (s_world s)" by (auto simp: handled_def)
    with r(1) False s show ?thesis by (simp add: m_handle_client_event_def Let_def srv_ok_def extent_eq)
  qed
qed

lemma accept_ok:
  assumes L: "lib_ok L" and s: "srv_ok fuel s"
  shows "srv_ok fuel (snd (m_handle_new_client L s)) \<and> s_world (snd (m_handle_new_client L s)) = s_world s"
proof -
  obtain c e1 where c: "os_accept L (n_sock (s_net s)) (n_env (s_net s)) = (c, e1)" by fastforce
  have "- 1 \<le> c" "c < 1024" using L c unfolding lib_ok_def by (metis fst_conv)+
  then have "c \<noteq> - 1 \<Longrightarrow> task_ok (c, ssl)" for ssl by (simp add: task_ok_def)
  then have "net_ok (snd (ssl_al_accept_client L (s_net s)))"
    using c srv_okD(2) [OF s]
    by (auto simp: ssl_al_accept_client_def Let_def net_ok_def ssl_al_worker_queue_def
        intro!: ring_ok_enqueue split: prod.split option.split)
  then show ?thesis
    using s by (simp add: m_handle_new_client_def case_prod_unfold Let_def srv_ok_def)
qed

lemma select_fd_ok:
  assumes L: "lib_ok L" and s: "srv_ok fuel s" and fd: "0 \<le> fd" "fd \<le> m_max_fd (s_world s)"
    and b: "length (stack fd) = 4096" and fine: "fd \<in> ready \<and> fd \<noteq> s_sock s \<longrightarrow> \<not> trouble L parse (stack fd) fd s"
  shows "\<exists>r s'. select_fd L parse stack ready fd (ret, s) = Inr (r, s') \<and> srv_ok fuel s' \<and>
    extent (s_world s') = extent (s_world s)"
proof (cases "fd \<in> ready \<and> fd \<noteq> s_sock s")
  case False
  with accept_ok [OF L s] s fd srv_okD(5) [OF s] show ?thesis
    by (auto simp: select_fd_def fd_bit_def Let_def case_prod_unfold)
next
  case True
  have fd2: "fd < 1024" using fd(2) srv_okD(5) [OF s] by simp
  obtain r s1 where e: "m_handle_client_event L parse (stack fd) fd s = Inr (r, s1)" "srv_ok fuel s1"
    "extent (s_world s1) = extent (s_world s)"
    using client_event_ok [OF L s fd b] fine True by blast
  obtain s2 where "REMOVE_CLIENT L fd s1 = Inr s2" "srv_ok fuel s2" "extent (s_world s2) = extent (s_world s1)"
    using remove_client_ok [OF e(2) fd(1) fd2] by blast
  with e True fd(1) fd2 show ?thesis
    by (auto simp: select_fd_def fd_bit_def)
qed

text \<open>The loop over the descriptors, up to the first one that brings trouble.\<close>

lemma serve_loop_ok:
  assumes L: "lib_ok L" and s: "srv_ok fuel s" and b: "\<forall>fd. length (stack fd) = 4096"
    and k: "int k \<le> m_max_fd (s_world s) + 1"
  shows "(\<exists>r s'. for_each (map int [0..<k]) (select_fd L parse stack ready) (ret, s) = Inr (r, s') \<and> srv_ok fuel s' \<and>
      extent (s_world s') = extent (s_world s)) \<or>
    (\<exists>j < k. \<exists>r s'. for_each (map int [0..<j]) (select_fd L parse stack ready) (ret, s) = Inr (r, s') \<and>
      int j \<in> ready \<and> int j \<noteq> s_sock s' \<and> trouble L parse (stack (int j)) (int j) s')"
  using k
proof (induction k)
  case 0
  with s show ?case by simp
next
  case (Suc k)
  then have "int k \<le> m_max_fd (s_world s) + 1" by simp
  from Suc.IH [OF this] show ?case
  proof
    assume "\<exists>r s'. for_each (map int [0..<k]) (select_fd L parse stack ready) (ret, s) = Inr (r, s') \<and> srv_ok fuel s' \<and>
      extent (s_world s') = extent (s_world s)"
    then obtain r s1 where 1: "for_each (map int [0..<k]) (select_fd L parse stack ready) (ret, s) = Inr (r, s1)"
      "srv_ok fuel s1" "extent (s_world s1) = extent (s_world s)" by blast
    have fd: "0 \<le> int k" "int k \<le> m_max_fd (s_world s1)" using Suc.prems 1(3) by (simp_all add: extent_eq)
    have b1: "length (stack (int k)) = 4096" using b by blast
    show ?thesis
    proof (cases "int k \<in> ready \<and> int k \<noteq> s_sock s1 \<and> trouble L parse (stack (int k)) (int k) s1")
      case True
      with 1(1) show ?thesis by blast
    next
      case False
      then have "int k \<in> ready \<and> int k \<noteq> s_sock s1 \<longrightarrow> \<not> trouble L parse (stack (int k)) (int k) s1" by blast
      from select_fd_ok [where stack = stack and fd = "int k", OF L 1(2) fd b1 this, of r] 1(1,3) show ?thesis
        by (auto simp: for_each_append)
    qed
  next
    assume "\<exists>j < k. \<exists>r s'. for_each (map int [0..<j]) (select_fd L parse stack ready) (ret, s) = Inr (r, s') \<and>
      int j \<in> ready \<and> int j \<noteq> s_sock s' \<and> trouble L parse (stack (int j)) (int j) s'"
    then show ?thesis using less_SucI by blast
  qed
qed

section \<open>Removing the dead\<close>

text \<open>More fuel gives the same result, once there is one.\<close>

lemma walk_prev_mono: "walk_prev n hp h p \<noteq> Inl Out_Of_Fuel \<Longrightarrow> n \<le> m \<Longrightarrow> walk_prev m hp h p = walk_prev n hp h p"
proof (induction n arbitrary: p m)
  case (Suc n)
  then obtain k where k: "m = Suc k" "n \<le> k" by (cases m) simp_all
  show ?case
  proof (cases "deref hp p")
    case (Inr i)
    then have "it_prev i \<noteq> h \<Longrightarrow> walk_prev n hp h (it_prev i) \<noteq> Inl Out_Of_Fuel" using Suc.prems(1) by simp
    then show ?thesis using Suc.IH [of "it_prev i" k] k Inr by simp
  qed (simp add: k)
qed simp

lemma remove_loop_mono:
  "remove_loop n L c s \<noteq> Inl Out_Of_Fuel \<Longrightarrow> n \<le> m \<Longrightarrow> remove_loop m L c s = remove_loop n L c s"
proof (induction n arbitrary: c s m)
  case 0
  then show ?case by (cases c) simp_all
next
  case (Suc n)
  show ?case
  proof (cases c)
    case (Some a)
    obtain k where k: "m = Suc k" "n \<le> k" using Suc.prems(2) by (cases m) simp_all
    have "and_then x f = and_then x g" if "and_then x g \<noteq> Inl Out_Of_Fuel"
      and "\<And>y. g y \<noteq> Inl Out_Of_Fuel \<Longrightarrow> f y = g y" for x :: "'x res" and f g :: "'x \<Rightarrow> 'y res"
      using that by (cases x) simp_all
    note bind = this
    show ?thesis
      using Suc.prems(1) unfolding Some k(1) remove_loop.simps
      by (elim bind) (rule Suc.IH [OF _ k(2)])
  qed simp
qed

lemma get_first_mono:
  assumes "ft_list_get_first n hp h \<noteq> Inl Out_Of_Fuel" "n \<le> m"
  shows "ft_list_get_first m hp h = ft_list_get_first n hp h"
proof (cases "h = None \<or> h = Some None")
  case False
  then obtain p where p: "h = Some p" "p \<noteq> None" by (cases h) auto
  with assms(1) have "walk_prev n hp p p \<noteq> Inl Out_Of_Fuel" by (simp add: ft_list_get_first_def)
  from walk_prev_mono [OF this assms(2)] p show ?thesis by (auto simp: ft_list_get_first_def)
qed (auto simp: ft_list_get_first_def)

lemma remove_clients_mono:
  assumes "m_remove_clients n L s \<noteq> Inl Out_Of_Fuel" "n \<le> m"
  shows "m_remove_clients m L s = m_remove_clients n L s"
proof -
  let ?f = "\<lambda>k. ft_list_get_first k (list_heap (s_world s)) (Some (m_clients (s_world s)))"
  have f: "?f m = ?f n" using assms by (intro get_first_mono) (auto simp: m_remove_clients_def)
  show ?thesis
  proof (cases "?f n")
    case (Inl e)
    with f show ?thesis by (simp add: m_remove_clients_def)
  next
    case (Inr c)
    have "remove_loop m L c s = remove_loop n L c s"
      using assms Inr by (intro remove_loop_mono) (auto simp: m_remove_clients_def)
    with f Inr show ?thesis by (simp add: m_remove_clients_def)
  qed
qed

lemma sweep_ok:
  assumes s: "srv_ok fuel s"
  shows "m_remove_clients fuel L s = Inl Out_Of_Fuel \<or> (\<exists>s'. m_remove_clients fuel L s = Inr s' \<and> srv_ok fuel s')"
proof (rule disjCI)
  assume "\<not> (\<exists>s'. m_remove_clients fuel L s = Inr s' \<and> srv_ok fuel s')"
  note d = srv_okD [OF s]
  obtain ns where ns: "ring (list_heap (s_world s)) (m_clients (s_world s)) ns"
    using d(1) unfolding wf_world_def wf_rest_def by blast
  from removal_run [OF d(1,4) ns, of "max fuel (length ns)" L] obtain s' where
    s': "m_remove_clients (max fuel (length ns)) L s = Inr s'" "wf_world (s_world s')"
    "wf_table (n_table (s_net s'))" "client_count (s_world s') = client_count (s_world s)" "n_pool (s_net s') = n_pool (s_net s)"
    by auto
  have "srv_ok fuel s'" using s' d(2,3) by (simp add: srv_ok_def net_ok_def)
  moreover have "m_remove_clients fuel L s \<noteq> Inl Out_Of_Fuel \<Longrightarrow> m_remove_clients fuel L s = Inr s'"
    using remove_clients_mono [of fuel L s "max fuel (length ns)"] s'(1) by simp
  ultimately show "m_remove_clients fuel L s = Inl Out_Of_Fuel" using \<open>\<not> _\<close> by blast
qed

section \<open>New clients\<close>

text \<open>What \<open>server_select\<close> does with a finished handshake.\<close>

abbreviation admit :: "int \<Rightarrow> world \<Rightarrow> world res" where
  "admit \<equiv> \<lambda>fd w. and_then (cb_on_accept_success fd w) (\<lambda>(_, w1). Inr w1)"

lemma send_count [simp]: "client_count (send fd j w) = client_count w"
  by (simp add: send_def)

lemma admit_ok:
  assumes "wf_world w" "0 \<le> fd" "fd < 1024"
  shows "\<exists>w'. admit fd w = Inr w' \<and> wf_world w' \<and> client_count w' = client_count w"
proof -
  let ?w1 = "w\<lparr>m_read_fds := insert fd (m_read_fds w)\<rparr>"
  have w1: "wf_world ?w1" using assms(1) by (rule wf_read_fds)
  then have "fd > m_max_fd w \<Longrightarrow> wf_world (?w1\<lparr>m_max_fd := fd\<rparr>)" using assms(3) by (intro wf_max_fd) simp_all
  with w1 assms(2,3) show ?thesis
    by (simp add: cb_on_accept_success_def fd_bit_def Let_def m_create_json_response_def)
qed

definition arrived :: "('ssl, 'e) net \<Rightarrow> world \<Rightarrow> (('ssl, 'e) net \<times> world) res \<Rightarrow> bool" where
  "arrived n w m \<longleftrightarrow> (\<exists>n' w'. m = Inr (n', w') \<and> wf_table (n_table n') \<and> n_pool n' = n_pool n \<and>
     wf_world w' \<and> client_count w' = client_count w)"

lemma handshake_done_ok:
  assumes "wf_world w" "wf_table (n_table n)" "0 \<le> fd" "fd < 1024"
  shows "arrived n w (on_handshake_done L admit fd ssl (n, w))"
proof -
  have add: "ssl_table_add fd ssl (n_table n) = Inr (SUCCESS, table_add fd ssl (n_table n))"
    using assms(2) by (simp add: table_add_def add_eq)
  obtain w' where w': "admit fd w = Inr w'" "wf_world w'" "client_count w' = client_count w"
    using admit_ok [OF assms(1,3,4)] by blast
  obtain r e where "SSL_read L ssl 4095 (n_env n) = (r, e)" by fastforce
  with add w' assms(1,2) show ?thesis
    by (cases r) (auto simp: on_handshake_done_def arrived_def Let_def tbl.ok_upd)
qed

lemma arrivals_fold:
  assumes "wf_world w" "wf_table (n_table n)" "\<forall>t \<in> set ts. task_ok t"
  shows "arrived n w (fold (\<lambda>(fd, ssl) s. and_then s (on_handshake_done L admit fd ssl)) ts (Inr (n, w)))"
  using assms
proof (induction ts arbitrary: n w)
  case Nil
  then show ?case by (simp add: arrived_def)
next
  case (Cons t ts)
  obtain fd ssl where t: "t = (fd, ssl)" by fastforce
  have "0 \<le> fd" "fd < 1024" using Cons.prems(3) t by (simp_all add: task_ok_def)
  from handshake_done_ok [OF Cons.prems(1,2) this, of L ssl] obtain n1 w1 where
    1: "on_handshake_done L admit fd ssl (n, w) = Inr (n1, w1)" "wf_table (n_table n1)" "n_pool n1 = n_pool n"
      "wf_world w1" "client_count w1 = client_count w"
    unfolding arrived_def by blast
  from Cons.IH [OF 1(4,2)] Cons.prems(3) have
    "arrived n1 w1 (fold (\<lambda>(fd, ssl) s. and_then s (on_handshake_done L admit fd ssl)) ts (Inr (n1, w1)))" by simp
  with 1 t show ?case by (simp add: arrived_def)
qed

lemma new_clients_ok:
  assumes s: "srv_ok fuel s" and fuel: "1024 \<le> fuel"
  shows "\<exists>r n w. ssl_al_lookup_new_clients fuel L admit (s_net s, s_world s) = Inr (r, n, w) \<and>
    srv_ok fuel (s\<lparr>s_net := n, s_world := w\<rparr>)"
proof -
  note d = srv_okD [OF s]
  let ?p = "n_pool (s_net s)" and ?f = "\<lambda>fd ssl m. and_then m (on_handshake_done L admit fd ssl)"
  have q: "ring_ok (task_q ?p)" "ring_ok (task_dq ?p)" using d(2) by (simp_all add: net_ok_def)
  have "wf_ring (task_dq ?p)" using q(2) by (simp add: ring_ok_def)
  from dequeue_all_run [OF this fuel, of ?f "Inr (s_net s, s_world s)"] obtain p' where
    p': "ssl_al_worker_dequeue_all fuel (Some ?f) ?p (Inr (s_net s, s_world s)) =
        Inr (if ring_items (task_dq ?p) = [] then 0 else 1, p',
             fold (\<lambda>(fd, ssl) w. ?f fd ssl w) (ring_items (task_dq ?p)) (Inr (s_net s, s_world s)))"
      "task_q p' = task_q ?p" "wf_ring (task_dq p')" "task_fds (task_dq p') = task_fds (task_dq ?p)" by blast
  have "\<forall>t \<in> set (ring_items (task_dq ?p)). task_ok t" using ring_ok_items [OF q(2)] by blast
  from arrivals_fold [OF d(1,4) this, of L] obtain n w where
    w: "fold (\<lambda>(fd, ssl) w. ?f fd ssl w) (ring_items (task_dq ?p)) (Inr (s_net s, s_world s)) = Inr (n, w)"
      "wf_table (n_table n)" "wf_world w" "client_count w = client_count (s_world s)"
    unfolding arrived_def by blast
  have "srv_ok fuel (s\<lparr>s_net := n\<lparr>n_pool := p'\<rparr>, s_world := w\<rparr>)"
    using w(2-4) p'(2-4) q d(3) by (simp add: srv_ok_def net_ok_def ring_ok_def)
  moreover have "\<exists>r. ssl_al_lookup_new_clients fuel L admit (s_net s, s_world s) = Inr (r, n\<lparr>n_pool := p'\<rparr>, w)"
    using p'(1) w(1) by (simp add: ssl_al_lookup_new_clients_def)
  ultimately show ?thesis by blast
qed

section \<open>Time and turns\<close>

lemma tick_ok:
  assumes "srv_ok fuel s"
  shows "srv_ok fuel (tick now s)" "\<exists>t. local_time (tick now s) = Inr t"
proof -
  obtain tm where tm: "m_time (s_world s) = Some tm" using wf_clock srv_okD(1) [OF assms] by blast
  then show "srv_ok fuel (tick now s)"
    using assms by (simp add: tick_def srv_ok_def time_api_update_def wf_clock_set)
  show "\<exists>t. local_time (tick now s) = Inr t"
    using tm by (simp add: tick_def local_time_def time_api_get_local_def time_api_update_def)
qed

lemma turn_ok:
  assumes "srv_ok fuel s"
  shows "game_play fuel (s_world s) = Inl Out_Of_Fuel \<or>
    (\<exists>r w. game_play fuel (s_world s) = Inr (r, w) \<and> srv_ok fuel (s\<lparr>s_world := w\<rparr>))"
  using play_ok [OF srv_okD(1,3) [OF assms]] assms by (auto simp: srv_ok_def dest: fewer_count)

end
