(* ===== verification/Uptime.thy ===== *)
theory Uptime
  imports Service Runs
begin

text \<open>
  Whole runs of the server: a round, the main loop, the process. Whatever the clients send and
  the library answers, the process fails neither in memory nor in arithmetic before one of its
  rounds comes to serve a message that brings \<open>trouble\<close>.
\<close>

section \<open>A round\<close>

text \<open>A round up to the loop over the descriptors: the answer of \<open>select\<close> and the state.\<close>

definition polled :: "nat \<Rightarrow> ('ssl, 'e) openssl \<Rightarrow> ('ssl, 'e) srv \<Rightarrow> (int \<times> int set \<times> ('ssl, 'e) srv) res" where
  "polled fuel L s =
     and_then (ssl_al_lookup_new_clients fuel L admit (s_net s, s_world s)) (\<lambda>(_, n1, w1).
     let ((ret, ready), e2) = os_select L (m_max_fd w1 + 1) (m_read_fds w1) (n_env n1)
     in Inr (ret, ready, s\<lparr>s_net := n1\<lparr>n_env := e2\<rparr>, s_world := w1\<rparr>))"

lemma select_polled:
  "server_select fuel L parse stack s =
     and_then (polled fuel L s) (\<lambda>(ret, ready, s2).
     if ret < 0 then Inr (ERROR, s2)
     else if ret = 0 then Inr (0, s2)
     else
       and_then (for_each (map int [0..<nat (m_max_fd (s_world s2) + 1)]) (select_fd L parse stack ready) (ret, s2))
         (\<lambda>(ret, s3). and_then (m_remove_clients fuel L s3) (\<lambda>s4. Inr (ret, s4))))"
  by (cases "ssl_al_lookup_new_clients fuel L admit (s_net s, s_world s)")
    (auto simp: server_select_def polled_def Let_def split: prod.split)

lemma polled_ok:
  assumes "srv_ok fuel s" "1024 \<le> fuel"
  shows "\<exists>ret ready s'. polled fuel L s = Inr (ret, ready, s') \<and> srv_ok fuel s'"
proof -
  obtain r n w where n: "ssl_al_lookup_new_clients fuel L admit (s_net s, s_world s) = Inr (r, n, w)"
    "srv_ok fuel (s\<lparr>s_net := n, s_world := w\<rparr>)"
    using new_clients_ok [OF assms] by blast
  then have "srv_ok fuel (s\<lparr>s_net := n\<lparr>n_env := e\<rparr>, s_world := w\<rparr>)" for e by (simp add: srv_ok_def)
  with n(1) show ?thesis by (auto simp: polled_def split: prod.split)
qed

definition opened :: "('ssl, 'e) openssl \<Rightarrow> round_input \<Rightarrow> ('ssl, 'e) srv \<Rightarrow> ('ssl, 'e) srv" where
  "opened L i s = tick (r_now1 i) (s\<lparr>s_net := worker_run L (r_worker i) (s_net s)\<rparr>)"

text \<open>
  \<open>visits rounds s buf fd s'\<close>: in one of the rounds of the loop started in s the descriptor fd
  is served, in the state s' and with the buffer buf.
\<close>

inductive visits ::
  "nat \<Rightarrow> ('ssl, 'e) openssl \<Rightarrow> (string \<Rightarrow> json option) \<Rightarrow> round_input list \<Rightarrow> ('ssl, 'e) srv \<Rightarrow>
   byte list \<Rightarrow> int \<Rightarrow> ('ssl, 'e) srv \<Rightarrow> bool"
  for fuel :: nat and L :: "('ssl, 'e) openssl" and parse :: "string \<Rightarrow> json option" where
  this_round:
    "polled fuel L (opened L i s) = Inr (ret, ready, s2) \<Longrightarrow> 0 < ret \<Longrightarrow> int j \<le> m_max_fd (s_world s2) \<Longrightarrow>
     for_each (map int [0..<j]) (select_fd L parse (r_stack i) ready) (ret, s2) = Inr (r, s3) \<Longrightarrow>
     int j \<in> ready \<Longrightarrow> int j \<noteq> s_sock s3 \<Longrightarrow>
     visits fuel L parse (i # rounds) s (r_stack i (int j)) (int j) s3"
| later_round:
    "main_round fuel L parse i s = Inr (True, s1) \<Longrightarrow> visits fuel L parse rounds s1 buf fd s' \<Longrightarrow>
     visits fuel L parse (i # rounds) s buf fd s'"

inductive_cases visits_none: "visits fuel L parse [] s buf fd s'"

definition troubled ::
  "nat \<Rightarrow> ('ssl, 'e) openssl \<Rightarrow> (string \<Rightarrow> json option) \<Rightarrow> round_input list \<Rightarrow> ('ssl, 'e) srv \<Rightarrow> bool" where
  "troubled fuel L parse rounds s \<longleftrightarrow>
     (\<exists>buf fd s'. visits fuel L parse rounds s buf fd s' \<and> trouble L parse buf fd s')"

lemma troubled_later:
  assumes "main_round fuel L parse i s = Inr (True, s1)" "troubled fuel L parse rounds s1"
  shows "troubled fuel L parse (i # rounds) s"
  using assms(2) later_round [OF assms(1)] unfolding troubled_def by blast

text \<open>A step that keeps the server well formed, or does not end.\<close>

definition kept :: "nat \<Rightarrow> ('a \<times> ('ssl, 'e) srv) res \<Rightarrow> bool" where
  "kept fuel m \<longleftrightarrow> m = Inl Out_Of_Fuel \<or> (\<exists>x s. m = Inr (x, s) \<and> srv_ok fuel s)"

lemma kept_Inr [simp]: "kept fuel (Inr (x, s)) \<longleftrightarrow> srv_ok fuel s"
  by (simp add: kept_def)

lemma kept_bind:
  assumes "kept fuel m" "\<And>x s. srv_ok fuel s \<Longrightarrow> kept fuel (f (x, s))"
  shows "kept fuel (and_then m f)"
proof (cases "m = Inl Out_Of_Fuel")
  case False
  then obtain x s where "m = Inr (x, s)" "srv_ok fuel s" using assms(1) unfolding kept_def by blast
  with assms(2) show ?thesis by simp
qed (simp add: kept_def)

lemma play_kept:
  assumes "srv_ok fuel s"
  shows "kept fuel (and_then (game_play fuel (s_world s)) (\<lambda>(game_ret, w).
    let s4 = s\<lparr>s_world := w\<rparr> in
    if game_ret = ERROR then Inr (False, s4) else Inr (True, tick now s4)))"
  using turn_ok [OF assms]
proof
  assume "\<exists>r w. game_play fuel (s_world s) = Inr (r, w) \<and> srv_ok fuel (s\<lparr>s_world := w\<rparr>)"
  then obtain r w where "game_play fuel (s_world s) = Inr (r, w)" "srv_ok fuel (s\<lparr>s_world := w\<rparr>)" by blast
  with tick_ok(1) [OF this(2), of now] show ?thesis by (simp add: Let_def)
qed (simp add: kept_def)

lemma sweep_kept: "srv_ok fuel s \<Longrightarrow> kept fuel (and_then (m_remove_clients fuel L s) (\<lambda>s4. Inr (ret, s4)))"
  using sweep_ok [of fuel s L] by (auto simp: kept_def)

lemma serve_kept:
  assumes L: "lib_ok L" and p: "polled fuel L (opened L i s) = Inr (ret, ready, s2)" "srv_ok fuel s2" "0 < ret"
    and b: "\<forall>fd. length (r_stack i fd) = 4096" and fine: "\<not> troubled fuel L parse (i # rounds) s"
  shows "kept fuel (for_each (map int [0..<nat (m_max_fd (s_world s2) + 1)]) (select_fd L parse (r_stack i) ready) (ret, s2))"
proof (cases "0 \<le> m_max_fd (s_world s2)")
  case False
  with p(2) show ?thesis by simp
next
  case True
  let ?k = "nat (m_max_fd (s_world s2) + 1)"
  have k: "int ?k \<le> m_max_fd (s_world s2) + 1" using True by simp
  have "\<not> (\<exists>j < ?k. \<exists>r s'. for_each (map int [0..<j]) (select_fd L parse (r_stack i) ready) (ret, s2) = Inr (r, s') \<and>
      int j \<in> ready \<and> int j \<noteq> s_sock s' \<and> trouble L parse (r_stack i (int j)) (int j) s')"
  proof (intro notI, elim exE conjE)
    fix j r s'
    assume "j < ?k" and v: "for_each (map int [0..<j]) (select_fd L parse (r_stack i) ready) (ret, s2) = Inr (r, s')"
      "int j \<in> ready" "int j \<noteq> s_sock s'" and t: "trouble L parse (r_stack i (int j)) (int j) s'"
    then have "int j \<le> m_max_fd (s_world s2)" by linarith
    from this_round [OF p(1,3) this v] t fine show False unfolding troubled_def by blast
  qed
  with serve_loop_ok [where ready = ready and ret = ret and parse = parse, OF L p(2) b k] show ?thesis
    unfolding kept_def by blast
qed

lemma select_kept:
  assumes "lib_ok L" "srv_ok fuel s" "1024 \<le> fuel" "\<forall>fd. length (r_stack i fd) = 4096"
    and "\<not> troubled fuel L parse (i # rounds) s"
  shows "kept fuel (server_select fuel L parse (r_stack i) (opened L i s))"
proof -
  have "srv_ok fuel (opened L i s)"
    using assms(2) worker_run_ok [of "s_net s" L "r_worker i"] unfolding opened_def by (intro tick_ok) (simp add: srv_ok_def)
  then obtain ret ready s2 where p: "polled fuel L (opened L i s) = Inr (ret, ready, s2)" "srv_ok fuel s2"
    using polled_ok assms(3) by blast
  have "0 < ret \<Longrightarrow> kept fuel (and_then (for_each (map int [0..<nat (m_max_fd (s_world s2) + 1)])
      (select_fd L parse (r_stack i) ready) (ret, s2)) (\<lambda>(ret, s3). and_then (m_remove_clients fuel L s3) (\<lambda>s4. Inr (ret, s4))))"
    using serve_kept [OF assms(1) p _ assms(4,5)] by (rule kept_bind) (simp_all add: sweep_kept)
  with p show ?thesis by (simp add: select_polled)
qed

lemma round_kept:
  assumes "lib_ok L" "srv_ok fuel s" "1024 \<le> fuel" "\<forall>fd. length (r_stack i fd) = 4096"
    and "\<not> troubled fuel L parse (i # rounds) s"
  shows "kept fuel (main_round fuel L parse i s)"
proof -
  have "srv_ok fuel (s\<lparr>s_net := worker_run L (r_worker i) (s_net s)\<rparr>)"
    using assms(2) worker_run_ok [of "s_net s" L "r_worker i"] by (simp add: srv_ok_def)
  from tick_ok(2) [OF this, of "r_now1 i"] have round: "main_round fuel L parse i s =
     and_then (server_select fuel L parse (r_stack i) (opened L i s)) (\<lambda>(sel_ret, s2).
      if sel_ret = ERROR then Inr (False, s2)
      else
        let s3 = tick (r_now2 i) s2 in
        and_then (local_time s3) (\<lambda>_.
        and_then (game_play fuel (s_world s3)) (\<lambda>(game_ret, w).
        let s4 = s3\<lparr>s_world := w\<rparr> in
        if game_ret = ERROR then Inr (False, s4) else Inr (True, tick (r_now3 i) s4))))"
    by (auto simp: main_round_def opened_def Let_def)
  show ?thesis
    unfolding round
  proof (rule kept_bind [OF select_kept [OF assms]])
    fix sel and s2 :: "('a, 'b) srv"
    assume "srv_ok fuel s2"
    with tick_ok [OF this, of "r_now2 i"] play_kept [of fuel "tick (r_now2 i) s2" "r_now3 i"]
    show "kept fuel (case (sel, s2) of (sel_ret, s2) \<Rightarrow>
      if sel_ret = ERROR then Inr (False, s2)
      else
        let s3 = tick (r_now2 i) s2 in
        and_then (local_time s3) (\<lambda>_.
        and_then (game_play fuel (s_world s3)) (\<lambda>(game_ret, w).
        let s4 = s3\<lparr>s_world := w\<rparr> in
        if game_ret = ERROR then Inr (False, s4) else Inr (True, tick (r_now3 i) s4))))"
      by (auto simp: Let_def)
  qed
qed

section \<open>The loop\<close>

lemma loop_ok:
  assumes L: "lib_ok L" and fuel: "1024 \<le> fuel"
  shows "srv_ok fuel s \<Longrightarrow> \<forall>i \<in> set rounds. \<forall>fd. length (r_stack i fd) = 4096 \<Longrightarrow>
    \<not> troubled fuel L parse rounds s \<Longrightarrow>
    main_loop fuel L parse rounds s = Inl Out_Of_Fuel \<or> (\<exists>s'. main_loop fuel L parse rounds s = Inr (0, s'))"
proof (induction rounds arbitrary: s)
  case Nil
  note d = srv_okD [OF Nil(1)]
  from shut_down_run [OF d(1,4), of L] show ?case by auto
next
  case (Cons i rounds)
  have b: "\<forall>fd. length (r_stack i fd) = 4096" using Cons.prems(2) by simp
  from round_kept [OF L Cons.prems(1) fuel b Cons.prems(3), unfolded kept_def] show ?case
  proof
    assume "\<exists>more s'. main_round fuel L parse i s = Inr (more, s') \<and> srv_ok fuel s'"
    then obtain more s1 where r: "main_round fuel L parse i s = Inr (more, s1)" "srv_ok fuel s1" by blast
    show ?thesis
    proof (cases more)
      case True
      then have "\<not> troubled fuel L parse rounds s1"
        using Cons.prems(3) troubled_later [of fuel L parse i s s1 rounds] r(1) True by auto
      from Cons.IH [OF r(2) _ this] Cons.prems(2) r(1) True show ?thesis by simp
    next
      case False
      note d = srv_okD [OF r(2)]
      from shut_down_run [OF d(1,4), of L] r(1) False show ?thesis by auto
    qed
  qed simp
qed


text \<open>A server with one connection, and a round in which the clock passes and nothing is received.\<close>

definition quiet_round :: round_input where
  "quiet_round = \<lparr>r_worker = [(1, 1)], r_now1 = 0, r_now2 = 1, r_now3 = 2, r_stack = (\<lambda>_. replicate 4096 7)\<rparr>"

lemma wire_lib_ok: "lib_ok wire_lib"
  by (auto simp: lib_ok_def wire_lib_def split: list.splits)

lemma demo_srv_ok: "srv_ok 1024 (demo_srv recs)"
proof -
  have "client_count demo2 = 4" by (simp add: demo2_def demo1_def demo0_def boot_def)
  then show ?thesis
    using demo2_wf
    by (simp add: srv_ok_def net_ok_def demo_srv_def demo_net_def tbl.ok_upd wf_table_init ring_ok_empty task_ok_def)
qed

text \<open>When nothing is ready no descriptor is served.\<close>

lemma quiet_polled: "polled fuel wire_lib s = Inr (ret, ready, s') \<Longrightarrow> ret = 0"
  by (cases "ssl_al_lookup_new_clients fuel wire_lib admit (s_net s, s_world s)")
    (auto simp: polled_def wire_lib_def)

lemma quiet_visits: "\<not> visits fuel wire_lib parse rounds s buf fd s'"
proof
  assume "visits fuel wire_lib parse rounds s buf fd s'"
  then show False by (induction rule: visits.induct) (auto dest: quiet_polled)
qed


section \<open>The process\<close>

text \<open>A process before its start: the statics of C, and rings whose slots are zeroed.\<close>

definition fresh :: "('ssl, 'e) srv \<Rightarrow> bool" where
  "fresh s \<longleftrightarrow> (\<exists>t0. booted ((s_world s)\<lparr>m_time := Some t0\<rparr>)) \<and> client_count (s_world s) = 0 \<and>
     m_max_fd (s_world s) = - 1 \<and>
     (\<exists>z. n_pool (s_net s) = \<lparr>task_q = empty_ring (0, z), task_dq = empty_ring (0, z)\<rparr>)"

lemma start_up_ok:
  assumes L: "lib_ok L" and s: "fresh s" and fuel: "1000 \<le> fuel"
  shows "start_up fuel L (snd (parse_config conf)) argv (main_args argv) now s = Inl Out_Of_Fuel \<or>
    (\<exists>started s1. start_up fuel L (snd (parse_config conf)) argv (main_args argv) now s = Inr (started, s1) \<and>
       (if started then srv_ok fuel s1 else s_world s1 = s_world s))"
proof -
  obtain t0 where t0: "booted ((s_world s)\<lparr>m_time := Some t0\<rparr>)" using s by (auto simp: fresh_def)
  have sock: "\<forall>e. - 1 \<le> fst (os_socket L e) \<and> fst (os_socket L e) < 1024" using L by (simp add: lib_ok_def)
  show ?thesis
    using t0 sock
  proof (rule start_up_run)
    fix n1 sock w1 cfg
    assume n: "listens L argv s" "n_pool n1 = n_pool (s_net s)" "wf_table (n_table n1)" "booted w1"
      "config_ok cfg 10 10 team_names 1000 2"
      and run: "start_up fuel L (snd (parse_config conf)) argv (main_args argv) now s =
         and_then (game_init fuel cfg 10 10 team_names 1000 2 w1)
           (\<lambda>(ret, w2). Inr (ret \<noteq> ERROR, s\<lparr>s_net := n1, s_sock := sock, s_world := w2\<rparr>))"
    have "ring_ok (empty_ring (0, z))" for z :: 'a by (simp add: ring_ok_empty task_ok_def)
    then have "net_ok n1" using s n(2,3) by (auto simp: fresh_def net_ok_def)
    have ok: "srv_ok fuel (s\<lparr>s_net := n1, s_sock := sock, s_world := w\<rparr>)" if "wf_world w" "client_count w = 1000" for w
      using that fuel \<open>net_ok n1\<close> by (simp add: srv_ok_def)
    from start_ok [OF n(4,5), of fuel] show ?thesis
    proof
      assume "\<exists>w'. game_init fuel cfg 10 10 team_names 1000 2 w1 = Inr (SUCCESS, w') \<and> wf_world w' \<and>
        client_count w' = 1000 \<and> live w' = [] \<and> team_count w' = 2 \<and> map_x w' = 10 \<and> map_y w' = 10"
      then obtain w' where w': "game_init fuel cfg 10 10 team_names 1000 2 w1 = Inr (SUCCESS, w')" "wf_world w'"
        "client_count w' = 1000" by blast
      from ok [OF w'(2,3)] show ?thesis
        unfolding run by (intro disjI2 exI [of _ True]) (simp add: w'(1))
    qed (simp add: run)
  qed (intro disjI2 exI [of _ False], simp)
qed

lemma shut_down_fresh:
  assumes "client_count (s_world s) = 0" "m_max_fd (s_world s) = - 1"
  shows "\<exists>s'. shut_down L s = Inr s'"
  using assms by (simp add: shut_down_def game_clean_def time_api_free_def cleanup_server_def Let_def)

lemma main_run:
  "main fuel L parse conf argv now rounds s =
    (if fst (parse_config conf) = ERROR then and_then (shut_down L s) (\<lambda>s1. Inr (1, s1))
     else if length argv < 2 then Inr (1, s)
     else and_then (start_up fuel L (snd (parse_config conf)) argv (main_args argv) now s) (\<lambda>(started, s1).
       if \<not> started then and_then (shut_down L s1) (\<lambda>s2. Inr (1, s2))
       else and_then (main_loop fuel L parse rounds s1) (\<lambda>(_, s2). Inr (0, s2))))"
proof -
  have "a_nb_teams (main_args argv) = 2" "a_nb_clients (main_args argv) = 1000"
    by (simp_all add: main_args_def Let_def)
  then show ?thesis by (simp add: main_def Let_def split: prod.split)
qed



end
