(* ===== verification/Relogin.thy ===== *)
theory Relogin
  imports Lifetimes
begin

text \<open>
  What a second login leads to. Player 6 asks for a ritual and logs in again before it begins; the
  second half of the ritual is booked with the client found first for the descriptor, the new
  one, but names the first player. That player starves, and the new client's event
  reads freed memory. The run is evaluated state by state on a game of 2 by 1 tiles.
\<close>

section \<open>The game\<close>

definition set_time :: "nat \<Rightarrow> world \<Rightarrow> world" where
  "set_time t w = w\<lparr>m_time := Some \<lparr>t_divider = 1000, start_time_ms = 0, current_time_units = of_nat t\<rparr>\<rparr>"

definition stone_game :: world where
  "stone_game = demo2\<lparr>tiles := (tiles demo2)[0 := (tiles demo2 ! 0)\<lparr>t_items := empty_inventory\<lparr>linemate := 1, deraumere := 1, sibur := 1\<rparr>\<rparr>]\<rparr>"

lemma for4: "map int [0..<4] = [0, 1, 2, 3]" by (simp add: upt_rec)

lemmas on_numeral = find_client.simps(2) [of _ "pred_numeral k" for k, folded numeral_eq_Suc]
  fill_slot.simps(2) [of _ "pred_numeral k" for k, folded numeral_eq_Suc]
  clear_slot.simps(2) [of _ "pred_numeral k" for k, folded numeral_eq_Suc]

lemmas print_on_list = print_players.simps [of _ None] print_players.simps [of "numeral k" "Some a" for k a]

lemmas run_simps = print_on_list m_game_print_players_on_tile_def
  game_kill_player_def m_game_get_client_from_fd_def get_client_def upd_client_def
  upd_player_def update_ref_Some deref_Some
  game_play_def play_client_def get_slot_def get_slot_in PLAYER_IS_ALIVE_def get_player_def game_player_die_def
  CLIENT_HAS_ACTIONS_def process_client_def process_server_def time_api_process_client_events_def
  for4 m_remove_client_from_server_def m_team_remove_player_from_team_def
  get_team_def upd_team_def m_game_remove_player_from_tile_def free_player_def free_client_def
  server_create_response_to_command_def server_remove_client_def ft_list_add_last_def send_def
  MAP_def get_tile_def upd_tile_get get_client_buffer_def put_client_buffer_def set_slot_def on_numeral smod_nonneg

lemmas world_simps = stone_game_def set_time_def demo2_def demo1_def demo0_def boot_def demo_player_def new_player_def
  new_client_def empty_buffer_def m_game_init_team_def empty_inventory_def

definition five_killed :: world where
  "five_killed = (set_time 1300 stone_game)\<lparr>pheap := (pheap stone_game)(0 \<mapsto> (the (pheap stone_game 0))\<lparr>p_die_time := 0\<rparr>)\<rparr>"

lemma kill_five: "game_kill_player 5 (set_time 1300 stone_game) = Inr (SUCCESS, five_killed)"
  by (simp add: five_killed_def run_simps world_simps eval_nat_numeral)

definition six_alone :: world where
  "six_alone = five_killed\<lparr>clients := Some [None, Some 3, None, None], next_addr := 5,
     teams := [(m_game_init_team ''red'' 2)\<lparr>tm_current_players := 0, tm_players := [5, 0, 0, 0]\<rparr>,
               (m_game_init_team ''blue'' 2)\<lparr>tm_current_players := 1, tm_players := [6, 0, 0, 0]\<rparr>],
     pheap := [2 \<mapsto> demo_player 6 1], cheap := [3 \<mapsto> new_client 6 (Some 2)],
     out := [(5, response_json ''-'' (Some ''die'') None)]\<rparr>"

lemma five_dies: "game_play 100 five_killed = Inr (SUCCESS, six_alone\<lparr>m_clients := Some 4,
    list_heap := [4 \<mapsto> \<lparr>it_next = Some 4, it_prev = Some 4, it_fd = 5\<rparr>]\<rparr>)"
  by (simp add: five_killed_def six_alone_def run_simps world_simps)

definition six_queued :: world where
  "six_queued = six_alone\<lparr>cheap := [3 \<mapsto> (new_client 6 (Some 2))\<lparr>c_event_buffer :=
     \<lparr>eb_events = (replicate 10 \<lparr>exec_time = 0, ev_callback = None, ev_data = None, ev_arg = None\<rparr>)
        [0 := \<lparr>exec_time = 1300, ev_callback = Some (Command INCANTATION), ev_data = Some 2, ev_arg = None\<rparr>],
      eb_count = 1, eb_head = 0, eb_tail = 1\<rparr>\<rparr>]\<rparr>"

lemma six_asks: "game_execute_command 6 ''incantation'' None six_alone = Inr (SUCCESS, six_queued)"
  by (simp add: game_execute_command_def command_messages_def time_api_schedule_client_event_def pick_api_def
      six_queued_def six_alone_def five_killed_def run_simps world_simps)

definition six_twice :: world where
  "six_twice = six_queued\<lparr>clients := Some [Some 6, Some 3, None, None], next_addr := 7, rnd_pos := 23,
     tiles := (tiles stone_game)[0 := (tiles stone_game ! 0)\<lparr>t_players := Some 5\<rparr>],
     teams := [(m_game_init_team ''red'' 2)\<lparr>tm_current_players := 1, tm_players := [6, 0, 0, 0]\<rparr>,
               (m_game_init_team ''blue'' 2)\<lparr>tm_current_players := 1, tm_players := [6, 0, 0, 0]\<rparr>],
     pheap := [2 \<mapsto> (demo_player 6 1)\<lparr>prev_on_tile := Some 5\<rparr>,
               5 \<mapsto> (new_player 6 0)\<lparr>p_die_time := 2560, p_start_time := 1300, next_on_tile := Some 2\<rparr>],
     cheap := (cheap six_queued)(6 \<mapsto> new_client 6 (Some 5))\<rparr>"

lemma six_again: "game_register_player 6 ''red'' six_queued = Inr (SUCCESS, six_twice)"
  by (simp add: game_register_player_def m_game_get_team_id_def TEAM_IS_FULL_def malloc_player_def malloc_client_def
      m_game_get_start_pos_def rand_def c_rem_nonneg direction_of_def m_game_add_player_to_tile_def
      m_team_add_player_to_team_def m_add_client_to_server_def TIME_TO_DIE_def
      six_twice_def six_queued_def six_alone_def five_killed_def run_simps world_simps)

definition ritual_begun :: world where
  "ritual_begun = six_twice\<lparr>tiles := (tiles demo2)[0 := (tiles demo2 ! 0)\<lparr>t_items := empty_inventory, t_players := Some 5\<rparr>],
     cheap := [3 \<mapsto> (new_client 6 (Some 2))\<lparr>c_event_buffer :=
       \<lparr>eb_events = (replicate 10 \<lparr>exec_time = 0, ev_callback = None, ev_data = None, ev_arg = None\<rparr>)
          [0 := \<lparr>exec_time = 1300, ev_callback = Some (Command INCANTATION), ev_data = Some 2, ev_arg = None\<rparr>],
        eb_count = 0, eb_head = 1, eb_tail = 1\<rparr>\<rparr>,
      6 \<mapsto> (new_client 6 (Some 5))\<lparr>c_event_buffer :=
       \<lparr>eb_events = (replicate 10 \<lparr>exec_time = 0, ev_callback = None, ev_data = None, ev_arg = None\<rparr>)
          [9 := \<lparr>exec_time = 1600, ev_callback = Some Real_Incantation, ev_data = Some 2,
                 ev_arg = Some (snprintf_d 12 1)\<rparr>],
        eb_count = 1, eb_head = 9, eb_tail = 0\<rparr>\<rparr>],
     out := out six_twice @ [(6, response_json ''incantation'' None (Some ''in_progress''))]\<rparr>"

lemmas count_on_list = count_level.simps [of _ _ None] count_level.simps [of "numeral k" _ "Some a" for k a]

lemmas ritual_simps = run_callback_def run_command_def m_command_incantation_def m_game_check_can_incantation_def
  count_on_list level_reqs_def reqs_def items_suffice_def items_minus_def time_api_schedule_client_event_front_def
  m_is_event_buffer_full_def pick_api_def

lemma ritual_starts: "game_play 100 six_twice = Inr (SUCCESS, ritual_begun)"
  by (simp add: ritual_simps ritual_begun_def six_twice_def six_queued_def
      six_alone_def five_killed_def run_simps world_simps fun_upd_twist)

definition six_gone :: world where
  "six_gone = (set_time 1400 ritual_begun)\<lparr>clients := Some [Some 6, None, None, None], next_addr := 8,
     pheap := [5 \<mapsto> (new_player 6 0)\<lparr>p_die_time := 2560, p_start_time := 1300\<rparr>],
     teams := [(m_game_init_team ''red'' 2)\<lparr>tm_current_players := 1, tm_players := [6, 0, 0, 0]\<rparr>,
               (m_game_init_team ''blue'' 2)\<lparr>tm_current_players := 0, tm_players := [6, 0, 0, 0]\<rparr>],
     cheap := (cheap ritual_begun)(3 := None), m_clients := Some 7,
     list_heap := [7 \<mapsto> \<lparr>it_next = Some 7, it_prev = Some 7, it_fd = 6\<rparr>],
     out := out ritual_begun @ [(6, response_json ''-'' (Some ''die'') None)]\<rparr>"

lemma six_starves: "game_play 100 (set_time 1400 ritual_begun) = Inr (SUCCESS, six_gone)"
  by (simp add: six_gone_def ritual_begun_def six_twice_def six_queued_def six_alone_def five_killed_def
      run_simps world_simps Let_def)

lemma ritual_ends: "game_play n (set_time 1600 six_gone) = Inl Use_After_Free"
  by (simp add: run_callback_def m_command_real_incantation_def six_gone_def ritual_begun_def six_twice_def
      six_queued_def six_alone_def five_killed_def run_simps world_simps deref_def)

section \<open>Use after free\<close>

lemma stone_game_wf: "wf_world stone_game"
  unfolding stone_game_def
  by (rule wf_upd_tile [OF demo2_wf])
    (simp_all add: tile_place_def items_nonneg_def empty_inventory_def demo2_def demo1_def demo0_def)

lemma six_alone_wf: "wf_world six_alone"
proof -
  have "wf_world (set_time 1300 stone_game)" unfolding set_time_def by (rule wf_clock_set [OF stone_game_wf])
  with kill_player_ok [of "set_time 1300 stone_game" 5] kill_five have k: "wf_world five_killed" by auto
  have "client_count five_killed = 4" by (simp add: five_killed_def stone_game_def set_time_def demo2_def demo1_def demo0_def)
  with play_ok [OF k, of 100] five_dies
  have "wf_world (six_alone\<lparr>m_clients := Some 4, list_heap := [4 \<mapsto> \<lparr>it_next = Some 4, it_prev = Some 4, it_fd = 5\<rparr>]\<rparr>)"
    by auto
  from wf_list_done [OF this] show ?thesis
    by (simp add: six_alone_def five_killed_def set_time_def stone_game_def demo2_def demo1_def demo0_def boot_def)
qed


end
