(* ===== verification/Observers.thy ===== *)
theory Observers
  imports Lifetimes
begin

text \<open>
  The observers. \<open>game_register_observer\<close> books the sending of the map, but nobody ever runs
  it; and if it ran, the map of a game with a free place could not be made.
\<close>

section \<open>The event is never run\<close>

lemma step_keeps_observers:
  assumes "game_step fuel w w'" "wf_world w" "nat (client_count w) \<le> fuel" "oheap w a = Some ob"
  shows "oheap w' a = Some ob"
  using assms(1)
proof cases
  case (login fd name r)
  then show ?thesis using register_ok [OF assms(2), of fd name] assms(4) by auto
next
  case (command fd cmd arg r)
  then show ?thesis
    using execute_command_wf [OF assms(2), of fd cmd arg] assms(4) by (auto dest: keeps_fields(11))
next
  case (observe fd r)
  have "a \<noteq> next_addr w" using assms(2,4) by (auto simp: wf_world_def wf_rest_def)
  moreover obtain t where "m_time w = Some t" using wf_clock [OF assms(2)] by blast
  ultimately show ?thesis
    using observe assms(4) register_observer_eq [of w t fd] by fastforce
next
  case (kill fd r)
  then show ?thesis using kill_player_ok [OF assms(2), of fd] assms(4) by (auto dest: keeps_fields(11))
next
  case (play r)
  then show ?thesis using play_ok [OF assms(2,3)] assms(4) by (auto simp: fewer_def)
qed (use assms(4) in simp_all)

lemma steps_keep_observers:
  assumes "(game_step fuel)\<^sup>*\<^sup>* w w'" "wf_world w" "nat (client_count w) \<le> fuel" "oheap w a = Some ob"
  shows "wf_world w' \<and> nat (client_count w') \<le> fuel \<and> oheap w' a = Some ob"
  using assms
proof (induction rule: rtranclp_induct)
  case (step v v')
  then have v: "wf_world v" "nat (client_count v) \<le> fuel" "oheap v a = Some ob" by blast+
  then show ?case using step_ok [OF step(2) v(1,2)] step_keeps_observers [OF step(2) v] by auto
qed simp



section \<open>The map could not be made\<close>

lemma tile_players_dseg:
  "dseg (pheap w) q p xs None \<Longrightarrow> length xs \<le> fuel \<Longrightarrow>
   tile_players fuel p w = Inr (map (\<lambda>a. JNumber (p_id (the (pheap w a)))) xs)"
proof (induction xs arbitrary: q p fuel)
  case Nil
  then show ?case by (subst tile_players.simps) simp
next
  case (Cons a xs)
  then obtain n pl where n: "fuel = Suc n" "p = Some a" "pheap w a = Some pl"
    "dseg (pheap w) (Some a) (next_on_tile pl) xs None" "length xs \<le> n"
    by (cases fuel) auto
  with Cons.IH [OF n(4,5)] show ?case by (subst tile_players.simps) (simp add: get_player_eq)
qed

lemma tiles_serialized:
  assumes wf: "wf_world w" and fuel: "nat (client_count w) \<le> fuel"
  shows "\<exists>ts. traverse (\<lambda>yx. and_then (get_tile (MAP (snd yx) (fst yx) w) w) (\<lambda>T. m_serialize_tile fuel T w))
    (concat (map (\<lambda>y. map (\<lambda>x. (int y, int x)) [0..<nat (map_x w)]) [0..<nat (map_y w)])) = Inr ts"
proof (rule traverse_ok)
  fix yx
  assume "yx \<in> set (concat (map (\<lambda>y. map (\<lambda>x. (int y, int x)) [0..<nat (map_x w)]) [0..<nat (map_y w)]))"
  then have r: "0 \<le> fst yx" "fst yx < map_y w" "0 \<le> snd yx" "snd yx < map_x w" by auto
  obtain occ where occ: "tile_rep occ w" "placed occ w" using wf by (rule wf_occ)
  have geo: "geometry w" using wf by (simp add: wf_world_def wf_map_def)
  let ?i = "nat (MAP (snd yx) (fst yx) w)"
  have i: "?i < length (tiles w)" "MAP (snd yx) (fst yx) w = int ?i"
    using MAP_bounds [OF geo r(3,4,1,2)] by (simp_all add: nat_less_iff)
  have "length (occ ?i) \<le> fuel" using occ_length [OF wf occ(1) i(1)] fuel by simp
  from tile_players_dseg [OF tile_repD(1) [OF occ(1) i(1)] this] i
  show "\<exists>j. and_then (get_tile (MAP (snd yx) (fst yx) w) w) (\<lambda>T. m_serialize_tile fuel T w) = Inr j"
    using get_tile_eq [OF i(1)] by (simp add: m_serialize_tile_def)
qed

lemma serialize_players_slots:
  assumes wf: "wf_world w" and cs: "clients w = Some cs"
  shows "k + n = length cs \<Longrightarrow>
    (if None \<in> set (drop k cs) then serialize_players n (int k) w = Inl Null_Deref
     else \<exists>js. serialize_players n (int k) w = Inr js)"
proof (induction n arbitrary: k)
  case 0
  then show ?case by simp
next
  case (Suc n)
  then have k: "k < length cs" by simp
  then have drop: "drop k cs = cs ! k # drop (Suc k) cs" by (rule Cons_nth_drop_Suc [symmetric])
  have slot: "get_slot (int k) w = Inr (cs ! k)" using get_slot_in [OF cs, of "int k"] k by simp
  have next_k: "int k + 1 = int (Suc k)" by simp
  show ?case
  proof (cases "cs ! k")
    case None
    then show ?thesis using slot drop by (simp add: get_client_def deref_def)
  next
    case (Some c)
    then have "Some c \<in> set cs" using nth_mem [OF k] by simp
    with wf cs obtain cl where cl: "cheap w c = Some cl" by (metis option.inject roster_clients)
    obtain a pl where a: "c_player cl = Some a" "pheap w a = Some pl" using wf cl by (rule client_player)
    have "m_serialize_player pl w \<noteq> Inl e" for e
      using wf_team(1) [OF wf a(2)] by (simp add: m_serialize_player_def)
    then obtain j where j: "m_serialize_player pl w = Inr j" by (cases "m_serialize_player pl w") auto
    from Suc.IH [of "Suc k"] Suc.prems have IH: "if None \<in> set (drop (Suc k) cs)
        then serialize_players n (int (Suc k)) w = Inl Null_Deref
        else \<exists>js. serialize_players n (int (Suc k)) w = Inr js" by simp
    have "serialize_players (Suc n) (int k) w
        = and_then (serialize_players n (int (Suc k)) w) (\<lambda>js. Inr (j # js))"
      unfolding serialize_players.simps next_k
      using slot Some cl a j by (simp add: get_client_def deref_Some get_player_eq)
    with IH show ?thesis unfolding drop using Some by (auto split: if_splits)
  qed
qed

text \<open>
  The view of the world that observers are meant to get exists only in a game without a free
  place: as long as a slot of the clients array is empty, \<open>m_serialize_server\<close> follows its NULL
  pointer, and with all slots taken it returns.
\<close>
theorem map_needs_full_house:
  assumes "wf_world w" "clients w = Some cs" "nat (client_count w) \<le> fuel"
  shows "if None \<in> set cs then m_serialize_server fuel w = Inl Null_Deref
    else \<exists>j. m_serialize_server fuel w = Inr j"
proof -
  obtain ts where ts: "traverse (\<lambda>yx. and_then (get_tile (MAP (snd yx) (fst yx) w) w) (\<lambda>T. m_serialize_tile fuel T w))
    (concat (map (\<lambda>y. map (\<lambda>x. (int y, int x)) [0..<nat (map_x w)]) [0..<nat (map_y w)])) = Inr ts"
    using tiles_serialized [OF assms(1,3)] by blast
  have "int (length cs) = client_count w" using assms(1,2) by (simp add: wf_world_def wf_roster_def)
  then have len: "nat (client_count w) = length cs" by simp
  obtain tm where tm: "m_time w = Some tm" using wf_clock [OF assms(1)] by blast
  have "int (length (teams w)) = team_count w" using assms(1) by (simp add: wf_world_def wf_teams_def)
  then have "\<exists>tms. traverse (\<lambda>i. and_then (get_team (int i) w) (\<lambda>t. Inr (serialize_team t))) [0..<nat (team_count w)]
      = Inr tms"
    by (intro traverse_ok) (auto simp: get_team_def)
  then obtain tms where tms: "traverse (\<lambda>i. and_then (get_team (int i) w) (\<lambda>t. Inr (serialize_team t)))
      [0..<nat (team_count w)] = Inr tms" by blast
  from serialize_players_slots [OF assms(1,2), of 0 "length cs"] show ?thesis
    using ts tm tms by (auto simp: m_serialize_server_def len split: if_splits)
qed

theorem map_needs_full_house_witness: "m_serialize_server 4 demo2 = Inl Null_Deref"
proof -
  have "clients demo2 = Some [Some 1, Some 3, None, None]" "nat (client_count demo2) \<le> 4"
    by (simp_all add: demo2_def demo1_def demo0_def)
  from map_needs_full_house [OF demo2_wf this] show ?thesis by simp
qed

end
