(* ===== verification/Arguments.thy ===== *)
theory Arguments
  imports World
begin

text \<open>
  Who owns the argument strings. \<open>game_execute_command\<close> copies the argument of a command with
  \<open>strdup\<close>, an event buffer carries its address, \<open>time_api_process_client_events\<close> frees it after the
  callback, \<open>game_player_die\<close> and \<open>game_clean\<close> free what a client still holds. The rest of the model
  carries the strings as values; here the operations of \<open>TimeApi\<close> run on addresses, with an
  explicit heap of strings. It is shown that no string is freed twice or read after it was freed, which strings are
  never freed, and that the addresses refine the values.
\<close>

section \<open>The strings and the buffers\<close>

type_synonym arg_buffer = "(callback, ptr, nat) event_buffer"

record arg_state =
  strings :: "nat \<rightharpoonup> string"
  next_string :: nat
  arg_bufs :: "nat \<rightharpoonup> arg_buffer"

text \<open>\<open>ft_malloc\<close> ends the process when no memory is left, so a \<open>strdup\<close> that returns has succeeded.\<close>

definition ft_strdup :: "string \<Rightarrow> arg_state \<Rightarrow> nat \<times> arg_state" where
  "ft_strdup s m = (next_string m,
     m\<lparr>strings := (strings m)(next_string m \<mapsto> s), next_string := next_string m + 1\<rparr>)"

definition free_string :: "nat option \<Rightarrow> arg_state \<Rightarrow> arg_state res" where
  "free_string p m =
     (case p of
        None \<Rightarrow> Inr m
      | Some a \<Rightarrow> if strings m a = None then Inl Use_After_Free else Inr (m\<lparr>strings := (strings m)(a := None)\<rparr>))"

definition get_buf :: "nat \<Rightarrow> arg_state \<Rightarrow> arg_buffer res" where
  "get_buf c m = deref (arg_bufs m) (Some c)"

definition put_buf :: "nat \<Rightarrow> arg_buffer \<Rightarrow> arg_state \<Rightarrow> arg_state res" where
  "put_buf c b m = and_then (update_ref (arg_bufs m) (Some c) (\<lambda>_. b)) (\<lambda>h. Inr (m\<lparr>arg_bufs := h\<rparr>))"

section \<open>Where arguments come from and go to\<close>

text \<open>The end of \<open>game_execute_command\<close>, once the command is known: the result of scheduling is not looked at.\<close>

definition queue_command ::
  "time_api option \<Rightarrow> nat \<Rightarrow> command_type \<Rightarrow> int \<Rightarrow> ptr \<Rightarrow> string option \<Rightarrow> arg_state \<Rightarrow> (int \<times> arg_state) res" where
  "queue_command clock c command delay player given m =
     (let (arg, m1) = (case given of None \<Rightarrow> (None, m) | Some s \<Rightarrow> let (a, m1) = ft_strdup s m in (Some a, m1)) in
      and_then (get_buf c m1) (\<lambda>b.
      let (ret, b1) = time_api_schedule_client_event None clock b delay (Some (Command command)) player arg in
      and_then (put_buf c b1 m1) (\<lambda>m2. Inr (SUCCESS, m2))))"

text \<open>The end of \<open>m_command_incantation\<close>: the level is printed, copied, and booked with the second half.\<close>

definition book_ritual :: "time_api option \<Rightarrow> nat \<Rightarrow> int \<Rightarrow> int \<Rightarrow> ptr \<Rightarrow> arg_state \<Rightarrow> arg_state res" where
  "book_ritual clock c delay level p m =
     (let (a, m1) = ft_strdup (snprintf_d 12 level) m in
      and_then (get_buf c m1) (\<lambda>b.
      let (ret, b1) = time_api_schedule_client_event_front None clock b delay (Some Real_Incantation) p (Some a) in
      put_buf c b1 m1))"

text \<open>
  What the callbacks do with the argument: the first half of a ritual does not look at it, but
  when the game lets the ritual begin (\<open>ritual\<close> is then the delay and the level) it books the
  second half; every other callback may read it.
\<close>

definition arg_callback ::
  "time_api option \<Rightarrow> nat \<Rightarrow> (int \<times> int) option \<Rightarrow> callback \<Rightarrow> ptr \<Rightarrow> nat option \<Rightarrow> arg_state \<Rightarrow> arg_state res" where
  "arg_callback clock c ritual cb p arg m =
     (if cb = Command INCANTATION then
        case ritual of None \<Rightarrow> Inr m | Some (delay, level) \<Rightarrow> book_ritual clock c delay level p m
      else
        case arg of None \<Rightarrow> Inr m | Some a \<Rightarrow> and_then (deref (strings m) (Some a)) (\<lambda>_. Inr m))"

definition play_event ::
  "time_api option \<Rightarrow> nat \<Rightarrow> (int \<times> int) option \<Rightarrow> arg_state \<Rightarrow> (int \<times> arg_state) res" where
  "play_event clock c ritual m =
     time_api_process_client_events clock (get_buf c) (put_buf c) (arg_callback clock c ritual) free_string m"

text \<open>The loop of \<open>game_player_die\<close> and of \<open>game_clean\<close>, then the client itself is freed.\<close>

definition free_args :: "nat \<Rightarrow> arg_state \<Rightarrow> arg_state res" where
  "free_args c m =
     for_each (map int [0..<10]) (\<lambda>i m1.
       and_then (get_buf c m1) (\<lambda>b.
       and_then (arr_get (eb_events b) i) (\<lambda>e. free_string (ev_arg e) m1))) m"

definition leave :: "nat \<Rightarrow> arg_state \<Rightarrow> arg_state res" where
  "leave c m =
     and_then (free_args c m) (\<lambda>m1. Inr (m1\<lparr>arg_bufs := (arg_bufs m1)(c := None)\<rparr>))"

inductive arg_step :: "arg_state \<Rightarrow> arg_state \<Rightarrow> bool" where
  join: "arg_bufs m c = None \<Longrightarrow> arg_step m (m\<lparr>arg_bufs := (arg_bufs m)(c \<mapsto> empty_buffer None)\<rparr>)"
| command: "queue_command (Some t) c cmd delay p arg m = Inr (r, m') \<Longrightarrow> arg_step m m'"
| play: "play_event (Some t) c ritual m = Inr (r, m') \<Longrightarrow> arg_step m m'"
| leave: "leave c m = Inr m' \<Longrightarrow> arg_step m m'"

definition no_strings :: arg_state where
  "no_strings = \<lparr>strings = Map.empty, next_string = 0, arg_bufs = Map.empty\<rparr>"

section \<open>The slots in use\<close>

definition window :: "arg_buffer \<Rightarrow> nat set" where
  "window b = (\<lambda>k. nat ((eb_head b + int k) mod 10)) ` {..<nat (eb_count b)}"

definition slot_arg :: "arg_buffer \<Rightarrow> nat \<Rightarrow> nat option" where
  "slot_arg b i = ev_arg (eb_events b ! i)"

definition tidy :: "arg_buffer \<Rightarrow> bool" where
  "tidy b \<longleftrightarrow> wf_buffer b \<and> (\<forall>i < 10. slot_arg b i \<noteq> None \<longrightarrow> i \<in> window b)"

lemma window_iff:
  assumes "wf_buffer b" "i < 10"
  shows "i \<in> window b \<longleftrightarrow> (int i - eb_head b) mod 10 < eb_count b"
proof -
  have h: "0 \<le> eb_head b" "eb_head b < 10" "eb_count b \<le> 10" "0 \<le> eb_count b"
    using assms(1) by (auto simp: wf_buffer_def)
  show ?thesis
  proof
    assume "i \<in> window b"
    then obtain k where k: "k < nat (eb_count b)" "i = nat ((eb_head b + int k) mod 10)" unfolding window_def by blast
    then have "int i - eb_head b = (eb_head b + int k) mod 10 - eb_head b" using h by simp
    then have "(int i - eb_head b) mod 10 = int k mod 10" by (simp add: mod_diff_left_eq)
    moreover have "int k < eb_count b" "int k < 10" using k(1) h(3) by linarith+
    ultimately show "(int i - eb_head b) mod 10 < eb_count b" by simp
  next
    assume a: "(int i - eb_head b) mod 10 < eb_count b"
    let ?k = "nat ((int i - eb_head b) mod 10)"
    have "(eb_head b + int ?k) mod 10 = int i mod 10" by (simp add: mod_add_right_eq)
    then have "i = nat ((eb_head b + int ?k) mod 10)" using assms(2) by simp
    moreover have "?k < nat (eb_count b)" using a by (simp add: zless_nat_conj)
    ultimately show "i \<in> window b" unfolding window_def by blast
  qed
qed

lemma tail_free:
  assumes "tidy b" "length (pending b) < 10"
  shows "slot_arg b (nat (eb_tail b)) = None" "nat (eb_tail b) < 10"
proof -
  have b: "wf_buffer b" "0 \<le> eb_head b" "eb_head b < 10" "eb_tail b = (eb_head b + eb_count b) mod 10"
    "0 \<le> eb_count b" "eb_count b < 10"
    using assms length_pending [of b] by (auto simp: tidy_def wf_buffer_def)
  then show i: "nat (eb_tail b) < 10" by (simp add: nat_less_iff)
  have "(int (nat (eb_tail b)) - eb_head b) mod 10 = eb_count b"
    using b(4-6) by (simp add: mod_diff_left_eq)
  then have "nat (eb_tail b) \<notin> window b" using window_iff [OF b(1) i] by simp
  then show "slot_arg b (nat (eb_tail b)) = None" using assms(1) i unfolding tidy_def by blast
qed

lemma tidy_empty: "tidy (empty_buffer None)"
  by (simp add: tidy_def slot_arg_def) (simp add: empty_buffer_def)

lemma slot_arg_nth:
  "length (eb_events b) = 10 \<Longrightarrow> i < 10 \<Longrightarrow> k < 10 \<Longrightarrow> eb_events b' = (eb_events b)[k := e] \<Longrightarrow>
   slot_arg b' i = (if i = k then ev_arg e else slot_arg b i)"
  by (simp add: slot_arg_def nth_list_update)

lemma tidy_push_back:
  assumes "tidy b" "length (pending b) < 10" "i < 10"
  shows "tidy (push_back e b)" "slot_arg (push_back e b) i = (if i = nat (eb_tail b) then ev_arg e else slot_arg b i)"
proof -
  have b: "wf_buffer b" "length (eb_events b) = 10" "eb_tail b = (eb_head b + eb_count b) mod 10" "0 \<le> eb_count b"
    "eb_count b < 10"
    using assms(1,2) length_pending [of b] by (auto simp: tidy_def wf_buffer_def)
  have slots: "slot_arg (push_back e b) j = (if j = nat (eb_tail b) then ev_arg e else slot_arg b j)" if "j < 10" for j
    using slot_arg_nth [OF b(2) that tail_free(2) [OF assms(1,2)]] by (simp add: push_back_def)
  then show "slot_arg (push_back e b) i = (if i = nat (eb_tail b) then ev_arg e else slot_arg b i)" using assms(3) .
  have wf: "wf_buffer (push_back e b)" using b(1) assms(2) by (rule wf_push_back)
  have "j \<in> window (push_back e b)" if "j < 10" "slot_arg (push_back e b) j \<noteq> None" for j
  proof (cases "j = nat (eb_tail b)")
    case True
    then have "(int j - eb_head b) mod 10 = eb_count b" using b(3-5) by (simp add: mod_diff_left_eq)
    then show ?thesis using window_iff [OF wf that(1)] by (simp add: push_back_def)
  next
    case False
    then have "j \<in> window b" using assms(1) that slots [OF that(1)] by (simp add: tidy_def)
    then show ?thesis using window_iff [OF wf that(1)] window_iff [OF b(1) that(1)] by (simp add: push_back_def)
  qed
  with wf show "tidy (push_back e b)" by (simp add: tidy_def)
qed

lemma before_mod10:
  fixes x :: int
  assumes "- 10 < x" "x < 10" "x \<noteq> 0"
  shows "(x - 1) mod 10 = x mod 10 - 1"
proof -
  have "x mod 10 \<noteq> 0" using assms by presburger
  then have "0 \<le> x mod 10 - 1" "x mod 10 - 1 < 10" using pos_mod_bound [of 10 x] pos_mod_sign [of 10 x] by linarith+
  then show ?thesis using mod_diff_left_eq [of x 10 1] by simp
qed

text \<open>The buffer after its front event has run, and after a ritual has booked its second half.\<close>

definition cleared :: "arg_buffer \<Rightarrow> arg_buffer" where
  "cleared b = (pop b)\<lparr>eb_events := (eb_events b)[nat (eb_head b) := (front b)\<lparr>ev_arg := None\<rparr>]\<rparr>"

lemma tidy_cleared:
  assumes "tidy b" "pending b \<noteq> []" "i < 10"
  shows "tidy (cleared b)" "slot_arg (cleared b) i = (if i = nat (eb_head b) then None else slot_arg b i)"
proof -
  have b: "wf_buffer b" "length (eb_events b) = 10" "0 \<le> eb_head b" "eb_head b < 10"
    using assms(1) by (auto simp: tidy_def wf_buffer_def)
  then have h: "nat (eb_head b) < 10" by simp
  have slots: "slot_arg (cleared b) j = (if j = nat (eb_head b) then None else slot_arg b j)" if "j < 10" for j
    using slot_arg_nth [OF b(2) that h] by (simp add: cleared_def)
  then show "slot_arg (cleared b) i = (if i = nat (eb_head b) then None else slot_arg b i)" using assms(3) .
  have wf: "wf_buffer (cleared b)"
    using wf_pop [OF b(1) assms(2)] by (simp add: cleared_def wf_buffer_def pop_def)
  have "j \<in> window (cleared b)" if "j < 10" "slot_arg (cleared b) j \<noteq> None" for j
  proof -
    have j: "j \<noteq> nat (eb_head b)" "slot_arg b j \<noteq> None" using that slots by (auto split: if_splits)
    then have "j \<in> window b" using assms(1) that(1) by (simp add: tidy_def)
    then have "(int j - eb_head b) mod 10 < eb_count b" using window_iff [OF b(1) that(1)] by simp
    moreover have "(int j - (eb_head b + 1) mod 10) mod 10 = (int j - eb_head b) mod 10 - 1"
      using before_mod10 [of "int j - eb_head b"] j(1) b(3,4) that(1)
      by (simp add: mod_diff_right_eq algebra_simps)
    ultimately show ?thesis
      using window_iff [OF wf that(1)] b(3) by (simp add: cleared_def pop_def wrap_simps)
  qed
  with wf show "tidy (cleared b)" by (simp add: tidy_def)
qed

lemma push_front_pop:
  assumes "wf_buffer b" "pending b \<noteq> []"
  shows "eb_head (push_front e (pop b)) = eb_head b" "eb_count (push_front e (pop b)) = eb_count b"
    "eb_events (push_front e (pop b)) = (eb_events b)[nat (eb_head b) := e]"
proof -
  have b: "0 \<le> eb_head b" "eb_head b < 10" using assms(1) by (auto simp: wf_buffer_def)
  have "((eb_head b + 1) mod 10 - 1) mod 10 = eb_head b" using b by (simp add: mod_diff_left_eq)
  then have "eb_head (push_front e (pop b)) = eb_head b"
    using push_front_head [OF wf_pop [OF assms]] b by (simp add: push_front_def pop_def wrap_simps Let_def)
  then show "eb_head (push_front e (pop b)) = eb_head b"
    "eb_events (push_front e (pop b)) = (eb_events b)[nat (eb_head b) := e]"
    by (simp_all add: push_front_def pop_def Let_def)
  show "eb_count (push_front e (pop b)) = eb_count b" by (simp add: push_front_def pop_def Let_def)
qed

lemma tidy_ritual:
  assumes "tidy b" "pending b \<noteq> []" "i < 10"
  shows "tidy (push_front e (pop b))"
    "slot_arg (push_front e (pop b)) i = (if i = nat (eb_head b) then ev_arg e else slot_arg b i)"
proof -
  have b: "wf_buffer b" "length (eb_events b) = 10" "0 \<le> eb_head b" "eb_head b < 10" "0 < eb_count b"
    using assms(1,2) pending_Nil_iff [of b] by (auto simp: tidy_def wf_buffer_def)
  then have h: "nat (eb_head b) < 10" by simp
  note same = push_front_pop [OF b(1) assms(2), of e]
  have slots: "slot_arg (push_front e (pop b)) j = (if j = nat (eb_head b) then ev_arg e else slot_arg b j)"
    if "j < 10" for j using slot_arg_nth [OF b(2) that h same(3)] .
  then show "slot_arg (push_front e (pop b)) i = (if i = nat (eb_head b) then ev_arg e else slot_arg b i)"
    using assms(3) .
  have wf: "wf_buffer (push_front e (pop b))"
    using wf_pop [OF b(1) assms(2)] length_pending_le [OF b(1)] pending_not_empty [OF b(1) assms(2)]
    by (intro wf_push_front) simp_all
  have "j \<in> window (push_front e (pop b))" if "j < 10" "slot_arg (push_front e (pop b)) j \<noteq> None" for j
  proof -
    have "window (push_front e (pop b)) = window b" using same by (simp add: window_def)
    moreover have "nat (eb_head b) \<in> window b" using window_iff [OF b(1) h] b(3,5) by simp
    ultimately show ?thesis using assms(1) that slots [OF that(1)] by (auto simp: tidy_def split: if_splits)
  qed
  with wf show "tidy (push_front e (pop b))" by (simp add: tidy_def)
qed

section \<open>Ownership\<close>

definition held :: "arg_state \<Rightarrow> nat \<Rightarrow> nat \<Rightarrow> nat \<Rightarrow> bool" where
  "held m a c i \<longleftrightarrow> (\<exists>b. arg_bufs m c = Some b \<and> i < 10 \<and> slot_arg b i = Some a)"

definition args_ok :: "arg_state \<Rightarrow> bool" where
  "args_ok m \<longleftrightarrow> (\<forall>c b. arg_bufs m c = Some b \<longrightarrow> tidy b) \<and>
     (\<forall>a c i. held m a c i \<longrightarrow> strings m a \<noteq> None) \<and>
     (\<forall>a c i c' i'. held m a c i \<and> held m a c' i' \<longrightarrow> c = c' \<and> i = i') \<and>
     (\<forall>a. strings m a \<noteq> None \<longrightarrow> a < next_string m)"

text \<open>Allocated, but in no slot: nobody can free it any more.\<close>

definition lost :: "arg_state \<Rightarrow> nat set" where
  "lost m = {a. strings m a \<noteq> None \<and> (\<forall>c i. \<not> held m a c i)}"

lemma args_okD:
  assumes "args_ok m"
  shows "arg_bufs m c = Some b \<Longrightarrow> tidy b" "held m a c i \<Longrightarrow> strings m a \<noteq> None"
    "held m a c i \<Longrightarrow> held m a c' i' \<Longrightarrow> c = c' \<and> i = i'" "strings m a \<noteq> None \<Longrightarrow> a < next_string m"
  using assms unfolding args_ok_def by blast+

lemma fresh_unheld: "args_ok m \<Longrightarrow> \<not> held m (next_string m) c i"
  using args_okD(2,4) by blast

lemma held_swap:
  assumes "arg_bufs m c = Some b" "k < 10" "\<And>i. i < 10 \<Longrightarrow> slot_arg b' i = (if i = k then x else slot_arg b i)"
    and "arg_bufs m' = (arg_bufs m)(c \<mapsto> b')"
  shows "held m' a c' i \<longleftrightarrow> (if c' = c \<and> i = k then x = Some a else held m a c' i)"
  using assms by (auto simp: held_def)

lemma alloc_in_slot:
  fixes s :: string
  assumes ok: "args_ok m" and b: "arg_bufs m c = Some b" "tidy b'" "k < 10"
    and slots: "\<And>i. i < 10 \<Longrightarrow> slot_arg b' i = (if i = k then Some (next_string m) else slot_arg b i)"
  defines "m' \<equiv> m\<lparr>strings := (strings m)(next_string m \<mapsto> s), next_string := next_string m + 1,
    arg_bufs := (arg_bufs m)(c \<mapsto> b')\<rparr>"
  shows "args_ok m' \<and> lost m' = lost m \<union> set_option (slot_arg b k)"
proof -
  have held: "held m' a d i \<longleftrightarrow> (if d = c \<and> i = k then next_string m = a else held m a d i)" for a d i
    by (subst held_swap [OF b(1,3) slots]) (simp_all add: m'_def)
  have str: "strings m' a \<noteq> None \<longleftrightarrow> a = next_string m \<or> strings m a \<noteq> None" for a by (simp add: m'_def)
  have new: "\<not> held m (next_string m) d i" "strings m (next_string m) = None" for d i
    using fresh_unheld [OF ok] args_okD(4) [OF ok, of "next_string m"] less_irrefl by blast+
  have "args_ok m'"
    unfolding args_ok_def
  proof (intro conjI allI impI)
    fix d bd
    assume "arg_bufs m' d = Some bd"
    then show "tidy bd" using b(2) args_okD(1) [OF ok] by (auto simp: m'_def split: if_splits)
  next
    fix a d i
    assume "held m' a d i"
    then show "strings m' a \<noteq> None" using args_okD(2) [OF ok] str held by (auto split: if_splits)
  next
    fix a d i d' i'
    assume "held m' a d i \<and> held m' a d' i'"
    then have "held m' a d i" "held m' a d' i'" by simp_all
    then show "d = d'" "i = i'" using new(1) args_okD(3) [OF ok, of a d i d' i'] unfolding held by (auto split: if_splits)
  next
    fix a
    assume "strings m' a \<noteq> None"
    then show "a < next_string m'" using args_okD(4) [OF ok, of a] by (auto simp: m'_def split: if_splits)
  qed
  moreover have "lost m' = lost m \<union> set_option (slot_arg b k)"
  proof (rule set_eqI, unfold Un_iff elem_set)
    fix a
    have k: "held m a c k \<longleftrightarrow> slot_arg b k = Some a" using b(1,3) by (simp add: held_def)
    show "a \<in> lost m' \<longleftrightarrow> a \<in> lost m \<or> slot_arg b k = Some a"
    proof (cases "slot_arg b k = Some a")
      case True
      then have "held m a c k" using k by simp
      then have "strings m a \<noteq> None" "a \<noteq> next_string m" "\<And>d i. held m a d i \<Longrightarrow> d = c \<and> i = k"
        using args_okD(2,3) [OF ok] new(1) by blast+
      with True show ?thesis unfolding lost_def mem_Collect_eq str held by auto
    next
      case False
      then have "\<not> held m a c k" using k by simp
      then have all: "(\<forall>d i. \<not> (if d = c \<and> i = k then next_string m = a else held m a d i)) \<longleftrightarrow>
          a \<noteq> next_string m \<and> (\<forall>d i. \<not> held m a d i)" by metis
      show ?thesis
        unfolding lost_def mem_Collect_eq str held all using False new(2) by (cases "a = next_string m") simp_all
    qed
  qed
  ultimately show ?thesis ..
qed

lemma clear_slot_arg:
  assumes ok: "args_ok m" and b: "arg_bufs m c = Some b" "tidy b'" "k < 10"
    and slots: "\<And>i. i < 10 \<Longrightarrow> slot_arg b' i = (if i = k then None else slot_arg b i)"
  defines "m' \<equiv> m\<lparr>strings := (case slot_arg b k of None \<Rightarrow> strings m | Some a \<Rightarrow> (strings m)(a := None)),
    arg_bufs := (arg_bufs m)(c \<mapsto> b')\<rparr>"
  shows "args_ok m' \<and> lost m' = lost m"
proof -
  have held: "held m' a d i \<longleftrightarrow> \<not> (d = c \<and> i = k) \<and> held m a d i" for a d i
    by (subst held_swap [OF b(1,3) slots]) (simp_all add: m'_def)
  have k: "held m a c k \<longleftrightarrow> slot_arg b k = Some a" for a using b(1,3) by (simp add: held_def)
  have str: "strings m' a \<noteq> None \<longleftrightarrow> \<not> held m a c k \<and> strings m a \<noteq> None" for a
    unfolding k by (simp add: m'_def split: option.split)
  have "args_ok m'"
    unfolding args_ok_def
  proof (intro conjI allI impI)
    fix d bd
    assume "arg_bufs m' d = Some bd"
    then show "tidy bd" using b(2) args_okD(1) [OF ok] by (auto simp: m'_def split: if_splits)
  next
    fix a d i
    assume "held m' a d i"
    then show "strings m' a \<noteq> None" using args_okD(2,3) [OF ok] unfolding str held by blast
  next
    fix a d i d' i'
    assume "held m' a d i \<and> held m' a d' i'"
    then show "d = d'" "i = i'" using args_okD(3) [OF ok] unfolding held by blast+
  next
    fix a
    assume "strings m' a \<noteq> None"
    then show "a < next_string m'" using args_okD(4) [OF ok, of a] unfolding str by (simp add: m'_def)
  qed
  moreover have "a \<in> lost m' \<longleftrightarrow> a \<in> lost m" for a
    unfolding lost_def mem_Collect_eq str held by (cases "held m a c k") metis+
  ultimately show ?thesis by blast
qed

lemma alloc_unheld:
  fixes s :: string
  assumes ok: "args_ok m"
  defines "m' \<equiv> m\<lparr>strings := (strings m)(next_string m \<mapsto> s), next_string := next_string m + 1\<rparr>"
  shows "args_ok m' \<and> lost m' = insert (next_string m) (lost m)"
proof -
  have held: "held m' a c i \<longleftrightarrow> held m a c i" for a c i by (simp add: held_def m'_def)
  have str: "strings m' a \<noteq> None \<longleftrightarrow> a = next_string m \<or> strings m a \<noteq> None" for a by (simp add: m'_def)
  have "args_ok m'"
    unfolding args_ok_def held str using args_okD [OF ok] by (auto simp: m'_def less_SucI)
  moreover have "lost m' = insert (next_string m) (lost m)"
    unfolding lost_def held str using fresh_unheld [OF ok] by auto
  ultimately show ?thesis ..
qed

section \<open>Every operation keeps the ownership\<close>

definition booked :: "time_api \<Rightarrow> command_type \<Rightarrow> int \<Rightarrow> ptr \<Rightarrow> nat option \<Rightarrow> arg_buffer \<Rightarrow> arg_buffer" where
  "booked t cmd delay p a b =
     (if length (pending b) < 10
      then push_back \<lparr>exec_time = due_time t b delay, ev_callback = Some (Command cmd), ev_data = p, ev_arg = a\<rparr> b
      else b)"

lemma schedule_booked:
  assumes "wf_buffer b"
  shows "\<exists>r. time_api_schedule_client_event None (Some t) b delay (Some (Command cmd)) p a = (r, booked t cmd delay p a b)"
proof (cases "length (pending b) < 10")
  case True
  then show ?thesis using count_less [OF assms] by (simp add: booked_def schedule_eq [where tm = t] pick_api_def)
next
  case False
  then have "eb_count b = 10" using length_pending_le [OF assms] length_pending [OF assms] by simp
  with False show ?thesis by (simp add: booked_def schedule_full_eq)
qed

lemma queue_eq:
  assumes "arg_bufs m c = Some b" "wf_buffer b"
  shows "queue_command (Some t) c cmd delay p None m
      = Inr (SUCCESS, m\<lparr>arg_bufs := (arg_bufs m)(c \<mapsto> booked t cmd delay p None b)\<rparr>)"
    "queue_command (Some t) c cmd delay p (Some s) m
      = Inr (SUCCESS, m\<lparr>strings := (strings m)(next_string m \<mapsto> s), next_string := next_string m + 1,
          arg_bufs := (arg_bufs m)(c \<mapsto> booked t cmd delay p (Some (next_string m)) b)\<rparr>)"
  using assms schedule_booked [OF assms(2), of t delay cmd p None]
    schedule_booked [OF assms(2), of t delay cmd p "Some (next_string m)"]
  by (auto simp: queue_command_def ft_strdup_def get_buf_def put_buf_def deref_Some update_ref_Some)

lemma command_ok:
  assumes ok: "args_ok m" and b: "arg_bufs m c = Some b"
  shows "\<exists>m'. queue_command (Some t) c cmd delay p arg m = Inr (SUCCESS, m') \<and> args_ok m' \<and>
    lost m' = (if arg \<noteq> None \<and> length (pending b) = 10 then insert (next_string m) (lost m) else lost m)"
proof -
  have tb: "tidy b" "wf_buffer b" using args_okD(1) [OF ok b] by (simp_all add: tidy_def)
  show ?thesis
  proof (cases "length (pending b) < 10")
    case False
    then have full: "length (pending b) = 10" using length_pending_le [OF tb(2)] by simp
    then have "booked t cmd delay p a b = b" for a by (simp add: booked_def)
    with full show ?thesis
      using queue_eq [OF b tb(2)] ok alloc_unheld [OF ok] b by (cases arg) (simp_all add: fun_upd_idem)
  next
    case True
    note tail = tail_free [OF tb(1) True] and push = tidy_push_back [OF tb(1) True]
    show ?thesis
    proof (cases arg)
      case None
      let ?b = "booked t cmd delay p None b"
      have "tidy ?b" "\<And>i. i < 10 \<Longrightarrow> slot_arg ?b i = (if i = nat (eb_tail b) then None else slot_arg b i)"
        using True push by (simp_all add: booked_def)
      from clear_slot_arg [OF ok b this(1) tail(2) this(2)] tail(1) queue_eq(1) [OF b tb(2)] True None
      show ?thesis by simp
    next
      case (Some s)
      let ?b = "booked t cmd delay p (Some (next_string m)) b"
      have "tidy ?b" "\<And>i. i < 10 \<Longrightarrow> slot_arg ?b i = (if i = nat (eb_tail b) then Some (next_string m) else slot_arg b i)"
        using True push by (simp_all add: booked_def)
      from alloc_in_slot [OF ok b this(1) tail(2) this(2), of s] tail(1) queue_eq(2) [OF b tb(2), of t cmd delay p s] True Some
      show ?thesis by simp
    qed
  qed
qed

text \<open>An event is due; and it is the first half of a ritual that the game lets begin.\<close>

definition front_due :: "time_api \<Rightarrow> arg_buffer \<Rightarrow> bool" where
  "front_due t b \<longleftrightarrow> pending b \<noteq> [] \<and> exec_time (front b) \<le> current_time_units t"

definition ritual_starts :: "arg_buffer \<Rightarrow> (int \<times> int) option \<Rightarrow> bool" where
  "ritual_starts b ritual \<longleftrightarrow> ev_callback (front b) = Some (Command INCANTATION) \<and> ritual \<noteq> None"

lemma play_idle:
  assumes "arg_bufs m c = Some b" "wf_buffer b" "\<not> front_due t b"
  shows "play_event (Some t) c ritual m = Inr (SUCCESS, m)"
  unfolding play_event_def
  using assms by (intro process_not_due [where b = b]) (auto simp: get_buf_def deref_Some front_due_def)

definition second_half :: "time_api \<Rightarrow> int \<Rightarrow> ptr \<Rightarrow> nat \<Rightarrow> (callback, ptr, nat) event" where
  "second_half t delay p a = \<lparr>exec_time = current_time_units t + of_int delay,
     ev_callback = Some Real_Incantation, ev_data = p, ev_arg = Some a\<rparr>"

lemma play_ritual:
  assumes b: "arg_bufs m c = Some b" "wf_buffer b" and due: "front_due t b"
    and rit: "ev_callback (front b) = Some (Command INCANTATION)" "ritual = Some (delay, level)"
  shows "play_event (Some t) c ritual m = Inr (SUCCESS, m\<lparr>strings := (strings m)(next_string m \<mapsto> snprintf_d 12 level),
    next_string := next_string m + 1,
    arg_bufs := (arg_bufs m)(c \<mapsto> push_front (second_half t delay (ev_data (front b)) (next_string m)) (pop b))\<rparr>)"
proof -
  have d: "pending b \<noteq> []" "exec_time (front b) \<le> current_time_units t" using due by (simp_all add: front_due_def)
  have wf: "wf_buffer (pop b)" using wf_pop [OF b(2) d(1)] .
  have len: "length (pending (pop b)) < 10"
    using length_pending_le [OF b(2)] pending_not_empty [OF b(2) d(1)] by simp
  let ?e = "second_half t delay (ev_data (front b)) (next_string m)"
  have "eb_count (pop b) < 10" using count_less [OF wf] len by simp
  then have sched: "time_api_schedule_client_event_front None (Some t) (pop b) delay (Some Real_Incantation)
      (ev_data (front b)) (Some (next_string m)) = (0, push_front ?e (pop b))"
    by (simp add: schedule_front_eq [where tm = t] pick_api_def second_half_def)
  have "eb_head (pop b) \<noteq> eb_head (push_front ?e (pop b))"
  proof -
    have "(eb_head b + 1) mod 10 \<noteq> eb_head b" using b(2) unfolding wf_buffer_def by presburger
    then show ?thesis using push_front_pop(1) [OF b(2) d(1)] b(2) by (simp add: pop_def wrap_simps wf_buffer_def)
  qed
  then show ?thesis
    unfolding play_event_def
    by (subst process_due [where b = b, OF refl _ b(2) d])
      (simp_all add: b get_buf_def put_buf_def deref_Some update_ref_Some arg_callback_def rit book_ritual_def
        ft_strdup_def sched)
qed

lemma play_done:
  assumes ok: "args_ok m" and b: "arg_bufs m c = Some b" and due: "front_due t b" and plain: "\<not> ritual_starts b ritual"
  shows "play_event (Some t) c ritual m = Inr (SUCCESS,
    m\<lparr>strings := (case ev_arg (front b) of None \<Rightarrow> strings m | Some a \<Rightarrow> (strings m)(a := None)),
      arg_bufs := (arg_bufs m)(c \<mapsto> cleared b)\<rparr>)"
proof -
  have wf: "wf_buffer b" using args_okD(1) [OF ok b] by (simp add: tidy_def)
  have d: "pending b \<noteq> []" "exec_time (front b) \<le> current_time_units t" using due by (simp_all add: front_due_def)
  have h: "nat (eb_head b) < 10" "length (eb_events b) = 10" using wf by (auto simp: wf_buffer_def)
  have str: "\<exists>s. strings m a = Some s" if "ev_arg (front b) = Some a" for a
    using args_okD(2) [OF ok, of a c "nat (eb_head b)"] b h that by (auto simp: held_def slot_arg_def front_def)
  have call: "(case ev_callback (front b) of None \<Rightarrow> Inr m1
      | Some cb \<Rightarrow> arg_callback (Some t) c ritual cb (ev_data (front b)) (ev_arg (front b)) m1) = Inr m1"
    if "strings m1 = strings m" for m1
    using plain str that
    by (auto simp: arg_callback_def ritual_starts_def deref_def split: option.split)
  have ev: "eb_events (pop b) = eb_events b" "eb_events b ! nat (eb_head b) = front b" by (simp_all add: pop_def front_def)
  have same: "cleared b = pop b" if "ev_arg (front b) = None"
  proof -
    have "(front b)\<lparr>ev_arg := None\<rparr> = front b" using that by (cases "front b") simp
    then show ?thesis by (simp add: cleared_def pop_def front_def)
  qed
  show ?thesis
    unfolding play_event_def
    using str same
    by (subst process_due [where b = b, OF refl _ wf d])
      (auto simp: b get_buf_def put_buf_def deref_Some update_ref_Some call ev cleared_def free_string_def
        split: option.split)
qed

lemma play_event_ok:
  assumes ok: "args_ok m" and b: "arg_bufs m c = Some b"
  shows "\<exists>m'. play_event (Some t) c ritual m = Inr (SUCCESS, m') \<and> args_ok m' \<and>
    lost m' = lost m \<union> (if front_due t b \<and> ritual_starts b ritual then set_option (ev_arg (front b)) else {})"
proof -
  have tb: "tidy b" "wf_buffer b" using args_okD(1) [OF ok b] by (simp_all add: tidy_def)
  then have h: "nat (eb_head b) < 10" by (auto simp: wf_buffer_def)
  have arg: "slot_arg b (nat (eb_head b)) = ev_arg (front b)" by (simp add: slot_arg_def front_def)
  show ?thesis
  proof (cases "front_due t b")
    case False
    then show ?thesis using play_idle [OF b tb(2) False] ok by simp
  next
    case True
    then have ne: "pending b \<noteq> []" by (simp add: front_due_def)
    show ?thesis
    proof (cases "ritual_starts b ritual")
      case rit: True
      then obtain delay level where r: "ev_callback (front b) = Some (Command INCANTATION)" "ritual = Some (delay, level)"
        by (auto simp: ritual_starts_def)
      let ?b = "push_front (second_half t delay (ev_data (front b)) (next_string m)) (pop b)"
      have "tidy ?b" "\<And>i. i < 10 \<Longrightarrow> slot_arg ?b i = (if i = nat (eb_head b) then Some (next_string m) else slot_arg b i)"
        using tidy_ritual(1) [OF tb(1) ne, of 0] tidy_ritual(2) [OF tb(1) ne] by (simp_all add: second_half_def)
      from alloc_in_slot [OF ok b this(1) h this(2), of "snprintf_d 12 level"] True rit
        play_ritual [OF b tb(2) True r]
      show ?thesis unfolding arg by simp
    next
      case rit: False
      have "tidy (cleared b)"
        "\<And>i. i < 10 \<Longrightarrow> slot_arg (cleared b) i = (if i = nat (eb_head b) then None else slot_arg b i)"
        using tidy_cleared(1) [OF tb(1) ne, of 0] tidy_cleared(2) [OF tb(1) ne] by simp_all
      from clear_slot_arg [OF ok b this(1) h this(2)] rit play_done [OF ok b True rit]
      show ?thesis unfolding arg by simp
    qed
  qed
qed

lemma free_slots:
  assumes "arg_bufs m c = Some b" "length (eb_events b) = 10" "k \<le> 10"
    and "\<And>i a. k \<le> i \<Longrightarrow> i < 10 \<Longrightarrow> slot_arg b i = Some a \<Longrightarrow> strings m a \<noteq> None"
    and "\<And>i j a. i < 10 \<Longrightarrow> j < 10 \<Longrightarrow> slot_arg b i = Some a \<Longrightarrow> slot_arg b j = Some a \<Longrightarrow> i = j"
  shows "for_each (map int [k..<10]) (\<lambda>i m1. and_then (get_buf c m1) (\<lambda>b.
      and_then (arr_get (eb_events b) i) (\<lambda>e. free_string (ev_arg e) m1))) m
    = Inr (m\<lparr>strings := \<lambda>a. if \<exists>i. k \<le> i \<and> i < 10 \<and> slot_arg b i = Some a then None else strings m a\<rparr>)"
    (is "for_each _ ?f m = _")
  using assms
proof (induction "10 - k" arbitrary: k m)
  case 0
  then have "(\<lambda>a. if \<exists>i. k \<le> i \<and> i < 10 \<and> slot_arg b i = Some a then None else strings m a) = strings m"
    by (intro ext) auto
  then show ?case using 0 by simp
next
  case (Suc n)
  then have k: "k < 10" by simp
  then have upt: "[k..<10] = k # [Suc k..<10]" by (simp add: upt_conv_Cons)
  let ?h = "case slot_arg b k of None \<Rightarrow> strings m | Some a \<Rightarrow> (strings m)(a := None)"
  have step: "?f (int k) m = Inr (m\<lparr>strings := ?h\<rparr>)"
    using Suc.prems(1,2) Suc.prems(4) [of k] k
    by (auto simp: get_buf_def deref_Some free_string_def slot_arg_def split: option.split)
  have still: "strings (m\<lparr>strings := ?h\<rparr>) a \<noteq> None" if "Suc k \<le> i" "i < 10" "slot_arg b i = Some a" for i a
    using Suc.prems(4) [of i a] Suc.prems(5) [of i k a] that k by (auto split: option.split)
  have "for_each (map int [Suc k..<10]) ?f (m\<lparr>strings := ?h\<rparr>) = Inr (m\<lparr>strings := ?h\<rparr>\<lparr>strings :=
      \<lambda>a. if \<exists>i. Suc k \<le> i \<and> i < 10 \<and> slot_arg b i = Some a then None else strings (m\<lparr>strings := ?h\<rparr>) a\<rparr>)"
  proof (rule Suc.hyps(1))
    show "strings (m\<lparr>strings := ?h\<rparr>) a \<noteq> None" if "Suc k \<le> i" "i < 10" "slot_arg b i = Some a" for i a
      using that by (rule still)
    show "i = j" if "i < 10" "j < 10" "slot_arg b i = Some a" "slot_arg b j = Some a" for i j a
      using that by (rule Suc.prems(5))
  qed (use Suc.hyps(2) Suc.prems(1,2) k in simp_all)
  then have "for_each (map int [Suc k..<10]) ?f (m\<lparr>strings := ?h\<rparr>) = Inr (m\<lparr>strings :=
      \<lambda>a. if \<exists>i. Suc k \<le> i \<and> i < 10 \<and> slot_arg b i = Some a then None else ?h a\<rparr>)"
    by (simp cong: if_cong)
  moreover have "(if \<exists>i. Suc k \<le> i \<and> i < 10 \<and> slot_arg b i = Some a then None else ?h a)
      = (if \<exists>i. k \<le> i \<and> i < 10 \<and> slot_arg b i = Some a then None else strings m a)" for a
  proof (cases "slot_arg b k = Some a")
    case True
    then show ?thesis using k by auto
  next
    case False
    then have h: "?h a = strings m a" by (simp split: option.split)
    have "k \<le> i \<and> i < 10 \<and> slot_arg b i = Some a \<longleftrightarrow> Suc k \<le> i \<and> i < 10 \<and> slot_arg b i = Some a" for i
      using False by (metis Suc_leD le_antisym not_less_eq_eq)
    then show ?thesis by (simp only: h)
  qed
  ultimately show ?case by (simp add: upt step)
qed

lemma leave_eq:
  assumes ok: "args_ok m" and b: "arg_bufs m c = Some b"
  shows "leave c m = Inr (m\<lparr>strings := \<lambda>a. if \<exists>i. held m a c i then None else strings m a,
    arg_bufs := (arg_bufs m)(c := None)\<rparr>)"
proof -
  have len: "length (eb_events b) = 10" using args_okD(1) [OF ok b] by (simp add: tidy_def wf_buffer_def)
  have held: "held m a c i \<longleftrightarrow> i < 10 \<and> slot_arg b i = Some a" for a i using b by (simp add: held_def)
  have "strings m a \<noteq> None" if "i < 10" "slot_arg b i = Some a" for i a
    using args_okD(2) [OF ok, of a c i] that held by simp
  moreover have "i = j" if "i < 10" "j < 10" "slot_arg b i = Some a" "slot_arg b j = Some a" for i j a
    using args_okD(3) [OF ok, of a c i c j] that held by simp
  ultimately show ?thesis
    using free_slots [OF b len, of 0] by (simp add: leave_def free_args_def held)
qed

lemma leave_ok:
  assumes ok: "args_ok m" and b: "arg_bufs m c = Some b"
  shows "\<exists>m'. leave c m = Inr m' \<and> args_ok m' \<and> lost m' = lost m"
proof -
  let ?m = "m\<lparr>strings := \<lambda>a. if \<exists>i. held m a c i then None else strings m a, arg_bufs := (arg_bufs m)(c := None)\<rparr>"
  have held: "held ?m a d i \<longleftrightarrow> d \<noteq> c \<and> held m a d i" for a d i by (simp add: held_def)
  have str: "strings ?m a \<noteq> None \<longleftrightarrow> (\<forall>i. \<not> held m a c i) \<and> strings m a \<noteq> None" for a by simp
  have "args_ok ?m"
    unfolding args_ok_def held str
  proof (intro conjI allI impI)
    fix d bd
    assume "arg_bufs ?m d = Some bd"
    then show "tidy bd" using args_okD(1) [OF ok] by (simp split: if_splits)
  next
    fix a
    assume "(\<forall>i. \<not> held m a c i) \<and> strings m a \<noteq> None"
    then show "a < next_string ?m" using args_okD(4) [OF ok] by simp
  qed (use args_okD(2,3) [OF ok] in blast)+
  moreover have "lost ?m = lost m"
    unfolding lost_def held str by (rule Collect_cong) metis
  ultimately show ?thesis using leave_eq [OF assms] by blast
qed

lemma join_ok:
  assumes ok: "args_ok m" and "arg_bufs m c = None"
  shows "args_ok (m\<lparr>arg_bufs := (arg_bufs m)(c \<mapsto> empty_buffer None)\<rparr>)"
    "lost (m\<lparr>arg_bufs := (arg_bufs m)(c \<mapsto> empty_buffer None)\<rparr>) = lost m"
proof -
  let ?m = "m\<lparr>arg_bufs := (arg_bufs m)(c \<mapsto> empty_buffer None)\<rparr>"
  have "slot_arg (empty_buffer None) i = None" if "i < 10" for i
    using that by (simp add: slot_arg_def empty_buffer_def)
  then have held: "held ?m a d i \<longleftrightarrow> held m a d i" for a d i using assms(2) by (auto simp: held_def)
  show "args_ok ?m"
    unfolding args_ok_def held using args_okD [OF ok] tidy_empty by (auto split: if_splits)
  show "lost ?m = lost m" unfolding lost_def held by simp
qed

inductive_cases arg_stepE: "arg_step m m'"

lemma known_client:
  "queue_command (Some t) c cmd delay p arg m = Inr x \<Longrightarrow> \<exists>b. arg_bufs m c = Some b"
  "play_event (Some t) c ritual m = Inr x \<Longrightarrow> \<exists>b. arg_bufs m c = Some b"
  "leave c m = Inr m' \<Longrightarrow> \<exists>b. arg_bufs m c = Some b"
proof -
  show "queue_command (Some t) c cmd delay p arg m = Inr x \<Longrightarrow> \<exists>b. arg_bufs m c = Some b"
    by (cases "arg_bufs m c"; cases arg) (simp_all add: queue_command_def ft_strdup_def get_buf_def deref_def)
  show "play_event (Some t) c ritual m = Inr x \<Longrightarrow> \<exists>b. arg_bufs m c = Some b"
    by (cases "arg_bufs m c") (simp_all add: play_event_def time_api_process_client_events_def get_buf_def deref_def)
  show "leave c m = Inr m' \<Longrightarrow> \<exists>b. arg_bufs m c = Some b"
    by (cases "arg_bufs m c")
      (simp_all add: leave_def free_args_def get_buf_def deref_def upt_conv_Cons)
qed

lemma arg_step_ok:
  assumes "arg_step m m'" "args_ok m"
  shows "args_ok m' \<and> lost m \<subseteq> lost m'"
  using assms(1)
proof (rule arg_stepE)
  fix c
  assume "m' = m\<lparr>arg_bufs := (arg_bufs m)(c \<mapsto> empty_buffer None)\<rparr>" "arg_bufs m c = None"
  then show ?thesis using join_ok [OF assms(2)] by simp
next
  fix t c cmd delay p arg r
  assume run: "queue_command (Some t) c cmd delay p arg m = Inr (r, m')"
  then obtain b where "arg_bufs m c = Some b" using known_client(1) by blast
  from command_ok [OF assms(2) this, of t cmd delay p arg] run show ?thesis by (auto split: if_splits)
next
  fix t c ritual r
  assume run: "play_event (Some t) c ritual m = Inr (r, m')"
  then obtain b where "arg_bufs m c = Some b" using known_client(2) by blast
  from play_event_ok [OF assms(2) this, of t ritual] run show ?thesis by auto
next
  fix c
  assume run: "leave c m = Inr m'"
  then obtain b where "arg_bufs m c = Some b" using known_client(3) by blast
  from leave_ok [OF assms(2) this] run show ?thesis by auto
qed

lemma arg_steps_ok: "arg_step\<^sup>*\<^sup>* m m' \<Longrightarrow> args_ok m \<Longrightarrow> args_ok m' \<and> lost m \<subseteq> lost m'"
  by (induction rule: rtranclp_induct) (auto dest: arg_step_ok)

lemma no_strings_ok: "args_ok no_strings" "lost no_strings = {}"
  by (simp_all add: args_ok_def lost_def held_def no_strings_def)

section \<open>No string is freed twice\<close>

text \<open>
  C25: after any history of joins, commands, played events and deaths, queueing a command, playing
  the next event and the client's death all return: no argument is read or freed after it has been
  freed, whichever callbacks begin a ritual, for any number of clients.
\<close>
theorem arguments_freed_once:
  assumes "arg_step\<^sup>*\<^sup>* no_strings m" "arg_bufs m c = Some b"
  shows "(\<exists>m'. queue_command (Some t) c cmd delay p arg m = Inr (SUCCESS, m')) \<and>
    (\<exists>m'. play_event (Some t) c ritual m = Inr (SUCCESS, m')) \<and> (\<exists>m'. leave c m = Inr m')"
proof -
  have ok: "args_ok m" using arg_steps_ok [OF assms(1) no_strings_ok(1)] by simp
  show ?thesis
    using command_ok [OF ok assms(2)] play_event_ok [OF ok assms(2)] leave_ok [OF ok assms(2)] by blast
qed

definition one_client :: arg_state where
  "one_client = no_strings\<lparr>arg_bufs := [7 \<mapsto> empty_buffer None]\<rparr>"

lemma one_client_reached: "arg_step\<^sup>*\<^sup>* no_strings one_client" "arg_bufs one_client 7 = Some (empty_buffer None)"
  using arg_step.join [of no_strings 7] by (simp_all add: one_client_def no_strings_def)

theorem arguments_freed_once_witness:
  "\<exists>m'. play_event (Some \<lparr>t_divider = 1, start_time_ms = 0, current_time_units = 5\<rparr>) 7 None one_client = Inr (SUCCESS, m')"
  using arguments_freed_once [OF one_client_reached] by blast

section \<open>Which strings are never freed\<close>

lemma finite_lost: "args_ok m \<Longrightarrow> finite (lost m)"
  by (rule finite_subset [of _ "{..<next_string m}"]) (auto simp: lost_def dest: args_okD(4))

text \<open>
  An argument gets lost in exactly two ways: its command is refused because ten events are pending,
  or it came with an \<open>incantation\<close> whose second half is then written over it.
\<close>
theorem how_arguments_get_lost:
  assumes "arg_step\<^sup>*\<^sup>* no_strings m" "arg_bufs m c = Some b"
  shows "(queue_command (Some t) c cmd delay p arg m = Inr (r, m1) \<longrightarrow>
      lost m1 = (if arg \<noteq> None \<and> length (pending b) = 10 then insert (next_string m) (lost m) else lost m)) \<and>
    (play_event (Some t) c ritual m = Inr (r, m2) \<longrightarrow>
      lost m2 = lost m \<union> (if front_due t b \<and> ritual_starts b ritual then set_option (ev_arg (front b)) else {})) \<and>
    (leave c m = Inr m3 \<longrightarrow> lost m3 = lost m)"
proof -
  have ok: "args_ok m" using arg_steps_ok [OF assms(1) no_strings_ok(1)] by simp
  show ?thesis
    using command_ok [OF ok assms(2), of t cmd delay p arg] play_event_ok [OF ok assms(2), of t ritual]
      leave_ok [OF ok assms(2)] by (auto simp del: not_None_eq)
qed

theorem how_arguments_get_lost_witness:
  "\<exists>m'. leave 7 one_client = Inr m' \<and> lost m' = lost one_client"
proof -
  have "args_ok one_client" using arg_steps_ok [OF one_client_reached(1) no_strings_ok(1)] by simp
  from leave_ok [OF this one_client_reached(2)] obtain m' where "leave 7 one_client = Inr m'" by blast
  with how_arguments_get_lost [OF one_client_reached] show ?thesis by blast
qed

definition refused :: "nat \<Rightarrow> time_api \<Rightarrow> command_type \<Rightarrow> string \<Rightarrow> arg_state \<Rightarrow> arg_state res" where
  "refused c t cmd s m = and_then (queue_command (Some t) c cmd 7 None (Some s) m) (\<lambda>(r, m1). Inr m1)"

lemma refused_loop:
  "args_ok m \<Longrightarrow> arg_bufs m c = Some b \<Longrightarrow> length (pending b) = 10 \<Longrightarrow>
   \<exists>m'. for_each ss (refused c t cmd) m = Inr m' \<and> args_ok m' \<and> card (lost m') = card (lost m) + length ss"
proof (induction ss arbitrary: m)
  case Nil
  then show ?case by simp
next
  case (Cons s ss)
  have wf: "wf_buffer b" using args_okD(1) [OF Cons.prems(1,2)] by (simp add: tidy_def)
  obtain m1 where m1: "queue_command (Some t) c cmd 7 None (Some s) m = Inr (SUCCESS, m1)" "args_ok m1"
    "lost m1 = insert (next_string m) (lost m)"
    using command_ok [OF Cons.prems(1,2), of t cmd 7 None "Some s"] Cons.prems(3) by auto
  have "next_string m \<notin> lost m" using args_okD(4) [OF Cons.prems(1), of "next_string m"] less_irrefl unfolding lost_def by blast
  then have card: "card (lost m1) = card (lost m) + 1" using m1(3) finite_lost [OF Cons.prems(1)] by simp
  have "booked t cmd 7 None a b = b" for a using Cons.prems(3) by (simp add: booked_def)
  then have "arg_bufs m1 c = Some b"
    using queue_eq(2) [OF Cons.prems(2) wf, of t cmd 7 None s] m1(1) by auto
  from Cons.IH [OF m1(2) this Cons.prems(3)] m1(1) card show ?case by (auto simp: refused_def)
qed

text \<open>
  C35: a client that keeps sending commands with an argument while ten events are pending makes the
  server leak one string per command, and nothing that happens afterwards, its death included,
  ever frees one of them.
\<close>
theorem refused_arguments_leak:
  assumes "arg_step\<^sup>*\<^sup>* no_strings m" "arg_bufs m c = Some b" "length (pending b) = 10"
  shows "\<exists>m'. for_each ss (refused c t cmd) m = Inr m' \<and> card (lost m') = card (lost m) + length ss \<and>
    (\<forall>m2. arg_step\<^sup>*\<^sup>* m' m2 \<longrightarrow> lost m' \<subseteq> lost m2)"
proof -
  have ok: "args_ok m" using arg_steps_ok [OF assms(1) no_strings_ok(1)] by simp
  from refused_loop [OF ok assms(2,3)] show ?thesis using arg_steps_ok by blast
qed

lemma full_buffer_reached:
  "n \<le> 10 \<Longrightarrow> \<exists>m b. arg_step\<^sup>*\<^sup>* no_strings m \<and> arg_bufs m 7 = Some b \<and> length (pending b) = n"
proof (induction n)
  case 0
  show ?case
    by (rule exI [of _ one_client], rule exI [of _ "empty_buffer None"]) (simp add: one_client_reached)
next
  case (Suc n)
  then obtain m b where m: "arg_step\<^sup>*\<^sup>* no_strings m" "arg_bufs m 7 = Some b" "length (pending b) = n" by auto
  then have wf: "wf_buffer b"
    using arg_steps_ok [OF m(1) no_strings_ok(1)] args_okD(1) [of m 7 b] by (simp add: tidy_def)
  let ?t = "\<lparr>t_divider = 1, start_time_ms = 0, current_time_units = 0\<rparr>"
  let ?b = "booked ?t VOIR 7 None None b" and ?m = "m\<lparr>arg_bufs := (arg_bufs m)(7 \<mapsto> booked ?t VOIR 7 None None b)\<rparr>"
  have "arg_step m ?m" using queue_eq(1) [OF m(2) wf, of ?t VOIR 7 None] by (rule arg_step.command)
  moreover have "length (pending ?b) = Suc n"
    using m(3) Suc.prems by (simp add: booked_def pending_push_back [OF wf])
  ultimately show ?case using m(1) by (intro exI [of _ ?m] exI [of _ ?b]) simp
qed

theorem refused_arguments_leak_witness:
  "\<exists>m m'. for_each [''hello'', ''hello'', ''hello'']
      (refused 7 \<lparr>t_divider = 1, start_time_ms = 0, current_time_units = 0\<rparr> BROADCAST) m = Inr m' \<and>
    card (lost m') = card (lost m) + 3"
proof -
  obtain m b where m: "arg_step\<^sup>*\<^sup>* no_strings m" "arg_bufs m 7 = Some b" "length (pending b) = 10"
    using full_buffer_reached [of 10] by auto
  from refused_arguments_leak [OF m, of "[''hello'', ''hello'', ''hello'']"] show ?thesis by fastforce
qed

section \<open>The addresses refine the values\<close>

text \<open>A buffer as the game's model has it: the arguments are the strings themselves.\<close>

definition value_event :: "arg_state \<Rightarrow> (callback, ptr, nat) event \<Rightarrow> game_event" where
  "value_event m e = \<lparr>exec_time = exec_time e, ev_callback = ev_callback e, ev_data = ev_data e,
     ev_arg = map_option (\<lambda>a. the (strings m a)) (ev_arg e)\<rparr>"

definition value_buf :: "arg_state \<Rightarrow> arg_buffer \<Rightarrow> game_buffer" where
  "value_buf m b = \<lparr>eb_events = map (value_event m) (eb_events b), eb_count = eb_count b,
     eb_head = eb_head b, eb_tail = eb_tail b\<rparr>"

text \<open>What the callbacks do to a buffer of values.\<close>

definition value_callback ::
  "time_api \<Rightarrow> (int \<times> int) option \<Rightarrow> callback \<Rightarrow> ptr \<Rightarrow> string option \<Rightarrow> game_buffer \<Rightarrow> game_buffer res" where
  "value_callback t ritual cb p arg b =
     (case ritual of
        None \<Rightarrow> Inr b
      | Some (delay, level) \<Rightarrow>
          if cb = Command INCANTATION then
            Inr (snd (time_api_schedule_client_event_front None (Some t) b delay (Some Real_Incantation) p
                   (Some (snprintf_d 12 level))))
          else Inr b)"

lemma value_buf_fields [simp]:
  "eb_count (value_buf m b) = eb_count b" "eb_head (value_buf m b) = eb_head b" "eb_tail (value_buf m b) = eb_tail b"
  "eb_events (value_buf m b) = map (value_event m) (eb_events b)" "wf_buffer (value_buf m b) = wf_buffer b"
  by (simp_all add: value_buf_def wf_buffer_def)

lemma value_event_fields [simp]:
  "exec_time (value_event m e) = exec_time e" "ev_callback (value_event m e) = ev_callback e"
  "ev_data (value_event m e) = ev_data e"
  by (simp_all add: value_event_def)

lemma value_pending: "wf_buffer b \<Longrightarrow> length (pending (value_buf m b)) = length (pending b)"
  using length_pending [of b] length_pending [of "value_buf m b"] by simp

lemma value_due_time: "wf_buffer b \<Longrightarrow> due_time t (value_buf m b) delay = due_time t b delay"
  by (auto simp: due_time_def wf_buffer_def nat_less_iff)

lemma value_front: "wf_buffer b \<Longrightarrow> front (value_buf m b) = value_event m (front b)"
  by (auto simp: front_def wf_buffer_def nat_less_iff)

lemma value_buf_cong:
  assumes "length (eb_events b) = 10" "\<And>i a. i < 10 \<Longrightarrow> slot_arg b i = Some a \<Longrightarrow> strings m' a = strings m a"
  shows "value_buf m' b = value_buf m b"
proof -
  have "value_event m' (eb_events b ! i) = value_event m (eb_events b ! i)" if "i < 10" for i
    using assms(2) [OF that] by (cases "ev_arg (eb_events b ! i)") (simp_all add: value_event_def slot_arg_def)
  then show ?thesis using assms(1) by (simp add: value_buf_def list_eq_iff_nth_eq)
qed

lemma value_push_back: "value_buf m (push_back e b) = push_back (value_event m e) (value_buf m b)"
  by (simp add: value_buf_def push_back_def map_update)

lemma value_push_front: "value_buf m (push_front e b) = push_front (value_event m e) (value_buf m b)"
  by (simp add: value_buf_def push_front_def map_update Let_def)

lemma value_pop: "value_buf m (pop b) = pop (value_buf m b)"
  by (simp add: value_buf_def pop_def)

text \<open>Buffers of other clients, and slots that are not touched, keep their values.\<close>

lemma values_kept:
  assumes ok: "args_ok m" and "arg_bufs m d = Some bd"
    and "\<And>a i. held m a d i \<Longrightarrow> strings m' a = strings m a"
  shows "value_buf m' bd = value_buf m bd"
proof (rule value_buf_cong)
  show "length (eb_events bd) = 10" using args_okD(1) [OF ok assms(2)] by (simp add: tidy_def wf_buffer_def)
  show "strings m' a = strings m a" if "i < 10" "slot_arg bd i = Some a" for i a
    using assms(2) that by (intro assms(3)) (simp add: held_def)
qed

lemma fresh_kept: "args_ok m \<Longrightarrow> held m a d i \<Longrightarrow> ((strings m)(next_string m \<mapsto> s)) a = strings m a"
  using fresh_unheld [of m d i] by auto

definition refines ::
  "arg_state \<Rightarrow> nat \<Rightarrow> arg_state \<Rightarrow> game_buffer \<Rightarrow> bool" where
  "refines m c m' b' \<longleftrightarrow> (\<exists>b. arg_bufs m' c = Some b \<and> value_buf m' b = b') \<and>
     (\<forall>d bd. d \<noteq> c \<and> arg_bufs m d = Some bd \<longrightarrow> arg_bufs m' d = Some bd \<and> value_buf m' bd = value_buf m bd)"

lemma value_booked:
  assumes "wf_buffer b" "value_buf m' b = value_buf m b" "arg = map_option (\<lambda>a. the (strings m' a)) p"
  shows "value_buf m' (booked t cmd delay d p b)
    = snd (time_api_schedule_client_event None (Some t) (value_buf m b) delay (Some (Command cmd)) d arg)"
proof (cases "length (pending b) < 10")
  case True
  then have "eb_count (value_buf m b) < 10" using count_less [OF assms(1)] by simp
  then show ?thesis
    using True assms
    by (simp add: booked_def value_push_back schedule_eq [where tm = t] pick_api_def value_due_time)
      (simp add: value_event_def)
next
  case False
  then have "eb_count (value_buf m b) = 10"
    using length_pending_le [OF assms(1)] length_pending [OF assms(1)] by simp
  with False assms(2) show ?thesis by (simp add: booked_def schedule_full_eq)
qed

lemma command_refines:
  assumes ok: "args_ok m" and b: "arg_bufs m c = Some b"
    and run: "queue_command (Some t) c cmd delay p arg m = Inr (r, m')"
  shows "refines m c m'
    (snd (time_api_schedule_client_event None (Some t) (value_buf m b) delay (Some (Command cmd)) p arg))"
proof -
  have wf: "wf_buffer b" using args_okD(1) [OF ok b] by (simp add: tidy_def)
  have kept: "value_buf m' bd = value_buf m bd" if "arg_bufs m d = Some bd" for d bd
    using queue_eq [OF b wf] run fresh_kept [OF ok]
    by (cases arg; intro values_kept [OF ok that]) auto
  have "\<exists>a. arg_bufs m' = (arg_bufs m)(c \<mapsto> booked t cmd delay p a b) \<and> arg = map_option (\<lambda>a. the (strings m' a)) a"
    using queue_eq [OF b wf] run by (cases arg) (auto intro!: exI [of _ None] exI [of _ "Some (next_string m)"])
  then obtain a where a: "arg_bufs m' = (arg_bufs m)(c \<mapsto> booked t cmd delay p a b)"
    "arg = map_option (\<lambda>a. the (strings m' a)) a" by blast
  show ?thesis
    unfolding refines_def using a kept value_booked [OF wf kept [OF b] a(2)] by auto
qed

definition value_play :: "time_api \<Rightarrow> (int \<times> int) option \<Rightarrow> game_buffer \<Rightarrow> (int \<times> game_buffer) res" where
  "value_play t ritual b =
     time_api_process_client_events (Some t) Inr (\<lambda>b1 _. Inr b1) (value_callback t ritual) (\<lambda>_. Inr) b"

lemma value_due:
  assumes "wf_buffer b"
  shows "front_due t b \<longleftrightarrow> pending (value_buf m b) \<noteq> [] \<and> exec_time (front (value_buf m b)) \<le> current_time_units t"
  using value_pending [OF assms, of m] value_front [OF assms, of m] by (auto simp: front_due_def)

text \<open>The event loop over a plain buffer, one due event.\<close>

lemma plain_due:
  assumes "wf_buffer v" "pending v \<noteq> [] \<and> exec_time (front v) \<le> current_time_units t"
  shows "time_api_process_client_events (Some t) Inr (\<lambda>b1 _. Inr b1) call (\<lambda>_. Inr) v =
    and_then (case ev_callback (front v) of None \<Rightarrow> Inr (pop v)
        | Some cb \<Rightarrow> call cb (ev_data (front v)) (ev_arg (front v)) (pop v)) (\<lambda>b2.
      if eb_head (pop v) = eb_head b2 \<and> ev_arg (eb_events b2 ! nat (eb_head v)) \<noteq> None then
        Inr (SUCCESS, b2\<lparr>eb_events := (eb_events b2)[nat (eb_head v) :=
          (eb_events b2 ! nat (eb_head v))\<lparr>ev_arg := None\<rparr>]\<rparr>)
      else Inr (SUCCESS, b2))"
proof -
  have "pending v \<noteq> []" "exec_time (front v) \<le> current_time_units t" using assms(2) by simp_all
  then show ?thesis
    using assms(1)
    by (simp add: process_due [where get = Inr and w = v and b = v and m_time = "Some t" and tm = t] cong: if_cong)
qed

lemma play_ritual_refines:
  assumes ok: "args_ok m" and b: "arg_bufs m c = Some b" and due: "front_due t b"
    and rit: "ev_callback (front b) = Some (Command INCANTATION)" "ritual = Some (delay, level)"
    and run: "play_event (Some t) c ritual m = Inr (r, m')"
  shows "\<exists>vb. value_play t ritual (value_buf m b) = Inr (SUCCESS, vb) \<and> refines m c m' vb"
proof -
  have wf: "wf_buffer b" using args_okD(1) [OF ok b] by (simp add: tidy_def)
  have d: "pending b \<noteq> []" using due by (simp add: front_due_def)
  note vd = value_due [OF wf, of t m, THEN iffD1, OF due]
  have vwf: "wf_buffer (value_buf m b)" using wf by simp
  define n where "n = next_string m"
  have m': "strings m' = (strings m)(n \<mapsto> snprintf_d 12 level)"
    "arg_bufs m' = (arg_bufs m)(c \<mapsto> push_front (second_half t delay (ev_data (front b)) n) (pop b))"
    using play_ritual [OF b wf due rit] run by (auto simp: n_def)
  have kept: "value_buf m' bd = value_buf m bd" if "arg_bufs m e = Some bd" for e bd
    using values_kept [OF ok that, of m'] fresh_kept [OF ok] m'(1) by (auto simp: n_def)
  let ?e = "\<lparr>exec_time = current_time_units t + of_int delay, ev_callback = Some Real_Incantation,
    ev_data = ev_data (front b), ev_arg = Some (snprintf_d 12 level)\<rparr>"
  let ?vb = "push_front ?e (pop (value_buf m b))"
  have "value_event m' (second_half t delay (ev_data (front b)) n) = ?e"
    by (simp add: value_event_def second_half_def m'(1))
  then have v: "value_buf m' (push_front (second_half t delay (ev_data (front b)) n) (pop b)) = ?vb"
    by (simp add: value_push_front value_pop kept [OF b])
  have "length (pending (pop (value_buf m b))) < 10"
    using length_pending_le [OF vwf] pending_not_empty [OF vwf] vd by auto
  then have "eb_count (pop (value_buf m b)) < 10" using count_less [OF wf_pop [OF vwf]] vd by simp
  then have sched: "time_api_schedule_client_event_front None (Some t) (pop (value_buf m b)) delay
      (Some Real_Incantation) (ev_data (front b)) (Some (snprintf_d 12 level)) = (0, ?vb)"
    by (simp add: schedule_front_eq [where tm = t] pick_api_def)
  have "(eb_head b + 1) mod 10 \<noteq> eb_head b" using wf unfolding wf_buffer_def by presburger
  then have "eb_head (pop (value_buf m b)) \<noteq> eb_head ?vb"
    using push_front_pop(1) [OF wf d, of "second_half t delay (ev_data (front b)) n"] wf unfolding v [symmetric]
    by (simp add: pop_def wrap_simps wf_buffer_def)
  moreover have "time_api_process_client_events (Some t) Inr (\<lambda>b1 _. Inr b1) (value_callback t ritual) (\<lambda>_. Inr)
      (value_buf m b) = (if eb_head (pop (value_buf m b)) = eb_head ?vb \<and>
        ev_arg (eb_events ?vb ! nat (eb_head (value_buf m b))) \<noteq> None
      then Inr (SUCCESS, ?vb\<lparr>eb_events := (eb_events ?vb)[nat (eb_head (value_buf m b)) :=
        (eb_events ?vb ! nat (eb_head (value_buf m b)))\<lparr>ev_arg := None\<rparr>]\<rparr>) else Inr (SUCCESS, ?vb))"
    using rit
    by (simp add: plain_due [OF vwf vd] value_callback_def value_front [OF wf] sched cong: if_cong)
  ultimately have "value_play t ritual (value_buf m b) = Inr (SUCCESS, ?vb)" by (simp add: value_play_def)
  moreover have "refines m c m' ?vb" unfolding refines_def using m'(2) kept v by auto
  ultimately show ?thesis by blast
qed

lemma value_cleared:
  assumes ok: "args_ok m" and b: "arg_bufs m c = Some b"
    and m': "strings m' = (case ev_arg (front b) of None \<Rightarrow> strings m | Some a \<Rightarrow> (strings m)(a := None))"
  shows "value_buf m' (cleared b) = (pop (value_buf m b))\<lparr>eb_events :=
    (map (value_event m) (eb_events b))[nat (eb_head b) := (value_event m (front b))\<lparr>ev_arg := None\<rparr>]\<rparr>"
proof -
  let ?h = "nat (eb_head b)"
  have wf: "length (eb_events b) = 10" "?h < 10"
    using args_okD(1) [OF ok b] by (auto simp: tidy_def wf_buffer_def)
  have "value_event m' (eb_events b ! i) = value_event m (eb_events b ! i)" if "i < 10" "i \<noteq> ?h" for i
  proof (cases "ev_arg (eb_events b ! i)")
    case (Some a)
    then have "held m a c i" using b that(1) by (simp add: held_def slot_arg_def)
    then have "ev_arg (front b) \<noteq> Some a"
      using args_okD(3) [OF ok, of a c i c ?h] b wf(2) that(2) by (auto simp: held_def slot_arg_def front_def)
    then have "strings m' a = strings m a" using m' by (auto split: option.split)
    with Some show ?thesis by (simp add: value_event_def)
  qed (simp add: value_event_def)
  moreover have "value_event m' ((front b)\<lparr>ev_arg := None\<rparr>) = (value_event m (front b))\<lparr>ev_arg := None\<rparr>"
    by (simp add: value_event_def)
  ultimately have "map (value_event m') (eb_events (cleared b))
      = (map (value_event m) (eb_events b))[?h := (value_event m (front b))\<lparr>ev_arg := None\<rparr>]"
    using wf by (auto simp: cleared_def list_eq_iff_nth_eq nth_list_update)
  then show ?thesis by (simp add: value_buf_def cleared_def pop_def)
qed

lemma play_done_refines:
  assumes ok: "args_ok m" and b: "arg_bufs m c = Some b" and due: "front_due t b" and plain: "\<not> ritual_starts b ritual"
    and run: "play_event (Some t) c ritual m = Inr (r, m')"
  shows "\<exists>vb. value_play t ritual (value_buf m b) = Inr (SUCCESS, vb) \<and> refines m c m' vb"
proof -
  have wf: "wf_buffer b" "nat (eb_head b) < 10" "length (eb_events b) = 10"
    using args_okD(1) [OF ok b] by (auto simp: tidy_def wf_buffer_def)
  note vd = value_due [OF wf(1), of t m, THEN iffD1, OF due]
  have vwf: "wf_buffer (value_buf m b)" using wf by simp
  have m': "strings m' = (case ev_arg (front b) of None \<Rightarrow> strings m | Some a \<Rightarrow> (strings m)(a := None))"
    "arg_bufs m' = (arg_bufs m)(c \<mapsto> cleared b)"
    using play_done [OF ok b due plain] run by auto
  have kept: "value_buf m' bd = value_buf m bd" if "arg_bufs m e = Some bd" "e \<noteq> c" for e bd
  proof (rule values_kept [OF ok that(1)])
    fix a i
    assume "held m a e i"
    then have "ev_arg (front b) \<noteq> Some a"
      using args_okD(3) [OF ok, of a e i c "nat (eb_head b)"] b wf(2) that(2)
      by (auto simp: held_def slot_arg_def front_def)
    then show "strings m' a = strings m a" using m'(1) by (auto split: option.split)
  qed
  let ?vf = "value_event m (front b)"
  let ?vb = "(pop (value_buf m b))\<lparr>eb_events :=
    (map (value_event m) (eb_events b))[nat (eb_head b) := ?vf\<lparr>ev_arg := None\<rparr>]\<rparr>"
  have fr: "map (value_event m) (eb_events b) ! nat (eb_head b) = ?vf" using wf by (simp add: front_def)
  have same: "?vb = pop (value_buf m b)" if "ev_arg ?vf = None"
  proof -
    have "?vf\<lparr>ev_arg := None\<rparr> = ?vf" using that by (cases ?vf) simp
    then have "?vb = (pop (value_buf m b))\<lparr>eb_events := map (value_event m) (eb_events b)\<rparr>"
      unfolding fr [symmetric] by (simp only: list_update_id)
    then show ?thesis by (simp add: pop_def)
  qed
  have call: "(case ev_callback (front b) of None \<Rightarrow> Inr w | Some cb \<Rightarrow> value_callback t ritual cb q x w)
      = Inr w" for q x w
    using plain by (auto simp: value_callback_def ritual_starts_def split: option.split)
  have "value_play t ritual (value_buf m b) = Inr (SUCCESS, ?vb)"
    unfolding value_play_def
  proof (cases "ev_arg ?vf")
    case None
    then show "time_api_process_client_events (Some t) Inr (\<lambda>b1 _. Inr b1) (value_callback t ritual) (\<lambda>_. Inr)
        (value_buf m b) = Inr (SUCCESS, ?vb)"
      unfolding same [OF None]
      by (simp add: plain_due [OF vwf vd] value_front [OF wf(1)] call fr pop_def cong: if_cong)
  next
    case (Some a)
    then show "time_api_process_client_events (Some t) Inr (\<lambda>b1 _. Inr b1) (value_callback t ritual) (\<lambda>_. Inr)
        (value_buf m b) = Inr (SUCCESS, ?vb)"
      by (simp add: plain_due [OF vwf vd] value_front [OF wf(1)] call fr pop_def
          cong: if_cong)
  qed
  moreover have "refines m c m' ?vb"
    unfolding refines_def using m'(2) kept value_cleared [OF ok b m'(1)] by auto
  ultimately show ?thesis by blast
qed



end
